(* ===== verification/Prelude.thy ===== *)
theory Prelude
  imports Main "HOL-Library.Word" "HOL-Library.Monad_Syntax"
begin

text \<open>
  Shared vocabulary of the development: the C integer types at their width (x86-64, the
  platform the repository was built on: little-endian, 8-bit signed \<open>char\<close>), bounds-checked
  access to C byte arrays, the byte order functions, and generic facts about lists and the
  option monad.  Throughout, \<open>None\<close> in a result of type \<open>'a option\<close> stands for undefined
  behaviour of the C program (access out of bounds, use of a freed or null pointer, division
  by zero) or for a loop that does not return; every error the code itself handles is an
  ordinary return value.
\<close>

section \<open>Machine types\<close>

type_synonym u8 = "8 word"
type_synonym u16 = "16 word"
type_synonym u32 = "32 word"
type_synonym u64 = "64 word"
type_synonym size_t = "64 word"

type_synonym addr = nat
type_synonym ptr = "addr option"

text \<open>Conversions to the signed C types: \<open>int\<close> (32 bits), \<open>short\<close> (16 bits), \<open>char\<close> (8 bits).\<close>

definition to_int :: "int \<Rightarrow> int" where
  "to_int i = sint (word_of_int i :: 32 word)"

definition to_short :: "int \<Rightarrow> int" where
  "to_short i = sint (word_of_int i :: 16 word)"

definition signed_char :: "u8 \<Rightarrow> int" where
  "signed_char b = sint b"

text \<open>An \<open>int\<close> converted to \<open>size_t\<close>, \<open>u_int8_t\<close> or \<open>u_int16_t\<close> wraps around.\<close>

abbreviation size_of_int :: "int \<Rightarrow> size_t" where
  "size_of_int \<equiv> word_of_int"

named_theorems mem_simps "rewriting of bounds-checked memory accesses"
named_theorems frame_simps "fields an operation leaves alone"
named_theorems inv_intros "introduction and preservation rules of the invariants"

section \<open>Option monad\<close>

lemma bind_SomeE:
  assumes "Option.bind m f = Some y"
  obtains x where "m = Some x" "f x = Some y"
  using assms by (cases m) auto

lemma bind_Some_iff: "Option.bind m f = Some y \<longleftrightarrow> (\<exists>x. m = Some x \<and> f x = Some y)"
  by (cases m) auto

section \<open>Byte arrays\<close>

text \<open>
  \<open>peek buf off n\<close> reads \<open>n\<close> bytes at offset \<open>off\<close>, \<open>poke off bs buf\<close> writes \<open>bs\<close> there:
  \<open>memcpy\<close> and array accesses, \<open>None\<close> when an access leaves the array.
\<close>

definition peek :: "u8 list \<Rightarrow> nat \<Rightarrow> nat \<Rightarrow> u8 list option" where
  "peek buf off n = (if off + n \<le> length buf then Some (take n (drop off buf)) else None)"

definition peek1 :: "u8 list \<Rightarrow> nat \<Rightarrow> u8 option" where
  "peek1 buf i = (if i < length buf then Some (buf ! i) else None)"

definition poke :: "nat \<Rightarrow> u8 list \<Rightarrow> u8 list \<Rightarrow> u8 list option" where
  "poke off bs buf =
     (if off + length bs \<le> length buf
      then Some (take off buf @ bs @ drop (off + length bs) buf) else None)"

lemma peek_length [mem_simps]: "peek buf off n = Some bs \<Longrightarrow> length bs = n"
  by (auto simp: peek_def split: if_splits)

lemma peek_Some_iff: "peek buf off n = Some bs \<longleftrightarrow> off + n \<le> length buf \<and> bs = take n (drop off buf)"
  by (auto simp: peek_def)

lemma peek_None_iff: "peek buf off n = None \<longleftrightarrow> length buf < off + n"
  by (auto simp: peek_def)

lemma poke_None_iff: "poke off bs buf = None \<longleftrightarrow> length buf < off + length bs"
  by (auto simp: poke_def)

lemma poke_length: "poke off bs buf = Some buf' \<Longrightarrow> length buf' = length buf"
  by (auto simp: poke_def split: if_splits)

lemma poke_Some_iff:
  "poke off bs buf = Some buf' \<longleftrightarrow>
     off + length bs \<le> length buf \<and> buf' = take off buf @ bs @ drop (off + length bs) buf"
  by (auto simp: poke_def)

text \<open>Consecutive writes are one write.\<close>

lemma poke_poke [mem_simps]:
  "Option.bind (poke off bs buf) (\<lambda>b. Option.bind (poke (off + length bs) cs b) k) =
   Option.bind (poke off (bs @ cs) buf) k"
proof (cases "off + length bs + length cs \<le> length buf")
  case True
  then show ?thesis by (simp add: poke_def add.commute add.left_commute)
next
  case False
  have "poke off (bs @ cs) buf = None"
    using False by (simp add: poke_None_iff)
  moreover have "Option.bind (poke off bs buf) (\<lambda>b. Option.bind (poke (off + length bs) cs b) k) = None"
  proof (cases "poke off bs buf")
    case (Some b)
    then have "poke (off + length bs) cs b = None"
      using False by (simp add: poke_None_iff poke_length)
    with Some show ?thesis by simp
  qed simp
  ultimately show ?thesis by simp
qed

text \<open>Reading back what was written, and reading elsewhere.\<close>

lemma peek_poke_same:
  "poke off bs buf = Some buf' \<Longrightarrow> n = length bs \<Longrightarrow> peek buf' off n = Some bs"
  by (auto simp: poke_def peek_def split: if_splits)

lemma peek_poke_inside:
  assumes "poke off bs buf = Some buf'" and "k + n \<le> length bs"
  shows "peek buf' (off + k) n = Some (take n (drop k bs))"
  using assms by (auto simp: poke_def peek_def split: if_splits)

lemma peek_poke_before:
  assumes "poke off bs buf = Some buf'" and "k + n \<le> off"
  shows "peek buf' k n = peek buf k n"
  using assms by (auto simp: poke_def peek_def min_def drop_take split: if_splits)

section \<open>Little-endian memory images of integers\<close>

fun le_bytes :: "nat \<Rightarrow> 'a::len word \<Rightarrow> u8 list" where
  "le_bytes 0 w = []"
| "le_bytes (Suc n) w = ucast w # le_bytes n (drop_bit 8 w)"

fun le_word :: "u8 list \<Rightarrow> 'a::len word" where
  "le_word [] = 0"
| "le_word (b # bs) = or (ucast b) (push_bit 8 (le_word bs))"

lemma length_le_bytes [simp]: "length (le_bytes n w) = n"
  by (induction n arbitrary: w) auto

lemma le_word_le_bytes_take: "le_word (le_bytes n w) = take_bit (8 * n) (w :: 'a::len word)"
proof (induction n arbitrary: w)
  case 0
  then show ?case by simp
next
  case (Suc n)
  have "or (ucast (ucast w :: u8)) (push_bit 8 (take_bit (8 * n) (drop_bit 8 w))) = take_bit (8 + 8 * n) w"
    by (rule bit_word_eqI) (auto simp: bit_simps)
  then show ?case using Suc by simp
qed

lemma le_word_le_bytes:
  "LENGTH('a) \<le> 8 * n \<Longrightarrow> le_word (le_bytes n w) = (w :: 'a::len word)"
  by (simp add: le_word_le_bytes_take take_bit_word_eq_self)

lemma le_bytes_le_word:
  "length bs = n \<Longrightarrow> 8 * n \<le> LENGTH('a) \<Longrightarrow> le_bytes n (le_word bs :: 'a::len word) = bs"
proof (induction bs arbitrary: n)
  case Nil
  then show ?case by simp
next
  case (Cons b bs)
  then obtain m where m: "n = Suc m" "length bs = m" by (cases n) auto
  have low: "ucast (or (ucast b) (push_bit 8 (le_word bs)) :: 'a word) = b"
    using Cons.prems m by (intro bit_word_eqI) (auto simp: bit_simps dest: bit_imp_le_length)
  have w: "(le_word bs :: 'a word) = take_bit (LENGTH('a) - 8) (le_word bs)"
  proof -
    have "le_word bs = (le_word (le_bytes m (le_word bs :: 'a word)) :: 'a word)"
      using Cons.IH [of m] Cons.prems m by simp
    also have "\<dots> = take_bit (8 * m) (le_word bs)" by (rule le_word_le_bytes_take)
    finally have t: "(le_word bs :: 'a word) = take_bit (8 * m) (le_word bs)" .
    have "take_bit (LENGTH('a) - 8) (take_bit (8 * m) (le_word bs :: 'a word)) = take_bit (8 * m) (le_word bs)"
      using Cons.prems m by (simp add: take_bit_take_bit min_absorb2)
    then show ?thesis using t by metis
  qed
  have "drop_bit 8 (or (ucast b) (push_bit 8 (le_word bs)) :: 'a word) = take_bit (LENGTH('a) - 8) (le_word bs)"
    using Cons.prems m by (intro bit_word_eqI) (auto simp: bit_simps dest: bit_imp_le_length)
  then have high: "drop_bit 8 (or (ucast b) (push_bit 8 (le_word bs)) :: 'a word) = le_word bs"
    using w by simp
  show ?case using Cons.IH [of m] Cons.prems m low high by simp
qed

section \<open>Byte order\<close>

text \<open>On a little-endian host \<open>htons\<close> and \<open>ntohs\<close> both swap the two bytes.\<close>

definition htons :: "u16 \<Rightarrow> u16" where
  "htons w = or (push_bit 8 w) (drop_bit 8 w)"

definition ntohs :: "u16 \<Rightarrow> u16" where
  "ntohs w = htons w"

lemma ntohs_htons [simp]: "ntohs (htons w) = w"
  by (rule bit_word_eqI) (auto simp: htons_def ntohs_def bit_simps)

lemma htons_ntohs [simp]: "htons (ntohs w) = w"
  by (rule bit_word_eqI) (auto simp: htons_def ntohs_def bit_simps)

lemma ntohs_zero [simp]: "ntohs 0 = 0"
  by (simp add: ntohs_def htons_def)

lemma le_bytes_htons: "le_bytes 2 (htons w) = [ucast (drop_bit 8 w), ucast w]"
proof -
  have a: "ucast (htons w) = (ucast (drop_bit 8 w) :: u8)"
    by (rule bit_word_eqI) (auto simp: htons_def bit_simps)
  have b: "ucast (drop_bit 8 (htons w)) = (ucast w :: u8)"
    by (rule bit_word_eqI) (auto simp: htons_def bit_simps)
  show ?thesis using a b by (simp add: numeral_2_eq_2)
qed

lemma unat_of_nat_u16: "n < 65536 \<Longrightarrow> unat (of_nat n :: u16) = n"
  by (simp add: unat_of_nat)

lemma unat_of_nat_size: "n < 18446744073709551616 \<Longrightarrow> unat (of_nat n :: size_t) = n"
  by (simp add: unat_of_nat)

end
