(* ===== verification/Machine.thy ===== *)
theory Machine
  imports Prelude "HOL-Library.List_Lexorder"
begin

text \<open>
  The data of \<open>struct.h\<close> and \<open>list.h\<close> as records, the identity of a neighbour (its address
  and port) as a linearly ordered type, and the world the C library calls act on:
  \<open>malloc\<close>, \<open>clock_gettime\<close>, \<open>rand\<close>, \<open>sendto\<close>, \<open>write\<close>.
  What those calls return is not under the program's control; it is read from functions
  of the number of calls made so far (\<open>alloc_ok\<close>, \<open>clock\<close>, \<open>rnd\<close>, \<open>send_rc\<close>), on which no
  assumption is made here.  Addresses are never handed out twice, so that a use of freed
  memory is visible as a failed lookup.
\<close>

section \<open>struct.h\<close>

definition MAX_SIZE :: nat where "MAX_SIZE = 4096"

definition PMTU :: nat where "PMTU = 1232"

text \<open>\<open>body_length\<close> holds the 16-bit field as it is stored, in network byte order.\<close>

record message_h =
  magic :: u8
  version :: u8
  body_length :: u16
  body :: "u8 list"

record neighbor =
  ip :: "u8 list"
  port :: u16
  msg :: ptr

record ident =
  ident_id :: u64
  last_hello :: int
  last_hello_long :: int

record data_index =
  index_id :: u64
  nonce :: u32

text \<open>The memory image of a \<open>message_h\<close>: what \<open>sendto\<close> and \<open>recvfrom\<close> see.\<close>

definition message_bytes :: "message_h \<Rightarrow> u8 list" where
  "message_bytes m = [magic m, version m] @ le_bytes 2 (body_length m) @ body m"

definition bytes_message :: "u8 list \<Rightarrow> message_h" where
  "bytes_message bs =
     \<lparr>magic = bs ! 0, version = bs ! 1, body_length = le_word (take 2 (drop 2 bs)), body = drop 4 bs\<rparr>"

lemma bytes_message_bytes: "bytes_message (message_bytes m) = m"
  using le_word_le_bytes [of 2 "body_length m"]
  by (simp add: bytes_message_def message_bytes_def)

lemma length_message_bytes [simp]: "length (message_bytes m) = 4 + length (body m)"
  by (simp add: message_bytes_def)

section \<open>list.h\<close>

text \<open>
  A \<open>struct neighbor *\<close> points to a local variable of a caller, or to the heap copy that a
  tree node owns.  The heap copies are written once, when \<open>init\<close> fills them, so the
  pointer is modelled with the value it points to; the address tells whether it is still
  allocated.
\<close>

datatype nptr = Local neighbor | Key addr neighbor

fun deref :: "(addr \<Rightarrow> bool) \<Rightarrow> nptr \<Rightarrow> neighbor option" where
  "deref live (Local n) = Some n"
| "deref live (Key a n) = (if live a then Some n else None)"

record ngb_entry =
  sym :: nptr
  times_sent :: int
  wait_until :: int

section \<open>The identity of a neighbour\<close>

datatype nkey = NKey (nkey_ip: "u8 list") (nkey_port: u16)

instantiation nkey :: linorder
begin

definition less_eq_nkey :: "nkey \<Rightarrow> nkey \<Rightarrow> bool" where
  "less_eq_nkey a b \<longleftrightarrow> nkey_ip a < nkey_ip b \<or> nkey_ip a = nkey_ip b \<and> nkey_port a \<le> nkey_port b"

definition less_nkey :: "nkey \<Rightarrow> nkey \<Rightarrow> bool" where
  "less_nkey a b \<longleftrightarrow> nkey_ip a < nkey_ip b \<or> nkey_ip a = nkey_ip b \<and> nkey_port a < nkey_port b"

instance
  by standard (auto simp: less_eq_nkey_def less_nkey_def nkey.expand dest: less_trans)

end

definition nkey :: "neighbor \<Rightarrow> nkey" where
  "nkey n = NKey (ip n) (port n)"

lemma nkey_eq_iff: "nkey a = nkey b \<longleftrightarrow> ip a = ip b \<and> port a = port b"
  by (simp add: nkey_def)

lemma nkey_msg [simp]: "nkey (n\<lparr>msg := p\<rparr>) = nkey n"
  by (simp add: nkey_def)

text \<open>A well-formed neighbour has the 16 address bytes of the C array.\<close>

definition wf_neighbor :: "neighbor \<Rightarrow> bool" where
  "wf_neighbor n \<longleftrightarrow> length (ip n) = 16"

lemma wf_neighbor_msg [simp]: "wf_neighbor (n\<lparr>msg := p\<rparr>) = wf_neighbor n"
  by (simp add: wf_neighbor_def)

section \<open>The world of the library calls\<close>

text \<open>\<open>struct sockaddr_in6\<close>; \<open>sin6_port\<close> in network byte order.\<close>

record sockaddr_in6 =
  sin6_family :: nat
  sin6_port :: u16
  sin6_flowinfo :: u32
  sin6_addr :: "u8 list"
  sin6_scope_id :: u32

record world =
  next_addr :: addr
  alloc_ok :: "nat \<Rightarrow> bool"
  clock :: "nat \<Rightarrow> int"
  ticks :: nat
  rnd :: "nat \<Rightarrow> int"
  rnds :: nat
  send_rc :: "nat \<Rightarrow> int"
  junk :: "nat \<Rightarrow> u8"
  msgs :: "addr \<Rightarrow> message_h option"
  sent :: "(sockaddr_in6 \<times> u8 list) list"
  tty :: "u8 list list"
  gui :: "u8 list list"

text \<open>
  \<open>malloc\<close> and \<open>calloc\<close> return a fresh address or the null pointer; the object itself is
  stored by the caller.
\<close>

definition malloc :: "'z world_scheme \<Rightarrow> ptr \<times> 'z world_scheme" where
  "malloc w = ((if alloc_ok w (next_addr w) then Some (next_addr w) else None),
               w\<lparr>next_addr := Suc (next_addr w)\<rparr>)"

text \<open>A local \<open>struct message_h\<close> starts with whatever the stack holds.\<close>

definition fresh_body :: "'z world_scheme \<Rightarrow> u8 list" where
  "fresh_body w = map (junk w) [0..<MAX_SIZE]"

lemma length_fresh_body [simp]: "length (fresh_body w) = MAX_SIZE"
  by (simp add: fresh_body_def)

text \<open>\<open>rand()\<close>, and \<open>random_on_octets\<close> of \<open>net_lib.c\<close>, which fills bytes with it.\<close>

definition rand :: "'z world_scheme \<Rightarrow> int \<times> 'z world_scheme" where
  "rand w = (rnd w (rnds w), w\<lparr>rnds := Suc (rnds w)\<rparr>)"

fun random_on_octets :: "nat \<Rightarrow> 'z world_scheme \<Rightarrow> u8 list \<times> 'z world_scheme" where
  "random_on_octets 0 w = ([], w)"
| "random_on_octets (Suc n) w =
     (let (r, w1) = rand w; (bs, w2) = random_on_octets n w1 in (word_of_int r # bs, w2))"

lemma length_random_on_octets: "random_on_octets n w = (bs, w') \<Longrightarrow> length bs = n"
  by (induction n arbitrary: w bs w') (auto split: prod.splits simp: Let_def)

text \<open>\<open>random_on_octets\<close> only consumes random numbers.\<close>

lemma random_on_octets_world:
  "random_on_octets n w = (bs, w') \<Longrightarrow> w' = w\<lparr>rnds := rnds w + n\<rparr>"
proof (induction n arbitrary: w bs w')
  case (Suc n)
  obtain cs where "random_on_octets n (w\<lparr>rnds := Suc (rnds w)\<rparr>) = (cs, w')"
    using Suc.prems by (auto split: prod.splits simp: Let_def rand_def)
  from Suc.IH [OF this] show ?case by simp
qed simp

text \<open>\<open>get_seconds\<close> of \<open>util.c\<close>: the monotonic clock's seconds as an \<open>int\<close>.\<close>

definition get_seconds :: "'z world_scheme \<Rightarrow> int \<times> 'z world_scheme" where
  "get_seconds w = (to_int (clock w (ticks w)), w\<lparr>ticks := Suc (ticks w)\<rparr>)"

text \<open>
  The documented behaviour of a monotonic clock, for runs of less than \<open>2\<^sup>3\<^sup>1\<close> seconds.
\<close>

definition clock_ok :: "'z world_scheme \<Rightarrow> bool" where
  "clock_ok w \<longleftrightarrow> (\<forall>n. 0 \<le> clock w n \<and> clock w n < 2 ^ 31 - 64) \<and> (\<forall>m n. m \<le> n \<longrightarrow> clock w m \<le> clock w n)"

definition rand_ok :: "'z world_scheme \<Rightarrow> bool" where
  "rand_ok w \<longleftrightarrow> (\<forall>n. 0 \<le> rnd w n)"

definition malloc_ok :: "'z world_scheme \<Rightarrow> bool" where
  "malloc_ok w \<longleftrightarrow> (\<forall>n. alloc_ok w n)"

lemma to_int_small: "- (2 ^ 31) \<le> i \<Longrightarrow> i < 2 ^ 31 \<Longrightarrow> to_int i = i"
  by (simp add: to_int_def sint_sbintrunc' signed_take_bit_int_eq_self)

lemma to_short_small: "- 32768 \<le> i \<Longrightarrow> i < 32768 \<Longrightarrow> to_short i = i"
  by (simp add: to_short_def sint_sbintrunc' signed_take_bit_int_eq_self)

lemma get_seconds_clock: "clock_ok w \<Longrightarrow> fst (get_seconds w) = clock w (ticks w)"
proof -
  assume "clock_ok w"
  then have "0 \<le> clock w (ticks w) \<and> clock w (ticks w) < 2 ^ 31 - 64"
    unfolding clock_ok_def by blast
  then show ?thesis by (simp add: get_seconds_def to_int_small)
qed

end
