(* ===== verification/GenList.thy ===== *)
theory GenList
  imports Machine
begin

text \<open>
  \<open>genlist.c\<close>: the generic linked list.  This theory models a \<open>struct list\<close> by its stored
  \<open>length\<close> field and the chain of its entries, each with the address \<open>calloc\<close> gave it and
  its content; theory \<open>GenList_Heap\<close> models the same functions on the pointers themselves
  and proves that they do what is defined here.  The comparison function, a field of the C
  structure that \<open>init_list\<close> sets once per list, is the argument \<open>cmp\<close>; it returns \<open>None\<close>
  when it would dereference a freed or null pointer.
\<close>

section \<open>State and operations\<close>

record 'a clist =
  list_length :: size_t
  nodes :: "(addr \<times> 'a) list"

definition init_list :: "'a clist" where
  "init_list = \<lparr>list_length = 0, nodes = []\<rparr>"

definition contents :: "'a clist \<Rightarrow> 'a list" where
  "contents l = map snd (nodes l)"

definition addLast :: "'a clist \<Rightarrow> 'a \<Rightarrow> 'z world_scheme \<Rightarrow> int \<times> 'a clist \<times> 'z world_scheme" where
  "addLast l x w =
     (case malloc w of
        (None, w1) \<Rightarrow> (0, l, w1)
      | (Some p, w1) \<Rightarrow>
          (1, l\<lparr>list_length := list_length l + 1, nodes := nodes l @ [(p, x)]\<rparr>, w1))"

text \<open>
  The loop of \<open>add_elem\<close>: the test the function makes on the first entry is the one it makes
  on each following entry, and running off the end is the final \<open>addLast\<close>.
\<close>

fun add_loop :: "('a \<Rightarrow> 'a \<Rightarrow> int option) \<Rightarrow> (addr \<times> 'a) list \<Rightarrow> 'a \<Rightarrow> 'z world_scheme
    \<Rightarrow> (int \<times> (addr \<times> 'a) list \<times> 'z world_scheme) option" where
  "add_loop cmp [] x w =
     (case malloc w of
        (None, w1) \<Rightarrow> Some (0, [], w1)
      | (Some p, w1) \<Rightarrow> Some (1, [(p, x)], w1))"
| "add_loop cmp ((a, c) # ns) x w =
     do { dif \<leftarrow> cmp c x;
          if dif > 0 then
            (case malloc w of
               (None, w1) \<Rightarrow> Some (0, (a, c) # ns, w1)
             | (Some p, w1) \<Rightarrow> Some (1, (p, x) # (a, c) # ns, w1))
          else if dif = 0 then Some (2, (a, c) # ns, w)
          else do { (r, ns', w1) \<leftarrow> add_loop cmp ns x w; Some (r, (a, c) # ns', w1) } }"

definition add_elem :: "('a \<Rightarrow> 'a \<Rightarrow> int option) \<Rightarrow> 'a clist \<Rightarrow> 'a \<Rightarrow> 'z world_scheme
    \<Rightarrow> (int \<times> 'a clist \<times> 'z world_scheme) option" where
  "add_elem cmp l x w =
     do { (r, ns, w1) \<leftarrow> add_loop cmp (nodes l) x w;
          Some (r, l\<lparr>list_length := (if r = 1 then list_length l + 1 else list_length l), nodes := ns\<rparr>, w1) }"

definition remove_first :: "'a clist \<Rightarrow> 'a option \<times> 'a clist" where
  "remove_first l =
     (case nodes l of
        [] \<Rightarrow> (None, l)
      | (a, c) # ns \<Rightarrow> (Some c, l\<lparr>list_length := list_length l - 1, nodes := ns\<rparr>))"

text \<open>
  The loop of \<open>remove_elem\<close> over the entries after the first.  The boolean says that the
  entry found was the last of the chain: only then does the code decrement \<open>length\<close>.
\<close>

fun remove_loop :: "('a \<Rightarrow> 'b \<Rightarrow> int option) \<Rightarrow> (addr \<times> 'a) list \<Rightarrow> 'b
    \<Rightarrow> ('a option \<times> (addr \<times> 'a) list \<times> bool) option" where
  "remove_loop cmp [] e = Some (None, [], False)"
| "remove_loop cmp ((a, c) # ns) e =
     do { d \<leftarrow> cmp c e;
          if d = 0 then Some (Some c, ns, ns = [])
          else do { (r, ns', dec) \<leftarrow> remove_loop cmp ns e; Some (r, (a, c) # ns', dec) } }"

definition remove_elem :: "('a \<Rightarrow> 'b \<Rightarrow> int option) \<Rightarrow> 'a clist \<Rightarrow> 'b \<Rightarrow> ('a option \<times> 'a clist) option" where
  "remove_elem cmp l e =
     (case nodes l of
        [] \<Rightarrow> Some (None, l)
      | (a, c) # ns \<Rightarrow>
          do { d \<leftarrow> cmp c e;
               if d = 0 then Some (remove_first l)
               else do { (r, ns', dec) \<leftarrow> remove_loop cmp ns e;
                         Some (r, l\<lparr>list_length := (if dec then list_length l - 1 else list_length l),
                                    nodes := (a, c) # ns'\<rparr>) } })"

definition add_limited :: "'a clist \<Rightarrow> 'a \<Rightarrow> int \<Rightarrow> 'z world_scheme
    \<Rightarrow> 'a option \<times> 'a clist \<times> 'z world_scheme" where
  "add_limited l x max_t w =
     (let (r, l1, w1) = addLast l x w in
      if list_length l1 > size_of_int max_t
      then (let (c, l2) = remove_first l1 in (c, l2, w1))
      else (None, l1, w1))"

fun get_loop :: "('a \<Rightarrow> 'b \<Rightarrow> int option) \<Rightarrow> (addr \<times> 'a) list \<Rightarrow> 'b \<Rightarrow> 'a option option" where
  "get_loop cmp [] e = Some None"
| "get_loop cmp ((a, c) # ns) e =
     do { d \<leftarrow> cmp c e; if d = 0 then Some (Some c) else get_loop cmp ns e }"

definition get :: "('a \<Rightarrow> 'b \<Rightarrow> int option) \<Rightarrow> 'a clist \<Rightarrow> 'b \<Rightarrow> 'a option option" where
  "get cmp l e = get_loop cmp (nodes l) e"

text \<open>
  \<open>free_list\<close> empties the list with \<open>remove_first\<close>; the first component is the contents
  handed to \<open>free_f\<close>, in order.  (The C loop also ends at a null content; the only list the
  program frees holds \<open>ngb_entry\<close> pointers, which are added only when not null.)
\<close>

function free_list :: "'a clist \<Rightarrow> 'a list \<times> 'a clist" where
  "free_list l =
     (case remove_first l of
        (None, l1) \<Rightarrow> ([], l1)
      | (Some c, l1) \<Rightarrow> (let (cs, l2) = free_list l1 in (c # cs, l2)))"
  by pat_completeness auto
termination
  by (relation "measure (\<lambda>l. length (nodes l))")
     (auto simp: remove_first_def split: list.splits prod.splits)

declare free_list.simps [simp del]

text \<open>The successor of an entry: \<open>ent->next\<close> for the entry at an address of the chain.\<close>

fun next_of :: "addr \<Rightarrow> (addr \<times> 'a) list \<Rightarrow> ptr" where
  "next_of a [] = None"
| "next_of a ((b, c) # ns) = (if a = b then (case ns of [] \<Rightarrow> None | (d, _) # _ \<Rightarrow> Some d) else next_of a ns)"

section \<open>Laws\<close>

definition wf_clist :: "'a clist \<Rightarrow> bool" where
  "wf_clist l \<longleftrightarrow> list_length l = of_nat (length (nodes l))"

lemma wf_init_list [simp]: "wf_clist init_list"
  by (simp add: wf_clist_def init_list_def)

lemma contents_init [simp]: "contents init_list = []"
  by (simp add: contents_def init_list_def)

lemma addLast_cases:
  assumes "addLast l x w = (r, l', w')"
  obtains (full) "r = 0" "l' = l" "malloc w = (None, w')"
  | (ok) p where "r = 1" "malloc w = (Some p, w')" "nodes l' = nodes l @ [(p, x)]"
      "list_length l' = list_length l + 1"
  using assms by (auto simp: addLast_def split: prod.splits option.splits)

lemma remove_first_wf: "wf_clist l \<Longrightarrow> remove_first l = (c, l') \<Longrightarrow> wf_clist l'"
  by (auto simp: remove_first_def wf_clist_def split: list.splits)

lemma addLast_wf: "wf_clist l \<Longrightarrow> addLast l x w = (r, l', w') \<Longrightarrow> wf_clist l'"
  by (erule addLast_cases) (auto simp: wf_clist_def)

lemma remove_first_contents:
  "remove_first l = (c, l') \<Longrightarrow> contents l = (case c of None \<Rightarrow> [] | Some x \<Rightarrow> x # contents l')"
  by (auto simp: remove_first_def contents_def split: list.splits)

lemma free_list_all:
  "free_list l = (cs, l') \<Longrightarrow>
     cs = contents l \<and> nodes l' = [] \<and> list_length l' = list_length l - of_nat (length (nodes l))"
proof (induction l arbitrary: cs l' rule: free_list.induct)
  case (1 l)
  show ?case
  proof (cases "nodes l")
    case Nil
    with "1.prems" show ?thesis
      by (subst (asm) free_list.simps) (auto simp: remove_first_def contents_def)
  next
    case (Cons n ns)
    obtain a c where n: "n = (a, c)" by (cases n)
    have rf: "remove_first l = (Some c, l\<lparr>list_length := list_length l - 1, nodes := ns\<rparr>)"
      by (simp add: remove_first_def Cons n)
    from "1.prems" obtain cs' where
      rec: "free_list (l\<lparr>list_length := list_length l - 1, nodes := ns\<rparr>) = (cs', l')" and "cs = c # cs'"
      by (subst (asm) free_list.simps) (auto simp: rf Let_def split: prod.splits)
    with "1.IH" [OF rf [symmetric] refl rec] Cons n show ?thesis
      by (simp add: contents_def algebra_simps)
  qed
qed

subsection \<open>Removal\<close>

text \<open>What \<open>remove_elem\<close> does with the chain: the first entry that compares equal goes.\<close>

fun del_first :: "('a \<Rightarrow> bool) \<Rightarrow> 'a list \<Rightarrow> 'a list" where
  "del_first P [] = []"
| "del_first P (x # xs) = (if P x then xs else x # del_first P xs)"

lemma del_first_none: "\<forall>x\<in>set xs. \<not> P x \<Longrightarrow> del_first P xs = xs"
  by (induction xs) auto

lemma del_first_split:
  "\<forall>x\<in>set xs. \<not> P x \<Longrightarrow> P y \<Longrightarrow> del_first P (xs @ y # ys) = xs @ ys"
  by (induction xs) auto

lemma set_del_first: "set (del_first P xs) \<subseteq> set xs"
  by (induction xs) auto

lemma mset_distinct_del_first: "distinct (map f xs) \<Longrightarrow> distinct (map f (del_first P xs))"
  using set_del_first by (induction xs) fastforce+

lemma sorted_wrt_del_first: "sorted_wrt R xs \<Longrightarrow> sorted_wrt R (del_first P xs)"
proof (induction xs)
  case (Cons x xs)
  then show ?case using set_del_first [of P xs] by auto
qed simp

lemma remove_loop_total:
  assumes "\<And>a c. (a, c) \<in> set ns \<Longrightarrow> cmp c e = Some (f c)"
  shows "\<exists>dec. remove_loop cmp ns e =
    Some (map_option snd (find (\<lambda>(a, c). f c = 0) ns), del_first (\<lambda>(a, c). f c = 0) ns, dec)"
  using assms
proof (induction ns)
  case (Cons n ns)
  obtain a c where n: "n = (a, c)" by (cases n)
  from Cons obtain dec where
    "remove_loop cmp ns e =
      Some (map_option snd (find (\<lambda>(a, c). f c = 0) ns), del_first (\<lambda>(a, c). f c = 0) ns, dec)"
    by (metis list.set_intros(2))
  moreover have "cmp c e = Some (f c)" using Cons.prems [of a c] n by simp
  ultimately show ?case by (simp add: n)
qed (auto intro: exI [of _ False])

lemma remove_elem_total:
  assumes "\<And>a c. (a, c) \<in> set (nodes l) \<Longrightarrow> cmp c e = Some (f c)"
  shows "\<exists>l'. remove_elem cmp l e = Some (map_option snd (find (\<lambda>(a, c). f c = 0) (nodes l)), l') \<and>
    nodes l' = del_first (\<lambda>(a, c). f c = 0) (nodes l)"
proof (cases "nodes l")
  case Nil
  then show ?thesis by (simp add: remove_elem_def)
next
  case (Cons n ns)
  obtain a c where n: "n = (a, c)" by (cases n)
  obtain dec where "remove_loop cmp ns e =
      Some (map_option snd (find (\<lambda>(a, c). f c = 0) ns), del_first (\<lambda>(a, c). f c = 0) ns, dec)"
    using remove_loop_total [of ns cmp e f] assms Cons by auto
  moreover have "cmp c e = Some (f c)" using assms [of a c] Cons n by simp
  ultimately show ?thesis using Cons by (simp add: remove_elem_def remove_first_def n)
qed

text \<open>
  The stored length after a removal: right at both ends of the chain, one too many for an
  entry in the middle, which is unlinked without touching \<open>length\<close>.
\<close>

lemma remove_loop_interior:
  assumes "\<And>a c. (a, c) \<in> set ns1 \<Longrightarrow> \<exists>d. cmp c e = Some d \<and> d \<noteq> 0" and "cmp c e = Some 0"
  shows "remove_loop cmp (ns1 @ (a, c) # ns2) e = Some (Some c, ns1 @ ns2, ns2 = [])"
  using assms
proof (induction ns1)
  case (Cons n ns1)
  obtain b d where n: "n = (b, d)" by (cases n)
  obtain k where k: "cmp d e = Some k" "k \<noteq> 0" using Cons.prems(1) n by auto
  have "remove_loop cmp (ns1 @ (a, c) # ns2) e = Some (Some c, ns1 @ ns2, ns2 = [])"
    using Cons by auto
  with k show ?case by (simp add: n)
qed simp

subsection \<open>Ordered insertion\<close>

lemma add_loop_total:
  assumes "\<And>a c. (a, c) \<in> set ns \<Longrightarrow> cmp c x = Some (f c)"
  shows "add_loop cmp ns x w =
    (let pre = takeWhile (\<lambda>(a, c). f c < 0) ns; post = dropWhile (\<lambda>(a, c). f c < 0) ns in
     if post \<noteq> [] \<and> f (snd (hd post)) = 0 then Some (2, ns, w)
     else (case malloc w of
             (None, w1) \<Rightarrow> Some (0, ns, w1)
           | (Some p, w1) \<Rightarrow> Some (1, pre @ (p, x) # post, w1)))"
  using assms
proof (induction ns)
  case Nil
  then show ?case by (simp split: prod.splits option.splits)
next
  case (Cons n ns)
  obtain a c where n: "n = (a, c)" by (cases n)
  have c: "cmp c x = Some (f c)" using Cons.prems [of a c] n by simp
  have IH: "add_loop cmp ns x w =
    (let pre = takeWhile (\<lambda>(a, c). f c < 0) ns; post = dropWhile (\<lambda>(a, c). f c < 0) ns in
     if post \<noteq> [] \<and> f (snd (hd post)) = 0 then Some (2, ns, w)
     else (case malloc w of
             (None, w1) \<Rightarrow> Some (0, ns, w1)
           | (Some p, w1) \<Rightarrow> Some (1, pre @ (p, x) # post, w1)))"
    using Cons by auto
  show ?case
  proof (cases "f c < 0")
    case True
    then show ?thesis
      by (simp add: n c IH Let_def split: prod.splits option.splits)
  next
    case False
    then show ?thesis
      by (simp add: n c split: prod.splits option.splits)
  qed
qed

lemma add_elem_None: "add_elem cmp l x w = None \<longleftrightarrow> add_loop cmp (nodes l) x w = None"
  by (cases "add_loop cmp (nodes l) x w") (auto simp: add_elem_def)

section \<open>The interface: a queue with a count\<close>

text \<open>
  What the clients of the list rely on when they use it as a bounded queue: \<open>enq\<close> appends
  or reports 0 and changes nothing, \<open>deq\<close> takes the oldest item, and as long as nothing but
  these two touched the queue its count is the number of items.
\<close>

locale fifo =
  fixes enq :: "'q \<Rightarrow> 'a \<Rightarrow> 'w \<Rightarrow> int \<times> 'q \<times> 'w"
    and deq :: "'q \<Rightarrow> 'a option \<times> 'q"
    and count :: "'q \<Rightarrow> size_t"
    and items :: "'q \<Rightarrow> 'a list"
    and ok :: "'q \<Rightarrow> bool"
  assumes enq_items: "enq q x w = (r, q', w') \<Longrightarrow> items q' = (if r = 0 then items q else items q @ [x])"
    and enq_ok: "ok q \<Longrightarrow> enq q x w = (r, q', w') \<Longrightarrow> ok q'"
    and deq_items: "deq q = (c, q') \<Longrightarrow> items q = (case c of None \<Rightarrow> [] | Some y \<Rightarrow> y # items q')"
    and deq_ok: "ok q \<Longrightarrow> deq q = (c, q') \<Longrightarrow> ok q'"
    and count_items: "ok q \<Longrightarrow> count q = of_nat (length (items q))"
begin

lemma count_gt:
  assumes "ok q" "length (items q) \<le> Suc n" "n < 2 ^ 31"
  shows "count q > of_nat n \<longleftrightarrow> length (items q) = Suc n"
proof -
  have "unat (count q) = length (items q)" "unat (of_nat n :: size_t) = n"
    using assms by (simp_all add: count_items unat_of_nat_size)
  then show ?thesis using assms(2) by (auto simp: word_less_nat_alt)
qed

lemma bounded_push:
  assumes "ok q" "length (items q) \<le> n" "n < 2 ^ 31" "enq q x w = (r, q1, w1)"
  shows "if count q1 > of_nat n
         then \<exists>y q2. deq q1 = (Some y, q2) \<and> ok q2 \<and> length (items q2) = n \<and> items q @ [x] = y # items q2
         else ok q1 \<and> length (items q1) \<le> n \<and> items q1 = (if r = 0 then items q else items q @ [x])"
proof -
  have ok: "ok q1" using assms by (blast intro: enq_ok)
  have it: "items q1 = (if r = 0 then items q else items q @ [x])" by (rule enq_items [OF assms(4)])
  then have len: "length (items q1) \<le> Suc n" using assms(2) by (simp split: if_splits)
  show ?thesis
  proof (cases "count q1 > of_nat n")
    case True
    then have l: "length (items q1) = Suc n" using count_gt [OF ok len assms(3)] by simp
    obtain c q2 where d: "deq q1 = (c, q2)" by fastforce
    from deq_items [OF d] l obtain y where y: "c = Some y" "items q1 = y # items q2"
      by (cases c) auto
    then have "length (items q2) = n" using l by simp
    with y True d deq_ok [OF ok d] it assms(2) show ?thesis by (auto split: if_splits)
  next
    case False
    with ok it len count_gt [OF ok len assms(3)] show ?thesis by auto
  qed
qed

end

interpretation clist_fifo: fifo addLast remove_first list_length contents wf_clist
proof (unfold_locales, goal_cases)
  case (1 q x w r q' w')
  then show ?case by (cases rule: addLast_cases) (auto simp: contents_def)
next
  case (2 q x w r q' w')
  then show ?case by (rule addLast_wf)
next
  case (3 q c q')
  then show ?case by (rule remove_first_contents)
next
  case (4 q c q')
  then show ?case by (rule remove_first_wf)
next
  case (5 q)
  then show ?case by (simp add: wf_clist_def contents_def)
qed

lemma add_limited_cases:
  assumes "wf_clist l" "length (contents l) \<le> n" "n < 2 ^ 31" "add_limited l x (int n) w = (c, l', w')"
  shows "wf_clist l' \<and> length (contents l') \<le> n \<and>
    ((c = None \<and> (contents l' = contents l \<or> contents l' = contents l @ [x])) \<or>
     (\<exists>y. c = Some y \<and> length (contents l') = n \<and> contents l @ [x] = y # contents l'))"
proof -
  obtain r l1 w1 where a: "addLast l x w = (r, l1, w1)" by (metis prod_cases3)
  have sz: "size_of_int (int n) = of_nat n" by simp
  show ?thesis
    using clist_fifo.bounded_push [OF assms(1-3) a] assms(4) a
    by (auto simp: add_limited_def sz split: if_splits prod.splits)
qed

section \<open>Properties\<close>

text \<open>
  C23: a list used as a bounded queue (\<open>DATAF\<close> with its limit of 100 recent data) never grows
  past its limit; \<open>add_limited\<close> appends the new element at the end, and when the list was full
  it drops exactly the oldest element and returns it.  If memory is exhausted nothing changes.
\<close>

theorem add_limited_bounded_fifo:
  assumes "wf_clist l" "length (contents l) \<le> n" "n < 2 ^ 31" "add_limited l x (int n) w = (c, l', w')"
  shows "wf_clist l' \<and> length (contents l') \<le> n \<and> (c \<noteq> None \<longrightarrow> length (contents l) = n) \<and>
    (malloc_ok w \<longrightarrow> contents l @ [x] = (case c of None \<Rightarrow> [] | Some y \<Rightarrow> [y]) @ contents l')"
proof -
  note k = add_limited_cases [OF assms]
  have "contents l @ [x] = (case c of None \<Rightarrow> [] | Some y \<Rightarrow> [y]) @ contents l'" if "malloc_ok w"
  proof -
    from that obtain p w1 where "malloc w = (Some p, w1)" by (simp add: malloc_def malloc_ok_def)
    then have a: "addLast l x w = (1, l\<lparr>list_length := list_length l + 1, nodes := nodes l @ [(p, x)]\<rparr>, w1)"
      by (simp add: addLast_def)
    show ?thesis
      using k assms(4) a
      by (auto simp: add_limited_def contents_def remove_first_def split: if_splits prod.splits list.splits)
  qed
  then show ?thesis using k by (auto dest: arg_cong [of _ _ length])
qed

text \<open>A world for the concrete instances: memory never runs out, the clock stands at 100.\<close>

definition sample_world :: world where
  "sample_world =
     \<lparr>next_addr = 1, alloc_ok = (\<lambda>_. True), clock = (\<lambda>_. 100), ticks = 0, rnd = (\<lambda>n. int n), rnds = 0,
      send_rc = (\<lambda>_. 1), junk = (\<lambda>_. 7), msgs = (\<lambda>_. None), sent = [], tty = [], gui = []\<rparr>"

theorem add_limited_bounded_fifo_witness:
  "contents (fst (snd (add_limited \<lparr>list_length = 2, nodes = [(10, 5), (11, 6)]\<rparr> (7::nat) (int 2) sample_world))) = [6, 7]"
proof -
  have w: "wf_clist \<lparr>list_length = 2, nodes = [(10, 5), (11, 6)]\<rparr>" by (simp add: wf_clist_def)
  have a: "add_limited \<lparr>list_length = 2, nodes = [(10, 5), (11, 6)]\<rparr> (7::nat) (int 2) sample_world =
    (Some 5, \<lparr>list_length = 2, nodes = [(11, 6), (1, 7)]\<rparr>, sample_world\<lparr>next_addr := 2\<rparr>)"
    by (simp add: add_limited_def addLast_def malloc_def sample_world_def remove_first_def)
  have "contents \<lparr>list_length = 2, nodes = [(11, 6), (1, 7::nat)]\<rparr> = [6, 7]"
    using add_limited_bounded_fifo [OF w _ _ a] by (simp add: contents_def malloc_ok_def sample_world_def)
  then show ?thesis by (simp only: a fst_conv snd_conv)
qed

text \<open>
  C38: \<open>remove_elem\<close> unlinks the first matching element, but adjusts \<open>length\<close> only when that
  element is the first or the last of the chain: after removing an interior element the stored
  length is one more than the number of elements, so the list no longer satisfies
  \<open>wf_clist\<close> (\<open>print_list\<close> prints a wrong length, and \<open>add_limited\<close> would drop too early).
\<close>

theorem remove_elem_interior_length:
  assumes "nodes l = (a0, c0) # ns1 @ (a, c) # ns2"
    and "\<forall>x\<in>set ((a0, c0) # ns1). \<exists>d. cmp (snd x) e = Some d \<and> d \<noteq> 0" and "cmp c e = Some 0"
  shows "remove_elem cmp l e =
    Some (Some c, l\<lparr>list_length := (if ns2 = [] then list_length l - 1 else list_length l),
                   nodes := (a0, c0) # ns1 @ ns2\<rparr>)"
proof -
  obtain d where "cmp c0 e = Some d" "d \<noteq> 0" using assms(2) by auto
  moreover have "remove_loop cmp (ns1 @ (a, c) # ns2) e = Some (Some c, ns1 @ ns2, ns2 = [])"
    using assms(2,3) by (intro remove_loop_interior) auto
  ultimately show ?thesis using assms(1) by (simp add: remove_elem_def)
qed

theorem remove_elem_interior_length_witness:
  "\<exists>l'. remove_elem (\<lambda>x y. Some (x - y)) \<lparr>list_length = 3, nodes = [(1, 5), (2, 6), (3, 7)]\<rparr> (6::int) = Some (Some 6, l') \<and>
     wf_clist \<lparr>list_length = 3, nodes = [(1, 5), (2, 6), (3, 7::int)]\<rparr> \<and> \<not> wf_clist l'"
  using remove_elem_interior_length [of "\<lparr>list_length = 3, nodes = [(1, 5), (2, 6), (3, 7)]\<rparr>" 1 5 "[]" 2 6 "[(3, 7)]"
      "\<lambda>x y. Some (x - y)" "6::int"]
  by (simp add: wf_clist_def)

end
