(* ===== verification/GenList_Heap.thy ===== *)
theory GenList_Heap
  imports GenList
begin

text \<open>
  \<open>genlist.c\<close> on its pointers: entries are objects of a heap, the list head holds \<open>first\<close>,
  \<open>last\<close> and \<open>length\<close>, insertions and removals relink \<open>next\<close> fields and free entries.  Each
  operation is proved to refine its counterpart of theory \<open>GenList\<close>: on a heap that
  represents a list it is memory safe, returns the same result and leaves a heap that
  represents the resulting list, and it touches no entry of any other list.
\<close>

section \<open>Entries, heads and the operations\<close>

record 'a list_entry =
  content :: 'a
  "next" :: ptr

record list_head =
  h_length :: size_t
  first :: ptr
  h_last :: ptr

type_synonym 'a lheap = "addr \<Rightarrow> 'a list_entry option"

definition init_entry :: "ptr \<Rightarrow> ptr \<Rightarrow> 'a \<Rightarrow> 'a lheap \<Rightarrow> 'z world_scheme
    \<Rightarrow> (ptr \<times> 'a lheap \<times> 'z world_scheme) option" where
  "init_entry prev nxt elem h w =
     (case malloc w of
        (None, w1) \<Rightarrow> Some (None, h, w1)
      | (Some res, w1) \<Rightarrow>
          do { h1 \<leftarrow> (case prev of
                        None \<Rightarrow> Some h
                      | Some q \<Rightarrow> do { e \<leftarrow> h q; Some (h(q \<mapsto> e\<lparr>next := Some res\<rparr>)) });
               Some (Some res, h1(res \<mapsto> \<lparr>content = elem, next = nxt\<rparr>), w1) })"

definition init_list_p :: list_head where
  "init_list_p = \<lparr>h_length = 0, first = None, h_last = None\<rparr>"

definition addLast_p :: "list_head \<Rightarrow> 'a \<Rightarrow> 'a lheap \<Rightarrow> 'z world_scheme
    \<Rightarrow> (int \<times> list_head \<times> 'a lheap \<times> 'z world_scheme) option" where
  "addLast_p l elem h w =
     (if h_last l = None then
        do { (p, h1, w1) \<leftarrow> init_entry None None elem h w;
             let l1 = l\<lparr>first := p\<rparr> in
             if p = None then Some (0, l1, h1, w1)
             else Some (1, l1\<lparr>h_last := first l1, h_length := h_length l1 + 1\<rparr>, h1, w1) }
      else
        do { (tmp, h1, w1) \<leftarrow> init_entry (h_last l) None elem h w;
             if tmp = None then Some (0, l, h1, w1)
             else Some (1, l\<lparr>h_last := tmp, h_length := h_length l + 1\<rparr>, h1, w1) })"

partial_function (option) add_loop_p :: "('a \<Rightarrow> 'a \<Rightarrow> int option) \<Rightarrow> list_head \<Rightarrow> addr \<Rightarrow> 'a \<Rightarrow> 'a lheap
    \<Rightarrow> 'z world_scheme \<Rightarrow> (int \<times> list_head \<times> 'a lheap \<times> 'z world_scheme) option" where
  "add_loop_p cmp l ent elem h w =
     do { e \<leftarrow> h ent;
          case next e of
            None \<Rightarrow> addLast_p l elem h w
          | Some nx \<Rightarrow>
              do { en \<leftarrow> h nx;
                   dif \<leftarrow> cmp (content en) elem;
                   if dif > 0 then
                     do { (tmp, h1, w1) \<leftarrow> init_entry (Some ent) (Some nx) elem h w;
                          if tmp = None then Some (0, l, h1, w1)
                          else Some (1, l\<lparr>h_length := h_length l + 1\<rparr>, h1, w1) }
                   else if dif = 0 then Some (2, l, h, w)
                   else add_loop_p cmp l nx elem h w } }"

definition add_elem_p :: "('a \<Rightarrow> 'a \<Rightarrow> int option) \<Rightarrow> list_head \<Rightarrow> 'a \<Rightarrow> 'a lheap \<Rightarrow> 'z world_scheme
    \<Rightarrow> (int \<times> list_head \<times> 'a lheap \<times> 'z world_scheme) option" where
  "add_elem_p cmp l elem h w =
     (if h_last l = None then addLast_p l elem h w
      else case first l of
             None \<Rightarrow> None
           | Some f \<Rightarrow>
               do { e \<leftarrow> h f;
                    dif \<leftarrow> cmp (content e) elem;
                    if dif > 0 then
                      do { (tmp, h1, w1) \<leftarrow> init_entry None (first l) elem h w;
                           if tmp = None then Some (0, l, h1, w1)
                           else Some (1, l\<lparr>first := tmp, h_length := h_length l + 1\<rparr>, h1, w1) }
                    else if dif = 0 then Some (2, l, h, w)
                    else add_loop_p cmp l f elem h w })"

definition remove_first_p :: "list_head \<Rightarrow> 'a lheap \<Rightarrow> ('a option \<times> list_head \<times> 'a lheap) option" where
  "remove_first_p l h =
     (case first l of
        None \<Rightarrow> Some (None, l, h)
      | Some a \<Rightarrow>
          do { e \<leftarrow> h a;
               let l1 = (if first l = h_last l then l\<lparr>h_last := None\<rparr> else l) in
               Some (Some (content e), l1\<lparr>first := next e, h_length := h_length l1 - 1\<rparr>, h(a := None)) })"

partial_function (option) remove_loop_p :: "('a \<Rightarrow> 'b \<Rightarrow> int option) \<Rightarrow> list_head \<Rightarrow> addr \<Rightarrow> 'b \<Rightarrow> 'a lheap
    \<Rightarrow> ('a option \<times> list_head \<times> 'a lheap) option" where
  "remove_loop_p cmp l ent elem h =
     do { e \<leftarrow> h ent;
          case next e of
            None \<Rightarrow> Some (None, l, h)
          | Some nx \<Rightarrow>
              do { en \<leftarrow> h nx;
                   d \<leftarrow> cmp (content en) elem;
                   if d = 0 then
                     (let h1 = (h(nx := None))(ent \<mapsto> e\<lparr>next := next en\<rparr>);
                          l1 = (if next en = None
                                then l\<lparr>h_last := Some ent, h_length := h_length l - 1\<rparr> else l) in
                      Some (Some (content en), l1, h1))
                   else remove_loop_p cmp l nx elem h } }"

definition remove_elem_p :: "('a \<Rightarrow> 'b \<Rightarrow> int option) \<Rightarrow> list_head \<Rightarrow> 'b \<Rightarrow> 'a lheap
    \<Rightarrow> ('a option \<times> list_head \<times> 'a lheap) option" where
  "remove_elem_p cmp l elem h =
     (case first l of
        None \<Rightarrow> Some (None, l, h)
      | Some f \<Rightarrow>
          do { e \<leftarrow> h f;
               d \<leftarrow> cmp (content e) elem;
               if d = 0 then remove_first_p l h else remove_loop_p cmp l f elem h })"

partial_function (option) get_loop_p :: "('a \<Rightarrow> 'b \<Rightarrow> int option) \<Rightarrow> ptr \<Rightarrow> 'b \<Rightarrow> 'a lheap \<Rightarrow> 'a option option" where
  "get_loop_p cmp ent elem h =
     (case ent of
        None \<Rightarrow> Some None
      | Some a \<Rightarrow>
          do { e \<leftarrow> h a;
               d \<leftarrow> cmp (content e) elem;
               if d = 0 then Some (Some (content e)) else get_loop_p cmp (next e) elem h })"

definition get_p :: "('a \<Rightarrow> 'b \<Rightarrow> int option) \<Rightarrow> list_head \<Rightarrow> 'b \<Rightarrow> 'a lheap \<Rightarrow> 'a option option" where
  "get_p cmp l elem h = get_loop_p cmp (first l) elem h"

definition add_limited_p :: "list_head \<Rightarrow> 'a \<Rightarrow> int \<Rightarrow> 'a lheap \<Rightarrow> 'z world_scheme
    \<Rightarrow> ('a option \<times> list_head \<times> 'a lheap \<times> 'z world_scheme) option" where
  "add_limited_p l elem max_t h w =
     do { (r, l1, h1, w1) \<leftarrow> addLast_p l elem h w;
          if h_length l1 > size_of_int max_t
          then do { (c, l2, h2) \<leftarrow> remove_first_p l1 h1; Some (c, l2, h2, w1) }
          else Some (None, l1, h1, w1) }"

section \<open>Representation\<close>

text \<open>\<open>seg h p ns q\<close>: following \<open>next\<close> from \<open>p\<close> runs through the entries \<open>ns\<close> to \<open>q\<close>.\<close>

fun seg :: "'a lheap \<Rightarrow> ptr \<Rightarrow> (addr \<times> 'a) list \<Rightarrow> ptr \<Rightarrow> bool" where
  "seg h p [] q \<longleftrightarrow> p = q"
| "seg h p ((a, c) # ns) q \<longleftrightarrow>
     p = Some a \<and> (\<exists>r. h a = Some \<lparr>content = c, next = r\<rparr> \<and> seg h r ns q)"

abbreviation addrs :: "'a clist \<Rightarrow> addr set" where
  "addrs c \<equiv> fst ` set (nodes c)"

definition rep :: "'a lheap \<Rightarrow> list_head \<Rightarrow> 'a clist \<Rightarrow> bool" where
  "rep h l c \<longleftrightarrow>
     seg h (first l) (nodes c) None \<and> distinct (map fst (nodes c)) \<and>
     h_last l = (if nodes c = [] then None else Some (fst (last (nodes c)))) \<and>
     h_length l = list_length c"

definition fresh :: "'a lheap \<Rightarrow> 'z world_scheme \<Rightarrow> bool" where
  "fresh h w \<longleftrightarrow> (\<forall>a. h a \<noteq> None \<longrightarrow> a < next_addr w)"

text \<open>Entries that belong to neither list are untouched.\<close>

definition only_touches :: "addr set \<Rightarrow> 'a lheap \<Rightarrow> 'a lheap \<Rightarrow> bool" where
  "only_touches A h h' \<longleftrightarrow> (\<forall>a. a \<notin> A \<longrightarrow> h' a = h a)"

lemma seg_append: "seg h p (ns @ ms) q \<longleftrightarrow> (\<exists>r. seg h p ns r \<and> seg h r ms q)"
  by (induction ns arbitrary: p) (simp, fastforce)

lemma seg_cong: "(\<And>a. a \<in> fst ` set ns \<Longrightarrow> h' a = h a) \<Longrightarrow> seg h' p ns q = seg h p ns q"
  by (induction ns arbitrary: p) auto

lemma seg_upd [simp]: "a \<notin> fst ` set ns \<Longrightarrow> seg (h(a := v)) p ns q = seg h p ns q"
  by (rule seg_cong) auto

lemma seg_alive: "seg h p ns q \<Longrightarrow> a \<in> fst ` set ns \<Longrightarrow> h a \<noteq> None"
proof (induction ns arbitrary: p)
  case (Cons n ns)
  obtain b c where n: "n = (b, c)" by (cases n)
  then obtain r where "h b \<noteq> None" and "seg h r ns q" using Cons.prems(1) by auto
  moreover have "a = b \<or> a \<in> fst ` set ns" using Cons.prems(2) n by auto
  ultimately show ?case using Cons.IH [of r] by blast
qed simp

lemma seg_first: "seg h p ns None \<Longrightarrow> p = (if ns = [] then None else Some (fst (hd ns)))"
  by (cases ns) auto

text \<open>Linking a new entry, or unlinking one, after the end of a segment.\<close>

lemma seg_relink:
  assumes "seg h p (ns @ [(a, c)]) q" "distinct (map fst (ns @ [(a, c)]))"
  shows "seg (h(a \<mapsto> \<lparr>content = c, next = r\<rparr>)) p (ns @ [(a, c)]) r"
  using assms by (auto simp: seg_append)

lemma rep_malloc_fresh:
  assumes "fresh h w" "malloc w = (Some p, w1)"
  shows "h p = None" "fresh (h(p \<mapsto> e)) w1" "a \<in> fst ` set ns \<Longrightarrow> seg h q ns r \<Longrightarrow> a \<noteq> p"
proof -
  have p: "p = next_addr w" and w1: "next_addr w1 = Suc p"
    using assms(2) by (auto simp: malloc_def split: if_splits)
  show hp: "h p = None" using assms(1) p by (auto simp: fresh_def)
  show "fresh (h(p \<mapsto> e)) w1"
    using assms(1) by (auto simp: fresh_def w1 p less_Suc_eq)
  show "a \<in> fst ` set ns \<Longrightarrow> seg h q ns r \<Longrightarrow> a \<noteq> p"
    using seg_alive hp by metis
qed

lemma malloc_none_fresh: "fresh h w \<Longrightarrow> malloc w = (None, w1) \<Longrightarrow> fresh h w1"
  by (force simp: fresh_def malloc_def split: if_splits)

section \<open>Refinement\<close>

text \<open>Insertion after an entry: the step that \<open>init_entry\<close> performs with a non-null \<open>prev\<close>.\<close>

lemma init_entry_after:
  assumes "seg h p (pre @ [(ent, c)]) nx" "distinct (map fst (pre @ [(ent, c)] @ post))"
    and "seg h nx post None" "fresh h w" "malloc w = (Some q, w1)"
  obtains h1 where "init_entry (Some ent) nx x h w = Some (Some q, h1, w1)"
    and "seg h1 p (pre @ [(ent, c)] @ (q, x) # post) None"
    and "fresh h1 w1" "only_touches {ent, q} h h1" "q \<notin> fst ` set (pre @ [(ent, c)] @ post)"
proof -
  have ent: "h ent = Some \<lparr>content = c, next = nx\<rparr>"
    using assms(1) by (auto simp: seg_append)
  let ?h0 = "h(ent \<mapsto> \<lparr>content = c, next = Some q\<rparr>)"
  let ?h1 = "?h0(q \<mapsto> \<lparr>content = x, next = nx\<rparr>)"
  have q: "q \<notin> fst ` set (pre @ [(ent, c)] @ post)"
    using rep_malloc_fresh(3) [OF assms(4,5) _ assms(1)] rep_malloc_fresh(3) [OF assms(4,5) _ assms(3)]
    by (metis UnE image_Un set_append append_assoc)
  have "seg ?h0 p (pre @ [(ent, c)]) (Some q)"
    using seg_relink [OF assms(1)] assms(2) by simp
  then have s1: "seg ?h1 p (pre @ [(ent, c)]) (Some q)"
    using q by (subst seg_upd) auto
  have "ent \<notin> fst ` set post" using assms(2) by auto
  then have "seg ?h0 nx post None" using assms(3) by simp
  then have s2: "seg ?h1 nx post None" using q by (subst seg_upd) auto
  have "seg ?h1 p ((pre @ [(ent, c)]) @ (q, x) # post) None"
    using s1 s2 by (subst seg_append) fastforce
  moreover have "fresh ?h0 w" using assms(4) ent by (auto simp: fresh_def)
  then have "fresh ?h1 w1" by (rule rep_malloc_fresh(2) [OF _ assms(5)])
  moreover have "init_entry (Some ent) nx x h w = Some (Some q, ?h1, w1)"
    by (simp add: init_entry_def assms(5) ent)
  ultimately show thesis using that [of ?h1] q by (simp add: only_touches_def)
qed

theorem addLast_refines:
  assumes "rep h l c" "fresh h w" "addLast c x w = (r, c', w')"
  shows "\<exists>l' h'. addLast_p l x h w = Some (r, l', h', w') \<and> rep h' l' c' \<and> fresh h' w' \<and>
    only_touches (addrs c \<union> addrs c') h h'"
  using assms(3)
proof (cases rule: addLast_cases)
  case full
  then show ?thesis using assms(1,2)
    by (cases "h_last l = None")
       (auto simp: addLast_p_def init_entry_def rep_def only_touches_def malloc_none_fresh
          dest: seg_first split: if_splits)
next
  case (ok q)
  show ?thesis
  proof (cases "nodes c = []")
    case True
    then show ?thesis using assms(1,2) ok rep_malloc_fresh(2) [OF assms(2) ok(2)]
      by (auto simp: addLast_p_def init_entry_def rep_def only_touches_def)
  next
    case False
    then obtain pre ent d where n: "nodes c = pre @ [(ent, d)]"
      by (metis append_butlast_last_id surj_pair)
    have s: "seg h (first l) (pre @ [(ent, d)]) None" and dist: "distinct (map fst (pre @ [(ent, d)] @ []))"
      and lst: "h_last l = Some ent" and len: "h_length l = list_length c"
      using assms(1) n by (auto simp: rep_def)
    from init_entry_after [OF s dist _ assms(2) ok(2), of x]
    obtain h1 where h1: "init_entry (Some ent) None x h w = Some (Some q, h1, w')"
      "seg h1 (first l) (pre @ [(ent, d)] @ [(q, x)]) None" "fresh h1 w'" "only_touches {ent, q} h h1"
      "q \<notin> fst ` set (pre @ [(ent, d)] @ [])"
      by auto
    then show ?thesis using ok n lst len dist
      by (auto simp: addLast_p_def rep_def only_touches_def)
  qed
qed

lemma rep_split:
  assumes "rep h l c" "nodes c = pre @ (ent, d) # ns"
  obtains nx where "seg h (first l) (pre @ [(ent, d)]) nx" "seg h nx ns None"
    "h ent = Some \<lparr>content = d, next = nx\<rparr>" "nx = (if ns = [] then None else Some (fst (hd ns)))"
proof -
  have "seg h (first l) (pre @ (ent, d) # ns) None" using assms by (simp add: rep_def)
  then obtain nx where "seg h (first l) pre (Some ent)" "h ent = Some \<lparr>content = d, next = nx\<rparr>"
    "seg h nx ns None" by (auto simp: seg_append)
  moreover from this have "seg h (first l) (pre @ [(ent, d)]) nx" by (auto simp: seg_append)
  ultimately show thesis using that seg_first by metis
qed

lemma add_loop_refines:
  assumes "rep h l c" "fresh h w" "nodes c = pre @ (ent, d) # ns"
    and "add_loop cmp ns x w = Some (r, ns', w')"
    and "c' = c\<lparr>list_length := (if r = 1 then list_length c + 1 else list_length c), nodes := pre @ (ent, d) # ns'\<rparr>"
  shows "\<exists>l' h'. add_loop_p cmp l ent x h w = Some (r, l', h', w') \<and> rep h' l' c' \<and> fresh h' w' \<and>
    only_touches (addrs c \<union> addrs c') h h'"
  using assms(3,4,5)
proof (induction ns arbitrary: pre ent d ns' c')
  case Nil
  obtain nx where nx: "h ent = Some \<lparr>content = d, next = nx\<rparr>" "nx = None"
    by (rule rep_split [OF assms(1) Nil(1)]) auto
  have "addLast c x w = (r, c', w')"
    using Nil by (auto simp: addLast_def split: prod.splits option.splits)
  from addLast_refines [OF assms(1,2) this] show ?case
    by (subst add_loop_p.simps) (simp add: nx)
next
  case (Cons n ns)
  obtain a b where n: "n = (a, b)" by (cases n)
  obtain nx where nx: "seg h (first l) (pre @ [(ent, d)]) nx" "seg h nx (n # ns) None"
    "h ent = Some \<lparr>content = d, next = nx\<rparr>" "nx = Some a"
    by (rule rep_split [OF assms(1) Cons.prems(1)]) (auto simp: n)
  obtain rr where ha: "h a = Some \<lparr>content = b, next = rr\<rparr>" using nx n by auto
  obtain dif where dif: "cmp b x = Some dif"
    using Cons.prems(2) by (auto simp: n bind_Some_iff)
  have dist: "distinct (map fst (pre @ [(ent, d)] @ n # ns))"
    using assms(1) Cons.prems(1) by (simp add: rep_def)
  consider "dif > 0" "malloc w = (None, w')" "r = 0" "ns' = n # ns"
    | q where "dif > 0" "malloc w = (Some q, w')" "r = 1" "ns' = (q, x) # n # ns"
    | "dif = 0" "r = 2" "ns' = n # ns" "w' = w"
    | ms where "dif < 0" "add_loop cmp ns x w = Some (r, ms, w')" "ns' = n # ms"
    using Cons.prems(2) by (auto simp: n dif bind_Some_iff split: if_splits prod.splits option.splits)
  then show ?case
  proof cases
    case 1
    with assms(1,2) Cons.prems show ?thesis
      by (subst add_loop_p.simps)
         (simp add: nx ha dif init_entry_def malloc_none_fresh rep_def only_touches_def)
  next
    case (2 q)
    from init_entry_after [OF nx(1) dist nx(2) assms(2) 2(2), of x]
    obtain h1 where h1: "init_entry (Some ent) nx x h w = Some (Some q, h1, w')"
      "seg h1 (first l) (pre @ [(ent, d)] @ (q, x) # n # ns) None" "fresh h1 w'"
      "only_touches {ent, q} h h1" "q \<notin> fst ` set (pre @ [(ent, d)] @ n # ns)"
      by auto
    have "rep h1 (l\<lparr>h_length := h_length l + 1\<rparr>) c'"
      using h1 2 Cons.prems assms(1) dist by (auto simp: rep_def)
    moreover have "add_loop_p cmp l ent x h w = Some (r, l\<lparr>h_length := h_length l + 1\<rparr>, h1, w')"
      using 2 h1(1) by (subst add_loop_p.simps) (simp add: nx ha dif)
    moreover have "only_touches (addrs c \<union> addrs c') h h1"
      using h1(4) Cons.prems 2 by (auto simp: only_touches_def)
    ultimately show ?thesis using h1(3) by blast
  next
    case 3
    with assms(1,2) Cons.prems show ?thesis
      by (subst add_loop_p.simps) (simp add: nx ha dif rep_def only_touches_def)
  next
    case (4 ms)
    have pre: "nodes c = (pre @ [(ent, d)]) @ (a, b) # ns" using Cons.prems(1) n by simp
    from Cons.IH [OF pre 4(2) refl] 4(1,3) Cons.prems(3) show ?thesis
      by (subst add_loop_p.simps) (simp add: nx ha dif n)
  qed
qed

theorem add_elem_refines:
  assumes "rep h l c" "fresh h w" "add_elem cmp c x w = Some (r, c', w')"
  shows "\<exists>l' h'. add_elem_p cmp l x h w = Some (r, l', h', w') \<and> rep h' l' c' \<and> fresh h' w' \<and>
    only_touches (addrs c \<union> addrs c') h h'"
proof (cases "nodes c")
  case Nil
  then have "addLast c x w = (r, c', w')"
    using assms(3) by (auto simp: add_elem_def addLast_def bind_Some_iff split: prod.splits option.splits)
  from addLast_refines [OF assms(1,2) this] assms(1) Nil show ?thesis
    by (simp add: add_elem_p_def rep_def)
next
  case (Cons n ns)
  obtain a b where n: "n = (a, b)" by (cases n)
  obtain rr where ha: "h a = Some \<lparr>content = b, next = rr\<rparr>" and fst: "first l = Some a"
    and lst: "h_last l \<noteq> None"
    using assms(1) Cons n by (auto simp: rep_def)
  obtain ns' where loop: "add_loop cmp (n # ns) x w = Some (r, ns', w')"
    and c': "c' = c\<lparr>list_length := (if r = 1 then list_length c + 1 else list_length c), nodes := ns'\<rparr>"
    using assms(3) Cons by (auto simp: add_elem_def bind_Some_iff)
  obtain dif where dif: "cmp b x = Some dif"
    using loop by (auto simp: n bind_Some_iff)
  consider "dif > 0" "malloc w = (None, w')" "r = 0" "ns' = n # ns"
    | q where "dif > 0" "malloc w = (Some q, w')" "r = 1" "ns' = (q, x) # n # ns"
    | "dif = 0" "r = 2" "ns' = n # ns" "w' = w"
    | ms where "dif < 0" "add_loop cmp ns x w = Some (r, ms, w')" "ns' = n # ms"
    using loop by (auto simp: n dif bind_Some_iff split: if_splits prod.splits option.splits)
  then show ?thesis
  proof cases
    case 1
    with assms(1,2) c' Cons show ?thesis
      by (simp add: add_elem_p_def fst lst ha dif init_entry_def malloc_none_fresh rep_def only_touches_def)
  next
    case (2 q)
    let ?h1 = "h(q \<mapsto> \<lparr>content = x, next = Some a\<rparr>)"
    have sg: "seg h (first l) (n # ns) None" using assms(1) Cons by (simp add: rep_def)
    then have q: "q \<notin> fst ` set (n # ns)"
      using rep_malloc_fresh(3) [OF assms(2) 2(2)] by blast
    then have "seg ?h1 (Some a) (n # ns) None" using sg fst by (subst seg_upd) auto
    then have "rep ?h1 (l\<lparr>first := Some q, h_length := h_length l + 1\<rparr>) c'"
      using assms(1) 2 Cons c' q by (auto simp: rep_def)
    then show ?thesis
      using 2 rep_malloc_fresh(2) [OF assms(2) 2(2)] c'
      by (simp add: add_elem_p_def fst lst ha dif init_entry_def only_touches_def)
  next
    case 3
    with assms(1,2) c' Cons show ?thesis
      by (simp add: add_elem_p_def fst lst ha dif rep_def only_touches_def)
  next
    case (4 ms)
    have "nodes c = [] @ (a, b) # ns" using Cons n by simp
    from add_loop_refines [OF assms(1,2) this 4(2) refl] 4(1,3) c' n show ?thesis
      by (simp add: add_elem_p_def fst lst ha dif)
  qed
qed

theorem remove_first_refines:
  assumes "rep h l c" "fresh h w" "remove_first c = (r, c')"
  shows "\<exists>l' h'. remove_first_p l h = Some (r, l', h') \<and> rep h' l' c' \<and> fresh h' w \<and>
    only_touches (addrs c) h h'"
proof (cases "nodes c")
  case Nil
  with assms show ?thesis
    by (auto simp: remove_first_p_def remove_first_def rep_def only_touches_def)
next
  case (Cons n ns)
  obtain a b where n: "n = (a, b)" by (cases n)
  obtain q where ha: "h a = Some \<lparr>content = b, next = q\<rparr>" and fst: "first l = Some a"
    and sg: "seg h q ns None" and a: "a \<notin> fst ` set ns"
    using assms(1) Cons n by (auto simp: rep_def)
  let ?l1 = "if first l = h_last l then l\<lparr>h_last := None\<rparr> else l"
  let ?l' = "?l1\<lparr>first := q, h_length := h_length ?l1 - 1\<rparr>"
  have r: "r = Some b" and c': "c' = c\<lparr>list_length := list_length c - 1, nodes := ns\<rparr>"
    using assms(3) Cons n by (auto simp: remove_first_def)
  have one: "first l = h_last l \<longleftrightarrow> ns = []"
    using assms(1) Cons n fst a by (auto simp: rep_def)
  have "remove_first_p l h = Some (r, ?l', h(a := None))"
    by (simp add: remove_first_p_def fst ha r)
  moreover have "rep (h(a := None)) ?l' c'"
    using assms(1) Cons n sg a c' one by (auto simp: rep_def)
  moreover have "fresh (h(a := None)) w" using assms(2) by (auto simp: fresh_def)
  moreover have "only_touches (addrs c) h (h(a := None))" using Cons n by (simp add: only_touches_def)
  ultimately show ?thesis by blast
qed

lemma remove_loop_refines:
  assumes "rep h l c" "fresh h w" "nodes c = pre @ (ent, d) # ns"
    and "remove_loop cmp ns e = Some (r, ns', dec)"
    and "c' = c\<lparr>list_length := (if dec then list_length c - 1 else list_length c), nodes := pre @ (ent, d) # ns'\<rparr>"
  shows "\<exists>l' h'. remove_loop_p cmp l ent e h = Some (r, l', h') \<and> rep h' l' c' \<and> fresh h' w \<and>
    only_touches (addrs c) h h'"
  using assms(3,4,5)
proof (induction ns arbitrary: pre ent d ns' c')
  case Nil
  obtain nx where nx: "h ent = Some \<lparr>content = d, next = nx\<rparr>" "nx = None"
    by (rule rep_split [OF assms(1) Nil(1)]) auto
  with Nil assms(1,2) show ?case
    by (subst remove_loop_p.simps) (simp add: rep_def only_touches_def)
next
  case (Cons n ns)
  obtain a b where n: "n = (a, b)" by (cases n)
  obtain nx where nx: "seg h (first l) (pre @ [(ent, d)]) nx" "seg h nx (n # ns) None"
    "h ent = Some \<lparr>content = d, next = nx\<rparr>" "nx = Some a"
    by (rule rep_split [OF assms(1) Cons.prems(1)]) (auto simp: n)
  then obtain q where ha: "h a = Some \<lparr>content = b, next = q\<rparr>" and sg: "seg h q ns None"
    by (auto simp: n)
  have dist: "distinct (map fst (pre @ [(ent, d)] @ n # ns))"
    using assms(1) Cons.prems(1) by (simp add: rep_def)
  obtain k where k: "cmp b e = Some k"
    using Cons.prems(2) by (auto simp: n bind_Some_iff)
  show ?case
  proof (cases "k = 0")
    case True
    then have res: "r = Some b" "ns' = ns" "dec = (ns = [])"
      using Cons.prems(2) by (auto simp: n k)
    let ?h1 = "(h(a := None))(ent \<mapsto> \<lparr>content = d, next = q\<rparr>)"
    let ?l1 = "if q = None then l\<lparr>h_last := Some ent, h_length := h_length l - 1\<rparr> else l"
    have out: "a \<notin> fst ` set (pre @ [(ent, d)])" "a \<notin> fst ` set ns" "ent \<notin> fst ` set ns" "a \<noteq> ent"
      using dist n by auto
    have "seg (h(a := None)) (first l) (pre @ [(ent, d)]) nx" using nx(1) out(1) by simp
    then have "seg ?h1 (first l) (pre @ [(ent, d)]) q"
      using dist by (intro seg_relink) auto
    moreover have "seg ?h1 q ns None" using sg out by simp
    ultimately have "seg ?h1 (first l) ((pre @ [(ent, d)]) @ ns) None"
      by (subst seg_append) blast
    then have "rep ?h1 ?l1 c'"
      using assms(1) Cons.prems(1,3) res dist seg_first [OF sg] by (auto simp: rep_def n)
    moreover have "remove_loop_p cmp l ent e h = Some (r, ?l1, ?h1)"
      using True res by (subst remove_loop_p.simps) (simp add: nx ha k Let_def)
    moreover have "fresh ?h1 w" using assms(2) nx(3) by (auto simp: fresh_def)
    moreover have "only_touches (addrs c) h ?h1" using Cons.prems(1) n by (simp add: only_touches_def)
    ultimately show ?thesis by blast
  next
    case False
    then obtain ms where ms: "remove_loop cmp ns e = Some (r, ms, dec)" "ns' = n # ms"
      using Cons.prems(2) by (auto simp: n k bind_Some_iff)
    have pre: "nodes c = (pre @ [(ent, d)]) @ (a, b) # ns" using Cons.prems(1) n by simp
    from Cons.IH [OF pre ms(1) refl] ms(2) Cons.prems(3) False show ?thesis
      by (subst remove_loop_p.simps) (simp add: nx ha k n)
  qed
qed

theorem remove_elem_refines:
  assumes "rep h l c" "fresh h w" "remove_elem cmp c e = Some (r, c')"
  shows "\<exists>l' h'. remove_elem_p cmp l e h = Some (r, l', h') \<and> rep h' l' c' \<and> fresh h' w \<and>
    only_touches (addrs c) h h'"
proof (cases "nodes c")
  case Nil
  with assms show ?thesis
    by (auto simp: remove_elem_p_def remove_elem_def rep_def only_touches_def)
next
  case (Cons n ns)
  obtain a b where n: "n = (a, b)" by (cases n)
  obtain q where ha: "h a = Some \<lparr>content = b, next = q\<rparr>" and fst: "first l = Some a"
    using assms(1) Cons n by (auto simp: rep_def)
  obtain k where k: "cmp b e = Some k"
    using assms(3) Cons by (auto simp: n remove_elem_def bind_Some_iff)
  show ?thesis
  proof (cases "k = 0")
    case True
    then have "remove_first c = (r, c')"
      using assms(3) Cons by (simp add: remove_elem_def n k)
    from remove_first_refines [OF assms(1,2) this] True show ?thesis
      by (simp add: remove_elem_p_def fst ha k)
  next
    case False
    then obtain ms dec where ms: "remove_loop cmp ns e = Some (r, ms, dec)"
      and c': "c' = c\<lparr>list_length := (if dec then list_length c - 1 else list_length c), nodes := [] @ (a, b) # ms\<rparr>"
      using assms(3) Cons by (auto simp: remove_elem_def n k bind_Some_iff)
    have "nodes c = [] @ (a, b) # ns" using Cons n by simp
    from remove_loop_refines [OF assms(1,2) this ms c'] False show ?thesis
      by (simp add: remove_elem_p_def fst ha k)
  qed
qed

lemma get_loop_refines: "seg h p ns None \<Longrightarrow> get_loop cmp ns e = Some r \<Longrightarrow> get_loop_p cmp p e h = Some r"
proof (induction ns arbitrary: p)
  case Nil
  then show ?case by (subst get_loop_p.simps) simp
next
  case (Cons n ns)
  then show ?case
    by (cases n, subst get_loop_p.simps) (auto simp: bind_Some_iff split: if_splits)
qed

theorem get_refines: "rep h l c \<Longrightarrow> get cmp c e = Some r \<Longrightarrow> get_p cmp l e h = Some r"
  by (auto simp: get_p_def get_def rep_def intro: get_loop_refines)

theorem add_limited_refines:
  assumes "rep h l c" "fresh h w" "add_limited c x m w = (r, c', w')"
  shows "\<exists>l' h' c1 r1. addLast c x w = (r1, c1, w') \<and> add_limited_p l x m h w = Some (r, l', h', w') \<and>
    rep h' l' c' \<and> fresh h' w' \<and> only_touches (addrs c \<union> addrs c1) h h'"
proof -
  obtain r1 c1 where a: "addLast c x w = (r1, c1, w')"
    using assms(3) by (auto simp: add_limited_def split: prod.splits if_splits)
  from addLast_refines [OF assms(1,2) a] obtain l1 h1 where
    1: "addLast_p l x h w = Some (r1, l1, h1, w')" "rep h1 l1 c1" "fresh h1 w'"
       "only_touches (addrs c \<union> addrs c1) h h1" by blast
  have len: "h_length l1 = list_length c1" using 1 by (simp add: rep_def)
  show ?thesis
  proof (cases "list_length c1 > size_of_int m")
    case True
    then have "remove_first c1 = (r, c')"
      using assms(3) a by (auto simp: add_limited_def split: prod.splits)
    from remove_first_refines [OF 1(2,3) this] True 1 a len show ?thesis
      by (fastforce simp: add_limited_p_def only_touches_def)
  next
    case False
    then show ?thesis using assms(3) 1 a len
      by (auto simp: add_limited_def add_limited_p_def)
  qed
qed

section \<open>Properties\<close>

text \<open>
  C13: the pointer code of \<open>genlist.c\<close> implements the list operations.  On a heap that
  represents a list, \<open>addLast\<close>, \<open>add_elem\<close>, \<open>remove_first\<close>, \<open>remove_elem\<close>, \<open>get\<close> and
  \<open>add_limited\<close> never use a null or freed entry, their loops end, they return what the list
  operation returns, leave a heap that represents its result (with \<open>first\<close>, \<open>last\<close> and
  \<open>length\<close> in agreement with the chain), and touch no entry of another list.
\<close>

theorem genlist_refinement:
  assumes "rep h l c" "fresh h w"
  shows
    "(\<forall>x. let (r, c', w') = addLast c x w in
        \<exists>l' h'. addLast_p l x h w = Some (r, l', h', w') \<and> rep h' l' c' \<and> fresh h' w' \<and>
          only_touches (addrs c \<union> addrs c') h h') \<and>
     (\<forall>cmp x r c' w'. add_elem cmp c x w = Some (r, c', w') \<longrightarrow>
        (\<exists>l' h'. add_elem_p cmp l x h w = Some (r, l', h', w') \<and> rep h' l' c' \<and> fresh h' w' \<and>
          only_touches (addrs c \<union> addrs c') h h')) \<and>
     (let (r, c') = remove_first c in
        \<exists>l' h'. remove_first_p l h = Some (r, l', h') \<and> rep h' l' c' \<and> fresh h' w \<and> only_touches (addrs c) h h') \<and>
     (\<forall>cmp e r c'. remove_elem cmp c (e :: 'b) = Some (r, c') \<longrightarrow>
        (\<exists>l' h'. remove_elem_p cmp l e h = Some (r, l', h') \<and> rep h' l' c' \<and> fresh h' w \<and> only_touches (addrs c) h h')) \<and>
     (\<forall>cmp e r. get cmp c (e :: 'b) = Some r \<longrightarrow> get_p cmp l e h = Some r) \<and>
     (\<forall>x m. let (r, c', w') = add_limited c x m w in
        \<exists>l' h'. add_limited_p l x m h w = Some (r, l', h', w') \<and> rep h' l' c' \<and> fresh h' w')"
proof (intro conjI allI impI)
  show "let (r, c', w') = addLast c x w in
        \<exists>l' h'. addLast_p l x h w = Some (r, l', h', w') \<and> rep h' l' c' \<and> fresh h' w' \<and>
          only_touches (addrs c \<union> addrs c') h h'" for x
    using addLast_refines [OF assms] by (simp split: prod.splits)
  show "let (r, c', w') = add_limited c x m w in
        \<exists>l' h'. add_limited_p l x m h w = Some (r, l', h', w') \<and> rep h' l' c' \<and> fresh h' w'" for x m
    using add_limited_refines [OF assms] by (simp split: prod.splits) blast
  show "let (r, c') = remove_first c in
        \<exists>l' h'. remove_first_p l h = Some (r, l', h') \<and> rep h' l' c' \<and> fresh h' w \<and> only_touches (addrs c) h h'"
    using remove_first_refines [OF assms] by (simp split: prod.splits)
qed (auto intro: add_elem_refines [OF assms] remove_elem_refines [OF assms] get_refines [OF assms(1)])

definition sample_heap :: "int lheap" where
  "sample_heap = [10 \<mapsto> \<lparr>content = 5, next = Some 12\<rparr>, 12 \<mapsto> \<lparr>content = 8, next = None\<rparr>]"

theorem genlist_refinement_witness:
  "\<exists>l' h'. add_elem_p (\<lambda>x y. Some (x - y)) \<lparr>h_length = 2, first = Some 10, h_last = Some 12\<rparr> 6 sample_heap
       (sample_world\<lparr>next_addr := 20\<rparr>) = Some (1, l', h', sample_world\<lparr>next_addr := 21\<rparr>) \<and>
     rep h' l' \<lparr>list_length = 3, nodes = [(10, 5), (20, 6), (12, 8)]\<rparr>"
proof -
  let ?c = "\<lparr>list_length = 2, nodes = [(10, 5), (12, 8::int)]\<rparr>"
  let ?l = "\<lparr>h_length = 2, first = Some 10, h_last = Some 12\<rparr>"
  let ?w = "sample_world\<lparr>next_addr := 20\<rparr>"
  have r: "rep sample_heap ?l ?c" by (simp add: rep_def sample_heap_def)
  have f: "fresh sample_heap ?w" by (simp add: fresh_def sample_heap_def)
  have "add_elem (\<lambda>x y. Some (x - y)) ?c 6 ?w =
    Some (1, \<lparr>list_length = 3, nodes = [(10, 5), (20, 6), (12, 8)]\<rparr>, sample_world\<lparr>next_addr := 21\<rparr>)"
    by (simp add: add_elem_def malloc_def sample_world_def)
  with genlist_refinement [OF r f, where 'b = int] show ?thesis by blast
qed

end
