(* ===== verification/Util.thy ===== *)
theory Util
  imports Machine
begin

text \<open>
  The pure helpers of \<open>util.c\<close>: the comparison functions handed to the lists and the tree,
  \<open>min\<close>, \<open>max\<close>, and the randomised waiting time between two transmissions.  The lemmas say
  which order or equivalence each comparison decides, and how long a wait can be.
\<close>

section \<open>Comparisons\<close>

text \<open>The loop of \<open>compare_n\<close> over the address bytes: the first difference decides.\<close>

fun compare_bytes :: "u8 list \<Rightarrow> u8 list \<Rightarrow> int" where
  "compare_bytes (x # xs) (y # ys) = (if x < y then -1 else if x > y then 1 else compare_bytes xs ys)"
| "compare_bytes _ _ = 0"

definition compare_n :: "neighbor \<Rightarrow> neighbor \<Rightarrow> int" where
  "compare_n key1 key2 =
     (let c = compare_bytes (take 16 (ip key1)) (take 16 (ip key2)) in
      if c \<noteq> 0 then c
      else if port key1 < port key2 then -1
      else if port key1 > port key2 then 1 else 0)"

definition compare_d :: "data_index \<Rightarrow> data_index \<Rightarrow> int" where
  "compare_d data data2 =
     (if index_id data = index_id data2 \<and> nonce data = nonce data2 then 0 else 1)"

definition max_c :: "int \<Rightarrow> int \<Rightarrow> int" where
  "max_c x y = (if x \<le> y then y else x)"

definition min_c :: "int \<Rightarrow> int \<Rightarrow> int" where
  "min_c x y = (if x \<le> y then x else y)"

text \<open>
  \<open>compare_n_s\<close> of \<open>list.c\<close>, on entries whose neighbours it dereferences.  The difference of
  the waiting times is an \<open>int\<close> returned as a \<open>short\<close>.
\<close>

definition compare_n_s :: "(addr \<Rightarrow> bool) \<Rightarrow> ngb_entry \<Rightarrow> ngb_entry \<Rightarrow> int option" where
  "compare_n_s live n1 n2 =
     do { k1 \<leftarrow> deref live (sym n1);
          k2 \<leftarrow> deref live (sym n2);
          if compare_n k1 k2 = 0 then Some 0
          else let i = to_int (wait_until n1 - wait_until n2) in
               if i = 0 then Some 1 else Some (to_short i) }"

definition compare_n_s2 :: "(addr \<Rightarrow> bool) \<Rightarrow> ngb_entry \<Rightarrow> ngb_entry \<Rightarrow> int option" where
  "compare_n_s2 live n1 n2 =
     do { k1 \<leftarrow> deref live (sym n1);
          k2 \<leftarrow> deref live (sym n2);
          Some (if compare_n k1 k2 = 0 then 1 else 0) }"

section \<open>Waiting times\<close>

text \<open>C's \<open>%\<close> truncates towards zero.\<close>

definition c_rem :: "int \<Rightarrow> int \<Rightarrow> int" where
  "c_rem a b = sgn a * (\<bar>a\<bar> mod \<bar>b\<bar>)"

definition rand_a_b :: "int \<Rightarrow> int \<Rightarrow> 'z world_scheme \<Rightarrow> (int \<times> 'z world_scheme) option" where
  "rand_a_b a b w =
     (if b - a = 0 then None
      else let (r, w1) = rand w in Some (c_rem r (b - a) + a, w1))"

text \<open>
  \<open>pow(2.0, n)\<close> is exact and fits an \<open>int\<close> for exponents 0 to 30.  A negative \<open>times_sent\<close>
  makes both bounds 0 (or 0 and 1 for \<open>times_sent = 0\<close>, handled first), a division by zero;
  above 30 the upper bound does not fit an \<open>int\<close>.
\<close>

definition wait_time :: "int \<Rightarrow> 'z world_scheme \<Rightarrow> (int \<times> 'z world_scheme) option" where
  "wait_time sent_n w =
     (if sent_n = 0 then Some (1, w)
      else if 1 \<le> sent_n \<and> sent_n \<le> 30
      then rand_a_b (2 ^ nat (sent_n - 1)) (2 ^ nat sent_n) w
      else None)"

section \<open>What the comparisons decide\<close>

lemma compare_bytes_lex:
  "length xs = length ys \<Longrightarrow>
     compare_bytes xs ys = (if xs < ys then -1 else if xs = ys then 0 else 1)"
proof (induction xs ys rule: compare_bytes.induct)
  case (1 x xs y ys)
  then show ?case by (cases x y rule: linorder_cases) auto
qed auto

lemma compare_n_order:
  assumes "wf_neighbor a" "wf_neighbor b"
  shows "compare_n a b = (if nkey a < nkey b then -1 else if nkey a = nkey b then 0 else 1)"
proof -
  have c: "compare_bytes (take 16 (ip a)) (take 16 (ip b)) =
    (if ip a < ip b then -1 else if ip a = ip b then 0 else 1)"
    using assms by (simp add: wf_neighbor_def compare_bytes_lex)
  show ?thesis
    unfolding compare_n_def Let_def c
    by (cases "ip a" "ip b" rule: linorder_cases; cases "port a" "port b" rule: linorder_cases)
       (auto simp: nkey_def less_nkey_def)
qed

lemma compare_n_cases [consumes 2, case_names less eq greater]:
  assumes "wf_neighbor a" "wf_neighbor b"
  obtains "compare_n a b = -1" "nkey a < nkey b" | "compare_n a b = 0" "nkey a = nkey b"
    | "compare_n a b = 1" "nkey b < nkey a"
  using compare_n_order [OF assms]
  by (cases "nkey a" "nkey b" rule: linorder_cases) (auto split: if_splits dest: order_less_asym)

lemma compare_n_eq_iff: "wf_neighbor a \<Longrightarrow> wf_neighbor b \<Longrightarrow> compare_n a b = 0 \<longleftrightarrow> nkey a = nkey b"
  by (simp add: compare_n_order)

lemma compare_d_eq_iff [simp]: "compare_d a b = 0 \<longleftrightarrow> a = b"
  by (cases a; cases b) (simp add: compare_d_def)

lemma wait_time_0 [simp]: "wait_time 0 w = Some (1, w)"
  by (simp add: wait_time_def)

lemma wait_time_ok:
  assumes "rand_ok w" "1 \<le> t" "t \<le> 30"
  obtains v where "wait_time t w = Some (v, w\<lparr>rnds := Suc (rnds w)\<rparr>)"
    and "2 ^ nat (t - 1) \<le> v" "v < 2 ^ nat t"
proof -
  have nn: "nat t = Suc (nat (t - 1))" using assms by simp
  let ?k = "(2::int) ^ nat (t - 1)"
  have k: "0 < ?k" "(2::int) ^ nat t - ?k = ?k" unfolding nn by simp_all
  have r: "0 \<le> rnd w (rnds w)" using assms(1) by (simp add: rand_ok_def)
  have "0 \<le> c_rem (rnd w (rnds w)) ?k" "c_rem (rnd w (rnds w)) ?k < ?k"
    using r k by (auto simp: c_rem_def sgn_if)
  moreover have "wait_time t w = Some (c_rem (rnd w (rnds w)) ?k + ?k, w\<lparr>rnds := Suc (rnds w)\<rparr>)"
    using assms k by (simp add: wait_time_def rand_a_b_def rand_def)
  ultimately show thesis using k that by (metis add.commute add_increasing add_strict_left_mono diff_eq_eq le_add_same_cancel1)
qed

end
