(* ===== verification/Peer.thy ===== *)
theory Peer
  imports GenList Util
begin

text \<open>
  The shared state of the peer: the search tree of \<open>abr.h\<close>, the flooding entries of
  \<open>list.h\<close> and the globals of \<open>peer.h\<close>, as an extension of the world of library calls.
\<close>

section \<open>abr.h: the tree of neighbours\<close>

text \<open>
  A node owns its key and value, and its children; no two nodes share any of them.  The
  address of the key is kept, because \<open>ngb_entry\<close> objects hold pointers to it.
\<close>

datatype tree =
  Null
| Tree (kaddr: addr) (key: neighbor) (val: ident) (left: tree) (right: tree)

fun entries :: "tree \<Rightarrow> (addr \<times> neighbor \<times> ident) list" where
  "entries Null = []"
| "entries (Tree a k v l r) = entries l @ (a, k, v) # entries r"

abbreviation entry_key :: "addr \<times> neighbor \<times> ident \<Rightarrow> nkey" where
  "entry_key e \<equiv> nkey (fst (snd e))"

definition tree_keys :: "tree \<Rightarrow> nkey list" where
  "tree_keys t = map entry_key (entries t)"

definition tree_addrs :: "tree \<Rightarrow> addr list" where
  "tree_addrs t = map fst (entries t)"

text \<open>Search-tree order on the keys, all of them well formed.\<close>

definition bst :: "tree \<Rightarrow> bool" where
  "bst t \<longleftrightarrow> sorted_wrt (<) (tree_keys t) \<and> (\<forall>e\<in>set (entries t). wf_neighbor (fst (snd e)))"

section \<open>list.h and peer.h\<close>

definition NBDATA :: int where "NBDATA = 100"

record flood_entry =
  flood_index :: data_index
  flood_data :: "u8 list"
  sym_neighbors :: "ngb_entry clist"

text \<open>
  \<open>DATAF\<close> holds pointers to \<open>flood_entry\<close> objects, possibly null; the objects are in
  \<open>floods\<close>.  (\<open>BIGDATA\<close> is initialised and then used only by \<open>bigdata\<close>, which nothing calls.)
\<close>

record peer = world +
  ID :: u64
  POTENTIAL :: tree
  NEIGHBORS :: tree
  DATAF :: "ptr clist"
  floods :: "addr \<Rightarrow> flood_entry option"
  NEXTTIME :: u64
  NB_SYMETRICAL :: int

text \<open>A key is allocated as long as a node of one of the two trees owns it.\<close>

definition live :: "'z peer_scheme \<Rightarrow> addr \<Rightarrow> bool" where
  "live s a \<longleftrightarrow> a \<in> set (tree_addrs (NEIGHBORS s)) \<or> a \<in> set (tree_addrs (POTENTIAL s))"

text \<open>\<open>free(key->msg)\<close>; freeing what is not allocated is undefined.\<close>

definition free_msg :: "ptr \<Rightarrow> 'z world_scheme \<Rightarrow> 'z world_scheme option" where
  "free_msg p w =
     (case p of
        None \<Rightarrow> Some w
      | Some a \<Rightarrow> if msgs w a = None then None else Some (w\<lparr>msgs := (msgs w)(a := None)\<rparr>))"

end
