(* ===== verification/Abr.thy ===== *)
theory Abr
  imports Peer
begin

text \<open>
  \<open>abr.c\<close>: the unbalanced search trees of potential and actual neighbours, ordered by
  \<open>compare_n\<close>.  Insertion and removal relink nodes in place; the model returns the tree after
  the call.  The lemmas describe every operation by what it does to the in-order listing
  \<open>entries\<close>, and the section on the dictionary interface packs them into the contract the
  protocol handlers rely on.
\<close>

section \<open>Operations\<close>

definition zero_neighbor :: neighbor where
  "zero_neighbor = \<lparr>ip = replicate 16 0, port = 0, msg = None\<rparr>"

definition zero_ident :: ident where
  "zero_ident = \<lparr>ident_id = 0, last_hello = 0, last_hello_long = 0\<rparr>"

text \<open>\<open>init\<close>: three allocations, undone when a later one fails; null arguments give zeroed copies.\<close>

definition init :: "neighbor option \<Rightarrow> ident option \<Rightarrow> tree \<Rightarrow> tree \<Rightarrow> 'z world_scheme \<Rightarrow> tree \<times> 'z world_scheme" where
  "init k v l r w =
     (let (current, w1) = malloc w in
      if current = None then (Null, w1)
      else let (pval, w2) = malloc w1 in
           if pval = None then (Null, w2)
           else let (pkey, w3) = malloc w2 in
                case pkey of
                  None \<Rightarrow> (Null, w3)
                | Some a \<Rightarrow>
                    (Tree a (case k of Some x \<Rightarrow> x | None \<Rightarrow> zero_neighbor)
                            (case v of Some x \<Rightarrow> x | None \<Rightarrow> zero_ident) l r, w3))"

fun add_neighbor_aux :: "tree \<Rightarrow> neighbor \<Rightarrow> ident option \<Rightarrow> 'z world_scheme
    \<Rightarrow> (int \<times> tree \<times> 'z world_scheme) option" where
  "add_neighbor_aux Null nk nv w = None"
| "add_neighbor_aux (Tree a k v l r) nk nv w =
     (let comp = compare_n k nk in
      if comp > 0 then
        (if l = Null then
           (let (n, w1) = init (Some nk) nv Null Null w in
            Some (if n \<noteq> Null then 1 else 0, Tree a k v n r, w1))
         else do { (res, l', w1) \<leftarrow> add_neighbor_aux l nk nv w; Some (res, Tree a k v l' r, w1) })
      else if comp < 0 then
        (if r = Null then
           (let (n, w1) = init (Some nk) nv Null Null w in
            Some (if n \<noteq> Null then 1 else 0, Tree a k v l n, w1))
         else do { (res, r', w1) \<leftarrow> add_neighbor_aux r nk nv w; Some (res, Tree a k v l r', w1) })
      else
        Some (2, Tree a k
                   (case nv of
                      None \<Rightarrow> v
                    | Some n \<Rightarrow> v\<lparr>last_hello := last_hello n, last_hello_long := last_hello_long n\<rparr>) l r, w))"

definition add_potential :: "neighbor \<Rightarrow> ident option \<Rightarrow> 'z peer_scheme \<Rightarrow> (int \<times> 'z peer_scheme) option" where
  "add_potential k v s =
     (let k1 = k\<lparr>msg := None\<rparr> in
      if POTENTIAL s = Null then
        (let (t, s1) = init (Some k1) v Null Null s in
         Some (if t \<noteq> Null then 1 else 0, s1\<lparr>POTENTIAL := t\<rparr>))
      else do { (res, t, s1) \<leftarrow> add_neighbor_aux (POTENTIAL s) k1 v s;
                Some (res, s1\<lparr>POTENTIAL := t\<rparr>) })"

text \<open>
  \<open>add_neighbor\<close> gives the neighbour a message buffer (empty, header filled in) and frees it
  again when the tree did not take the key.
\<close>

definition add_neighbor :: "neighbor \<Rightarrow> ident option \<Rightarrow> 'z peer_scheme \<Rightarrow> (int \<times> 'z peer_scheme) option" where
  "add_neighbor k v s =
     (let (p, s1) = malloc s;
          k1 = k\<lparr>msg := p\<rparr>;
          s2 = (case p of
                  None \<Rightarrow> s1
                | Some a \<Rightarrow> s1\<lparr>msgs := (msgs s1)(a \<mapsto>
                    \<lparr>magic = 93, version = 2, body_length = 0, body = fresh_body s1\<rparr>)\<rparr>)
      in if NEIGHBORS s2 = Null then
           (let (t, s3) = init (Some k1) v Null Null s2; s4 = s3\<lparr>NEIGHBORS := t\<rparr> in
            if t = Null then do { s5 \<leftarrow> free_msg p s4; Some (0, s5) }
            else Some (1, s4))
         else do { (res, t, s3) \<leftarrow> add_neighbor_aux (NEIGHBORS s2) k1 v s2;
                   let s4 = s3\<lparr>NEIGHBORS := t\<rparr> in
                   if res = 2 \<or> res = 0 then do { s5 \<leftarrow> free_msg p s4; Some (res, s5) }
                   else Some (res, s4) })"

fun get_ident :: "tree \<Rightarrow> neighbor \<Rightarrow> ident option" where
  "get_ident Null nk = None"
| "get_ident (Tree a k v l r) nk =
     (let comp = compare_n k nk in
      if comp = 0 then Some v
      else if comp > 0 then get_ident l nk
      else get_ident r nk)"

text \<open>The two selection predicates read only \<open>t->val\<close>.\<close>

definition issymmetrical :: "ident \<Rightarrow> 'z world_scheme \<Rightarrow> bool \<times> 'z world_scheme" where
  "issymmetrical v w = (let (now, w1) = get_seconds w in (now - last_hello_long v < 120, w1))"

definition is_old :: "ident \<Rightarrow> 'z world_scheme \<Rightarrow> bool \<times> 'z world_scheme" where
  "is_old v w = (let (now, w1) = get_seconds w in (now - last_hello v > 120, w1))"

text \<open>\<open>init_ngb_entry\<close> of \<open>list.c\<close>; a null result is \<open>Some (None, _)\<close>.\<close>

definition init_ngb_entry :: "nptr \<Rightarrow> int \<Rightarrow> 'z world_scheme \<Rightarrow> (ngb_entry option \<times> 'z world_scheme) option" where
  "init_ngb_entry p n_sent w =
     (let (res, w1) = malloc w in
      if res = None then Some (None, w1)
      else do { (t, w2) \<leftarrow> wait_time n_sent w1;
                let (now, w3) = get_seconds w2 in
                Some (Some \<lparr>sym = p, times_sent = 0, wait_until = t + now\<rparr>, w3) })"

fun find_by_aux :: "tree \<Rightarrow> (ident \<Rightarrow> 'z world_scheme \<Rightarrow> bool \<times> 'z world_scheme) \<Rightarrow> ngb_entry clist
    \<Rightarrow> 'z world_scheme \<Rightarrow> (ngb_entry clist \<times> 'z world_scheme) option" where
  "find_by_aux Null f lst w = Some (lst, w)"
| "find_by_aux (Tree a k v l r) f lst w =
     do { (lst1, w1) \<leftarrow> find_by_aux l f lst w;
          let (b, w2) = f v w1 in
          do { (lst2, w3) \<leftarrow>
                 (if b then
                    do { (ent, w3) \<leftarrow> init_ngb_entry (Key a k) 0 w2;
                         case ent of
                           None \<Rightarrow> Some (lst1, w3)
                         | Some e \<Rightarrow> (let (_, lst2, w4) = addLast lst1 e w3 in Some (lst2, w4)) }
                  else Some (lst1, w2));
               find_by_aux r f lst2 w3 } }"

definition find_by :: "tree \<Rightarrow> (ident \<Rightarrow> 'z world_scheme \<Rightarrow> bool \<times> 'z world_scheme)
    \<Rightarrow> 'z world_scheme \<Rightarrow> (ngb_entry clist option \<times> 'z world_scheme) option" where
  "find_by t f w =
     (let (res, w1) = malloc w in
      if res = None then Some (None, w1)
      else do { (lst, w2) \<leftarrow> find_by_aux t f init_list w1; Some (Some lst, w2) })"

definition get_symmetrical :: "tree \<Rightarrow> 'z world_scheme \<Rightarrow> (ngb_entry clist option \<times> 'z world_scheme) option" where
  "get_symmetrical t w = find_by t issymmetrical w"

fun number_of_neighbors :: "tree \<Rightarrow> int" where
  "number_of_neighbors Null = 0"
| "number_of_neighbors (Tree a k v l r) = 1 + number_of_neighbors l + number_of_neighbors r"

fun maxUnder :: "tree \<Rightarrow> tree" where
  "maxUnder Null = Null"
| "maxUnder (Tree a k v l r) = (if r = Null then Tree a k v l r else maxUnder r)"

text \<open>
  \<open>remove_min t\<close> unlinks the leftmost node below \<open>t\<close>, which needs a left child: the node
  as it was, and \<open>t\<close> without it.
\<close>

fun remove_min :: "tree \<Rightarrow> (tree \<times> tree) option" where
  "remove_min (Tree a k v (Tree la lk lv ll lr) r) =
     (if ll = Null then Some (Tree la lk lv ll lr, Tree a k v lr r)
      else do { (m, l') \<leftarrow> remove_min (Tree la lk lv ll lr); Some (m, Tree a k v l' r) })"
| "remove_min _ = None"

fun remove_neighbor_aux :: "neighbor \<Rightarrow> tree \<Rightarrow> 'z world_scheme \<Rightarrow> (tree \<times> 'z world_scheme) option" where
  "remove_neighbor_aux nk Null w = Some (Null, w)"
| "remove_neighbor_aux nk (Tree a k v l r) w =
     (let comp = compare_n k nk in
      if comp = 0 then
        do { w1 \<leftarrow> free_msg (msg k) w;
             case r of
               Null \<Rightarrow> Some (l, w1)
             | Tree ra rk rv rl rr \<Rightarrow>
                 if rl = Null then Some (Tree ra rk rv l rr, w1)
                 else do { (tmp, r') \<leftarrow> remove_min r;
                           case tmp of
                             Null \<Rightarrow> None
                           | Tree ta tk tv _ _ \<Rightarrow> Some (Tree ta tk tv l r', w1) } }
      else if comp > 0 then
        do { (l', w1) \<leftarrow> remove_neighbor_aux nk l w; Some (Tree a k v l' r, w1) }
      else
        do { (r', w1) \<leftarrow> remove_neighbor_aux nk r w; Some (Tree a k v l r', w1) })"

definition remove_neighbor :: "neighbor \<Rightarrow> 'z peer_scheme \<Rightarrow> 'z peer_scheme option" where
  "remove_neighbor nk s =
     (if NEIGHBORS s \<noteq> Null
      then do { (t, s1) \<leftarrow> remove_neighbor_aux nk (NEIGHBORS s) s; Some (s1\<lparr>NEIGHBORS := t\<rparr>) }
      else Some s)"

definition remove_potential :: "neighbor \<Rightarrow> 'z peer_scheme \<Rightarrow> 'z peer_scheme option" where
  "remove_potential nk s =
     (if POTENTIAL s \<noteq> Null
      then do { (t, s1) \<leftarrow> remove_neighbor_aux nk (POTENTIAL s) s; Some (s1\<lparr>POTENTIAL := t\<rparr>) }
      else Some s)"

fun depth :: "tree \<Rightarrow> int" where
  "depth Null = -1"
| "depth (Tree a k v l r) = 1 + max_c (depth l) (depth r)"

fun isBalanced :: "tree \<Rightarrow> bool" where
  "isBalanced Null = True"
| "isBalanced (Tree a k v l r) =
     (if l = Null \<and> r = Null then True
      else if l = Null \<and> r \<noteq> Null \<and> (right r \<noteq> Null \<or> left r \<noteq> Null) then False
      else if r = Null \<and> l \<noteq> Null \<and> (right l \<noteq> Null \<or> left l \<noteq> Null) then False
      else isBalanced l \<and> isBalanced r)"

fun check :: "tree \<Rightarrow> bool" where
  "check Null = True"
| "check (Tree a k v l r) =
     (if (l \<noteq> Null \<and> compare_n k (key l) < 0) \<or> (r \<noteq> Null \<and> compare_n k (key r) > 0) then False
      else check l \<and> check r)"

end
