(* ===== verification/Abr_Laws.thy ===== *)
theory Abr_Laws
  imports Abr "HOL-Library.Sublist"
begin

text \<open>
  What the operations of \<open>abr.c\<close> do, stated on the in-order listing of the tree: search
  order is kept, insertion and removal change exactly one entry, lookup is lookup in the
  listing, and the selections \<open>find_by\<close> are sublists of it.
\<close>

section \<open>Order and listing\<close>

lemma tree_keys_simps [simp]:
  "tree_keys Null = []"
  "tree_keys (Tree a k v l r) = tree_keys l @ nkey k # tree_keys r"
  by (simp_all add: tree_keys_def)

lemma tree_addrs_simps [simp]:
  "tree_addrs Null = []"
  "tree_addrs (Tree a k v l r) = tree_addrs l @ a # tree_addrs r"
  by (simp_all add: tree_addrs_def)

lemma bst_Null [simp]: "bst Null"
  by (simp add: bst_def)

lemma bst_Tree [simp]:
  "bst (Tree a k v l r) \<longleftrightarrow> bst l \<and> bst r \<and> wf_neighbor k \<and>
     (\<forall>x\<in>set (tree_keys l). x < nkey k) \<and> (\<forall>x\<in>set (tree_keys r). nkey k < x)"
proof -
  have "\<lbrakk>\<forall>x\<in>set (tree_keys l). x < nkey k; \<forall>x\<in>set (tree_keys r). nkey k < x\<rbrakk>
    \<Longrightarrow> \<forall>x\<in>set (tree_keys l). \<forall>y\<in>set (tree_keys r). x < y"
    by (meson order.strict_trans)
  then show ?thesis by (auto simp: bst_def sorted_wrt_append)
qed

lemma entries_Null_iff [simp]: "entries t = [] \<longleftrightarrow> t = Null"
  by (cases t) auto

lemma bst_entries_wf: "bst t \<Longrightarrow> (a, k, v) \<in> set (entries t) \<Longrightarrow> wf_neighbor k"
  by (force simp: bst_def)

lemma entry_in_keys: "(a, k, v) \<in> set (entries t) \<Longrightarrow> nkey k \<in> set (tree_keys t)"
  by (force simp: tree_keys_def)

lemma entry_in_addrs: "(a, k, v) \<in> set (entries t) \<Longrightarrow> a \<in> set (tree_addrs t)"
  by (force simp: tree_addrs_def)

lemma bst_distinct_keys: "bst t \<Longrightarrow> distinct (tree_keys t)"
  by (auto simp: bst_def strict_sorted_iff)

lemma bst_entry_unique:
  assumes "bst t" "(a, k, v) \<in> set (entries t)" "(b, j, u) \<in> set (entries t)" "nkey k = nkey j"
  shows "a = b" "k = j" "v = u"
proof -
  have "inj_on entry_key (set (entries t))"
    using bst_distinct_keys [OF assms(1)] by (simp add: tree_keys_def distinct_map)
  from inj_onD [OF this _ assms(2,3)] assms(4) show "a = b" "k = j" "v = u" by auto
qed

section \<open>Allocation of a node\<close>

lemma malloc_okD: "\<not> alloc_ok w n \<Longrightarrow> \<not> malloc_ok w"
  by (auto simp: malloc_ok_def)

lemma init_cases:
  assumes "init (Some k) nv l r w = (t, w')"
  obtains (none) "t = Null" "w\<lparr>next_addr := next_addr w'\<rparr> = w'" "next_addr w \<le> next_addr w'" "\<not> malloc_ok w"
  | (node) "t = Tree (next_addr w + 2) k (case nv of Some x \<Rightarrow> x | None \<Rightarrow> zero_ident) l r"
      "w' = w\<lparr>next_addr := next_addr w + 3\<rparr>"
  using assms
  by (auto simp: init_def malloc_def Let_def eval_nat_numeral dest: malloc_okD split: if_splits option.splits)

section \<open>Insertion\<close>

definition merge_ident :: "ident option \<Rightarrow> ident \<Rightarrow> ident" where
  "merge_ident nv v =
     (case nv of None \<Rightarrow> v
      | Some n \<Rightarrow> v\<lparr>last_hello := last_hello n, last_hello_long := last_hello_long n\<rparr>)"

text \<open>The three outcomes of an insertion, on the listing.\<close>

definition inserted :: "neighbor \<Rightarrow> ident option \<Rightarrow> 'z world_scheme \<Rightarrow> tree \<Rightarrow> int \<Rightarrow> tree \<Rightarrow> 'z world_scheme \<Rightarrow> bool" where
  "inserted nk nv w t res t' w' \<longleftrightarrow>
     (res = 2 \<and> w' = w \<and>
        (\<exists>pre a k v post. entries t = pre @ (a, k, v) # post \<and> nkey k = nkey nk \<and>
           entries t' = pre @ (a, k, merge_ident nv v) # post)) \<or>
     (res = 1 \<and> nkey nk \<notin> set (tree_keys t) \<and> w' = w\<lparr>next_addr := next_addr w + 3\<rparr> \<and>
        (\<exists>pre post. entries t = pre @ post \<and>
           entries t' = pre @ (next_addr w + 2, nk, (case nv of Some x \<Rightarrow> x | None \<Rightarrow> zero_ident)) # post)) \<or>
     (res = 0 \<and> nkey nk \<notin> set (tree_keys t) \<and> \<not> malloc_ok w \<and> entries t' = entries t \<and>
        w\<lparr>next_addr := next_addr w'\<rparr> = w' \<and> next_addr w \<le> next_addr w')"

lemma inserted_keys:
  "inserted nk nv w t res t' w' \<Longrightarrow> set (tree_keys t') \<subseteq> insert (nkey nk) (set (tree_keys t))"
  by (auto simp: inserted_def tree_keys_def)

lemma inserted_context:
  assumes ins: "inserted nk nv w u res u' w'"
    and t: "entries t = A @ entries u @ B" and t': "entries t' = A @ entries u' @ B"
    and out: "nkey nk \<notin> entry_key ` set A" "nkey nk \<notin> entry_key ` set B"
  shows "inserted nk nv w t res t' w'"
proof -
  have keys: "nkey nk \<notin> set (tree_keys u) \<Longrightarrow> nkey nk \<notin> set (tree_keys t)"
    using out t by (auto simp: tree_keys_def)
  from ins consider
    (old) pre a k v post where "res = 2" "w' = w" "entries u = pre @ (a, k, v) # post"
      "nkey k = nkey nk" "entries u' = pre @ (a, k, merge_ident nv v) # post"
    | (new) pre post where "res = 1" "nkey nk \<notin> set (tree_keys u)" "w' = w\<lparr>next_addr := next_addr w + 3\<rparr>"
      "entries u = pre @ post"
      "entries u' = pre @ (next_addr w + 2, nk, (case nv of Some x \<Rightarrow> x | None \<Rightarrow> zero_ident)) # post"
    | (none) "res = 0" "nkey nk \<notin> set (tree_keys u)" "\<not> malloc_ok w" "entries u' = entries u"
      "w\<lparr>next_addr := next_addr w'\<rparr> = w'" "next_addr w \<le> next_addr w'"
    unfolding inserted_def by blast
  then show ?thesis
  proof cases
    case old
    have "entries t = (A @ pre) @ (a, k, v) # (post @ B)"
      "entries t' = (A @ pre) @ (a, k, merge_ident nv v) # (post @ B)"
      using t t' old by simp_all
    then show ?thesis unfolding inserted_def using old by blast
  next
    case new
    have "entries t = (A @ pre) @ (post @ B)"
      "entries t' = (A @ pre) @ (next_addr w + 2, nk, (case nv of Some x \<Rightarrow> x | None \<Rightarrow> zero_ident)) # (post @ B)"
      using t t' new by simp_all
    then show ?thesis unfolding inserted_def using new keys by blast
  next
    case none
    then show ?thesis unfolding inserted_def using t t' keys by simp
  qed
qed

lemma inserted_left:
  assumes "inserted nk nv w l res l' w'" "nkey nk < nkey k" "\<forall>x\<in>set (tree_keys r). nkey k < x"
  shows "inserted nk nv w (Tree a k v l r) res (Tree a k v l' r) w'"
  using assms(2,3)
  by (intro inserted_context [OF assms(1), where A = "[]" and B = "(a, k, v) # entries r"])
     (auto simp: tree_keys_def dest: order.strict_trans)

lemma inserted_right:
  assumes "inserted nk nv w r res r' w'" "nkey k < nkey nk" "\<forall>x\<in>set (tree_keys l). x < nkey k"
  shows "inserted nk nv w (Tree a k v l r) res (Tree a k v l r') w'"
  using assms(2,3)
  by (intro inserted_context [OF assms(1), where A = "entries l @ [(a, k, v)]" and B = "[]"])
     (auto simp: tree_keys_def dest: order.strict_trans)

lemma inserted_init:
  assumes "init (Some nk) nv Null Null w = (t, w')"
  shows "inserted nk nv w Null (if t = Null then 0 else 1) t w'"
  using assms by (cases rule: init_cases) (auto simp: inserted_def)

lemma add_neighbor_aux_spec:
  assumes "bst t" "t \<noteq> Null" "wf_neighbor nk"
  shows "\<exists>res t' w'. add_neighbor_aux t nk nv w = Some (res, t', w') \<and> bst t' \<and> t' \<noteq> Null \<and>
    inserted nk nv w t res t' w'"
  using assms(1,2)
proof (induction t)
  case (Tree a k v l r)
  have wf: "wf_neighbor k" and ord: "\<forall>x\<in>set (tree_keys l). x < nkey k" "\<forall>x\<in>set (tree_keys r). nkey k < x"
    using Tree.prems by auto
  obtain n w1 where new: "init (Some nk) nv Null Null w = (n, w1)" by fastforce
  have bn: "bst n" using new assms(3) by (cases rule: init_cases) auto
  from wf assms(3) show ?case
  proof (cases rule: compare_n_cases)
    case less
    have sub: "\<exists>res r' w'. (if r = Null then Some (if n \<noteq> Null then 1 else 0, n, w1)
                 else add_neighbor_aux r nk nv w) = Some (res, r', w') \<and> bst r' \<and> inserted nk nv w r res r' w'"
      using Tree.IH(2) Tree.prems inserted_init [OF new] bn by (cases "r = Null") auto
    then obtain res r' w' where r': "(if r = Null then Some (if n \<noteq> Null then 1 else 0, n, w1)
                 else add_neighbor_aux r nk nv w) = Some (res, r', w')" "bst r'" "inserted nk nv w r res r' w'"
      by blast
    have "bst (Tree a k v l r')" using Tree.prems r' less inserted_keys [OF r'(3)] by auto
    moreover have "add_neighbor_aux (Tree a k v l r) nk nv w = Some (res, Tree a k v l r', w')"
      using r'(1) less new by (cases "r = Null") auto
    ultimately show ?thesis using inserted_right [OF r'(3) less(2) ord(1)] by blast
  next
    case eq
    have "inserted nk nv w (Tree a k v l r) 2 (Tree a k (merge_ident nv v) l r) w"
      using eq by (force simp: inserted_def)
    then show ?thesis using eq Tree.prems by (simp add: merge_ident_def)
  next
    case greater
    have sub: "\<exists>res l' w'. (if l = Null then Some (if n \<noteq> Null then 1 else 0, n, w1)
                 else add_neighbor_aux l nk nv w) = Some (res, l', w') \<and> bst l' \<and> inserted nk nv w l res l' w'"
      using Tree.IH(1) Tree.prems inserted_init [OF new] bn by (cases "l = Null") auto
    then obtain res l' w' where l': "(if l = Null then Some (if n \<noteq> Null then 1 else 0, n, w1)
                 else add_neighbor_aux l nk nv w) = Some (res, l', w')" "bst l'" "inserted nk nv w l res l' w'"
      by blast
    have "bst (Tree a k v l' r)" using Tree.prems l' greater inserted_keys [OF l'(3)] by auto
    moreover have "add_neighbor_aux (Tree a k v l r) nk nv w = Some (res, Tree a k v l' r, w')"
      using l'(1) greater new by (cases "l = Null") auto
    ultimately show ?thesis using inserted_left [OF l'(3) greater(2) ord(2)] by blast
  qed
qed simp

section \<open>Lookup\<close>

lemma get_ident_lookup:
  "bst t \<Longrightarrow> wf_neighbor nk \<Longrightarrow>
     get_ident t nk = map_of (map (\<lambda>(a, k, v). (nkey k, v)) (entries t)) (nkey nk)"
proof (induction t)
  case (Tree a k v l r)
  have wf: "wf_neighbor k" using Tree.prems by simp
  have out: "x \<notin> set (tree_keys t') \<Longrightarrow> map_of (map (\<lambda>(a, k, v). (nkey k, v)) (entries t')) x = None" for x t'
    by (force simp: map_of_eq_None_iff tree_keys_def)
  from wf Tree.prems(2) show ?case
  proof (cases rule: compare_n_cases)
    case less
    with Tree.prems have "nkey nk \<notin> set (tree_keys l)" by (auto dest: order.strict_trans)
    moreover have "nkey nk \<noteq> nkey k" using less by auto
    ultimately show ?thesis using less Tree by (simp add: map_add_def out split: option.splits)
  next
    case eq
    with Tree.prems have "nkey nk \<notin> set (tree_keys l)" by auto
    with eq show ?thesis by (simp add: map_add_def out)
  next
    case greater
    with Tree.prems have "nkey nk \<notin> set (tree_keys r)" by (auto dest: order.strict_trans)
    moreover have "nkey nk \<noteq> nkey k" using greater by auto
    ultimately show ?thesis using greater Tree by (simp add: map_add_def out split: option.splits)
  qed
qed simp

section \<open>Removal\<close>

lemma remove_min_spec:
  assumes "left t \<noteq> Null" "t \<noteq> Null"
  shows "\<exists>ta tk tv tr t'. remove_min t = Some (Tree ta tk tv Null tr, t') \<and>
    entries t = (ta, tk, tv) # entries t' \<and> t' \<noteq> Null"
  using assms
proof (induction t rule: remove_min.induct)
  case (1 a k v la lk lv ll lr r)
  show ?case
  proof (cases "ll = Null")
    case False
    then obtain ta tk tv tr t' where
      "remove_min (Tree la lk lv ll lr) = Some (Tree ta tk tv Null tr, t')"
      "entries (Tree la lk lv ll lr) = (ta, tk, tv) # entries t'"
      using "1.IH" by auto
    with False show ?thesis by simp
  qed simp
qed auto

lemma filter_keys_id: "nk \<notin> set (tree_keys t) \<Longrightarrow> filter (\<lambda>e. entry_key e \<noteq> nk) (entries t) = entries t"
  by (induction t) auto

text \<open>
  Removal frees the message buffer of the entry it removes: \<open>w'\<close> is the world after that.
\<close>

lemma bst_cong: "entries t = entries t' \<Longrightarrow> bst t = bst t'"
  by (simp add: bst_def tree_keys_def)

lemma bst_filter: "bst t \<Longrightarrow> entries t' = filter P (entries t) \<Longrightarrow> bst t'"
  by (auto simp: bst_def tree_keys_def sorted_wrt_map sorted_wrt_filter)

definition buffers_alive :: "'z world_scheme \<Rightarrow> tree \<Rightarrow> bool" where
  "buffers_alive w t \<longleftrightarrow> (\<forall>e\<in>set (entries t). \<forall>b. msg (fst (snd e)) = Some b \<longrightarrow> msgs w b \<noteq> None)"

lemma buffers_alive_Tree [simp]:
  "buffers_alive w Null"
  "buffers_alive w (Tree a k v l r) \<longleftrightarrow>
     buffers_alive w l \<and> buffers_alive w r \<and> (\<forall>b. msg k = Some b \<longrightarrow> msgs w b \<noteq> None)"
  by (auto simp: buffers_alive_def)

definition buffer_freed :: "nkey \<Rightarrow> tree \<Rightarrow> 'z world_scheme \<Rightarrow> 'z world_scheme \<Rightarrow> bool" where
  "buffer_freed nk t w w' \<longleftrightarrow>
     (if nk \<in> set (tree_keys t)
      then \<exists>e\<in>set (entries t). entry_key e = nk \<and> free_msg (msg (fst (snd e))) w = Some w'
      else w' = w)"

lemma remove_neighbor_aux_spec:
  assumes "bst t" "wf_neighbor nk" "buffers_alive w t"
  shows "\<exists>t' w'. remove_neighbor_aux nk t w = Some (t', w') \<and>
    entries t' = filter (\<lambda>e. entry_key e \<noteq> nkey nk) (entries t) \<and>
    buffer_freed (nkey nk) t w w'"
  using assms(1,3)
proof (induction t)
  case (Tree a k v l r)
  have wf: "wf_neighbor k" using Tree.prems by simp
  from wf assms(2) show ?case
  proof (cases rule: compare_n_cases)
    case less
    then have l: "nkey nk \<notin> set (tree_keys l)" using Tree.prems(1) by (auto dest: order.strict_trans)
    have "bst r" "buffers_alive w r" using Tree.prems by simp_all
    from Tree.IH(2) [OF this] obtain r' w' where
      "remove_neighbor_aux nk r w = Some (r', w')"
      "entries r' = filter (\<lambda>e. entry_key e \<noteq> nkey nk) (entries r)"
      "buffer_freed (nkey nk) r w w'" by blast
    with less l show ?thesis by (auto simp: filter_keys_id buffer_freed_def)
  next
    case eq
    then have l: "nkey nk \<notin> set (tree_keys l)" "nkey nk \<notin> set (tree_keys r)" using Tree.prems(1) by auto
    have "free_msg (msg k) w \<noteq> None"
      using Tree.prems(2) by (auto simp: free_msg_def split: option.splits)
    then obtain w' where w': "free_msg (msg k) w = Some w'" by blast
    have "\<exists>t'. remove_neighbor_aux nk (Tree a k v l r) w = Some (t', w') \<and> entries t' = entries l @ entries r"
    proof (cases r)
      case Null
      then show ?thesis using eq w' by simp
    next
      case (Tree ra rk rv rl rr)
      show ?thesis
      proof (cases "rl = Null")
        case True
        then show ?thesis using eq w' Tree by simp
      next
        case False
        then obtain ta tk tv tr t' where "remove_min r = Some (Tree ta tk tv Null tr, t')"
          "entries r = (ta, tk, tv) # entries t'"
          using remove_min_spec [of r] Tree by auto
        then show ?thesis using eq w' Tree False by simp
      qed
    qed
    with eq w' l show ?thesis by (auto simp: filter_keys_id buffer_freed_def)
  next
    case greater
    then have r: "nkey nk \<notin> set (tree_keys r)" using Tree.prems(1) by (auto dest: order.strict_trans)
    have "bst l" "buffers_alive w l" using Tree.prems by simp_all
    from Tree.IH(1) [OF this] obtain l' w' where
      "remove_neighbor_aux nk l w = Some (l', w')"
      "entries l' = filter (\<lambda>e. entry_key e \<noteq> nkey nk) (entries l)"
      "buffer_freed (nkey nk) l w w'" by blast
    with greater r show ?thesis by (auto simp: filter_keys_id buffer_freed_def)
  qed
qed (simp add: buffer_freed_def)

section \<open>Selections\<close>

text \<open>
  \<open>find_by\<close> walks the tree in order and appends one list entry per selected node; each
  evaluation of the predicate and each new entry reads the clock.  \<open>selected w es new w'\<close>
  says what the entries \<open>new\<close> chosen among \<open>es\<close> look like.
\<close>

abbreviation entry_ptr :: "addr \<times> neighbor \<times> ident \<Rightarrow> nptr" where
  "entry_ptr e \<equiv> Key (fst e) (fst (snd e))"

definition selected :: "'z world_scheme \<Rightarrow> (addr \<times> neighbor \<times> ident) list \<Rightarrow> (addr \<times> ngb_entry) list
    \<Rightarrow> 'z world_scheme \<Rightarrow> bool" where
  "selected w es new w' \<longleftrightarrow>
     w\<lparr>next_addr := next_addr w', ticks := ticks w'\<rparr> = w' \<and>
     next_addr w \<le> next_addr w' \<and> ticks w \<le> ticks w' \<and>
     subseq (map (sym \<circ> snd) new) (map entry_ptr es) \<and>
     sorted_wrt (<) (map fst new) \<and>
     (\<forall>x\<in>set new. next_addr w \<le> fst x \<and> fst x < next_addr w' \<and> times_sent (snd x) = 0) \<and>
     (clock_ok w \<longrightarrow>
        sorted (map (wait_until \<circ> snd) new) \<and>
        (\<forall>x\<in>set new. 1 + clock w (ticks w) \<le> wait_until (snd x) \<and>
                     wait_until (snd x) \<le> 1 + clock w (ticks w')))"

lemma selected_world:
  assumes "selected w es new w'"
  shows "clock w' = clock w" "alloc_ok w' = alloc_ok w" "msgs w' = msgs w"
proof -
  have eq: "w\<lparr>next_addr := next_addr w', ticks := ticks w'\<rparr> = w'"
    using assms by (simp add: selected_def)
  show "clock w' = clock w" "alloc_ok w' = alloc_ok w" "msgs w' = msgs w"
    using arg_cong [OF eq, of clock] arg_cong [OF eq, of alloc_ok] arg_cong [OF eq, of msgs] by simp_all
qed

lemma clock_mono: "clock_ok w \<Longrightarrow> m \<le> n \<Longrightarrow> clock w m \<le> clock w n"
  by (simp add: clock_ok_def)

lemma selected_append:
  assumes 1: "selected w es1 new1 w1" and 2: "selected w1 es2 new2 w2"
  shows "selected w (es1 @ es2) (new1 @ new2) w2"
proof -
  have c: "clock w1 = clock w" by (rule selected_world(1) [OF 1])
  then have ok: "clock_ok w1 = clock_ok w" by (simp add: clock_ok_def)
  have "w\<lparr>next_addr := next_addr w2, ticks := ticks w2\<rparr> = w2"
  proof -
    have "w1 = w\<lparr>next_addr := next_addr w1, ticks := ticks w1\<rparr>"
      and "w2 = w1\<lparr>next_addr := next_addr w2, ticks := ticks w2\<rparr>"
      using 1 2 by (simp_all add: selected_def)
    then have "w2 = w\<lparr>next_addr := next_addr w1, ticks := ticks w1\<rparr>\<lparr>next_addr := next_addr w2, ticks := ticks w2\<rparr>"
      by metis
    then show ?thesis by simp
  qed
  moreover have "clock_ok w \<Longrightarrow> sorted (map (wait_until \<circ> snd) (new1 @ new2)) \<and>
      (\<forall>x\<in>set (new1 @ new2). 1 + clock w (ticks w) \<le> wait_until (snd x) \<and>
                     wait_until (snd x) \<le> 1 + clock w (ticks w2))"
  proof -
    assume k: "clock_ok w"
    have t: "clock w (ticks w) \<le> clock w (ticks w1)" "clock w (ticks w1) \<le> clock w (ticks w2)"
      using 1 2 k by (auto simp: selected_def clock_mono)
    have b1: "\<forall>x\<in>set new1. 1 + clock w (ticks w) \<le> wait_until (snd x) \<and> wait_until (snd x) \<le> 1 + clock w (ticks w1)"
      and b2: "\<forall>x\<in>set new2. 1 + clock w (ticks w1) \<le> wait_until (snd x) \<and> wait_until (snd x) \<le> 1 + clock w (ticks w2)"
      and s: "sorted (map (wait_until \<circ> snd) new1)" "sorted (map (wait_until \<circ> snd) new2)"
      using 1 2 k c ok unfolding selected_def by auto
    have le: "x \<le> y" if "x \<in> set (map (wait_until \<circ> snd) new1)" "y \<in> set (map (wait_until \<circ> snd) new2)" for x y
      using b1 b2 that by fastforce
    have "sorted (map (wait_until \<circ> snd) (new1 @ new2))"
      using s le by (simp only: map_append sorted_append) blast
    moreover have "\<forall>x\<in>set (new1 @ new2). 1 + clock w (ticks w) \<le> wait_until (snd x) \<and>
                     wait_until (snd x) \<le> 1 + clock w (ticks w2)"
      using b1 b2 t by (metis (no_types, lifting) Un_iff add_left_mono order_trans set_append)
    ultimately show ?thesis by blast
  qed
  moreover have "sorted_wrt (<) (map fst (new1 @ new2))"
    using 1 2 unfolding selected_def by (fastforce simp: sorted_wrt_append)
  moreover have "subseq (map (sym \<circ> snd) (new1 @ new2)) (map entry_ptr (es1 @ es2))"
    using 1 2 unfolding selected_def by (simp add: list_emb_append_mono)
  moreover have "\<forall>x\<in>set (new1 @ new2). next_addr w \<le> fst x \<and> fst x < next_addr w2 \<and> times_sent (snd x) = 0"
    using 1 2 unfolding selected_def by fastforce
  ultimately show ?thesis using 1 2 unfolding selected_def by simp
qed

lemma selected_tick: "selected w [e] [] (w\<lparr>ticks := Suc (ticks w)\<rparr>)"
  by (simp add: selected_def)

lemma selected_nomem: "selected w [e] [] (w\<lparr>next_addr := Suc (next_addr w)\<rparr>)"
  by (simp add: selected_def)

lemma selected_world_step:
  "selected w [] [] (w\<lparr>ticks := Suc (ticks w)\<rparr>)" "selected w [] [] (w\<lparr>next_addr := Suc (next_addr w)\<rparr>)"
  by (simp_all add: selected_def)

lemma init_ngb_entry_0:
  "init_ngb_entry p 0 w =
     (if alloc_ok w (next_addr w)
      then Some (Some \<lparr>sym = p, times_sent = 0, wait_until = 1 + to_int (clock w (ticks w))\<rparr>,
                 w\<lparr>next_addr := Suc (next_addr w), ticks := Suc (ticks w)\<rparr>)
      else Some (None, w\<lparr>next_addr := Suc (next_addr w)\<rparr>))"
  by (simp add: init_ngb_entry_def malloc_def get_seconds_def)

lemma selected_entry:
  assumes "init_ngb_entry (entry_ptr e) 0 w = Some (Some x, w1)" "addLast lst x w1 = (r, lst', w')"
  shows "\<exists>new. selected w [e] new w' \<and> nodes lst' = nodes lst @ new \<and>
    list_length lst' = list_length lst + of_nat (length new) \<and> (malloc_ok w \<longrightarrow> map (sym \<circ> snd) new = [entry_ptr e])"
proof -
  have x: "x = \<lparr>sym = entry_ptr e, times_sent = 0, wait_until = 1 + to_int (clock w (ticks w))\<rparr>"
    and w1: "w1 = w\<lparr>next_addr := Suc (next_addr w), ticks := Suc (ticks w)\<rparr>"
    using assms(1) by (auto simp: init_ngb_entry_0 split: if_splits)
  have clk: "clock_ok w \<Longrightarrow> 0 \<le> clock w n \<and> clock w n < 2 ^ 31 - 64" for n
    by (simp add: clock_ok_def)
  have ti: "clock_ok w \<Longrightarrow> to_int (clock w (ticks w)) = clock w (ticks w)"
    using clk [of "ticks w"] by (intro to_int_small) auto
  from assms(2) show ?thesis
  proof (cases rule: addLast_cases)
    case full
    then have "selected w [e] [] w'" "\<not> malloc_ok w"
      by (auto simp: malloc_def w1 selected_def malloc_ok_def split: if_splits)
    with full show ?thesis by auto
  next
    case (ok p)
    then have p: "p = Suc (next_addr w)"
      "w' = w\<lparr>next_addr := Suc (Suc (next_addr w)), ticks := Suc (ticks w)\<rparr>"
      by (auto simp: malloc_def w1 split: if_splits)
    have "selected w [e] [(p, x)] w'"
      using clock_mono [of w "ticks w" "Suc (ticks w)"]
      by (simp add: selected_def p x ti)
    with ok show ?thesis by (intro exI [of _ "[(p, x)]"]) (simp add: x)
  qed
qed

text \<open>A predicate that does nothing but read the clock once.\<close>

definition reads_clock :: "(ident \<Rightarrow> 'z world_scheme \<Rightarrow> bool \<times> 'z world_scheme) \<Rightarrow> bool" where
  "reads_clock f \<longleftrightarrow> (\<forall>v w. snd (f v w) = w\<lparr>ticks := Suc (ticks w)\<rparr>)"

lemma reads_clock_issymmetrical: "reads_clock issymmetrical"
  by (simp add: reads_clock_def issymmetrical_def get_seconds_def)

lemma reads_clock_is_old: "reads_clock is_old"
  by (simp add: reads_clock_def is_old_def get_seconds_def)

lemma find_by_aux_spec:
  assumes "reads_clock f"
  shows "\<exists>new lst' w'. find_by_aux t f lst w = Some (lst', w') \<and> selected w (entries t) new w' \<and>
    nodes lst' = nodes lst @ new \<and> list_length lst' = list_length lst + of_nat (length new)"
proof (induction t arbitrary: lst w)
  case Null
  then show ?case by (auto simp: selected_def)
next
  case (Tree a k v l r)
  obtain newl lst1 w1 where l: "find_by_aux l f lst w = Some (lst1, w1)" "selected w (entries l) newl w1"
    "nodes lst1 = nodes lst @ newl" "list_length lst1 = list_length lst + of_nat (length newl)"
    using Tree.IH(1) by blast
  obtain b where b: "f v w1 = (b, w1\<lparr>ticks := Suc (ticks w1)\<rparr>)"
    using assms unfolding reads_clock_def by (metis prod.collapse)
  let ?w2 = "w1\<lparr>ticks := Suc (ticks w1)\<rparr>"
  have mid: "\<exists>new lst2 w3. (if b then
                    do { (ent, w3) \<leftarrow> init_ngb_entry (Key a k) 0 ?w2;
                         case ent of
                           None \<Rightarrow> Some (lst1, w3)
                         | Some e \<Rightarrow> (let (_, lst2, w4) = addLast lst1 e w3 in Some (lst2, w4)) }
                  else Some (lst1, ?w2)) = Some (lst2, w3) \<and> selected w1 [(a, k, v)] new w3 \<and>
      nodes lst2 = nodes lst1 @ new \<and> list_length lst2 = list_length lst1 + of_nat (length new)"
  proof (cases b)
    case False
    then show ?thesis using selected_tick [of w1 "(a, k, v)"] by auto
  next
    case True
    have "init_ngb_entry (Key a k) 0 ?w2 \<noteq> None" by (simp add: init_ngb_entry_0)
    then obtain ent w3 where i: "init_ngb_entry (Key a k) 0 ?w2 = Some (ent, w3)" by auto
    show ?thesis
    proof (cases ent)
      case None
      then have "w3 = ?w2\<lparr>next_addr := Suc (next_addr ?w2)\<rparr>"
        using i by (auto simp: init_ngb_entry_0 split: if_splits)
      then have "selected w1 ([(a, k, v)] @ []) ([] @ []) w3"
        using selected_append [OF selected_tick selected_world_step(2)] by metis
      then show ?thesis using True None i by auto
    next
      case (Some x)
      obtain rr lst2 w4 where add: "addLast lst1 x w3 = (rr, lst2, w4)" by (metis prod_cases3)
      from selected_entry [of "(a, k, v)" ?w2 x w3 lst1 rr lst2 w4] i Some add
      obtain new where n: "selected ?w2 [(a, k, v)] new w4" "nodes lst2 = nodes lst1 @ new"
        "list_length lst2 = list_length lst1 + of_nat (length new)" by auto
      have "selected w1 ([] @ [(a, k, v)]) ([] @ new) w4"
        by (rule selected_append [OF selected_world_step(1) n(1)])
      then show ?thesis using True Some i add n by auto
    qed
  qed
  then obtain newm lst2 w3 where m: "(if b then
                    do { (ent, w3) \<leftarrow> init_ngb_entry (Key a k) 0 ?w2;
                         case ent of
                           None \<Rightarrow> Some (lst1, w3)
                         | Some e \<Rightarrow> (let (_, lst2, w4) = addLast lst1 e w3 in Some (lst2, w4)) }
                  else Some (lst1, ?w2)) = Some (lst2, w3)" "selected w1 [(a, k, v)] newm w3"
      "nodes lst2 = nodes lst1 @ newm" "list_length lst2 = list_length lst1 + of_nat (length newm)"
    by blast
  obtain newr lst3 w4 where r: "find_by_aux r f lst2 w3 = Some (lst3, w4)" "selected w3 (entries r) newr w4"
    "nodes lst3 = nodes lst2 @ newr" "list_length lst3 = list_length lst2 + of_nat (length newr)"
    using Tree.IH(2) by blast
  have "selected w (entries l @ [(a, k, v)] @ entries r) (newl @ newm @ newr) w4"
    by (rule selected_append [OF l(2) selected_append [OF m(2) r(2)]])
  then show ?case using l m r b by (simp add: Let_def add.assoc)
qed

text \<open>
  With memory at hand and a predicate that says the same at every moment of the walk, the
  selection is a filter.  \<open>clock_reads c w w'\<close>: every reading of the clock from \<open>w\<close> to \<open>w'\<close> gave \<open>c\<close>.
\<close>

definition clock_reads :: "int \<Rightarrow> 'z world_scheme \<Rightarrow> 'z world_scheme \<Rightarrow> bool" where
  "clock_reads c w w' \<longleftrightarrow> (\<forall>i. ticks w \<le> i \<and> i < ticks w' \<longrightarrow> clock w i = c)"

lemma clock_reads_part:
  "clock_reads c w w' \<Longrightarrow> clock u = clock w \<Longrightarrow> ticks w \<le> ticks u \<Longrightarrow> ticks u' \<le> ticks w' \<Longrightarrow> clock_reads c u u'"
  by (auto simp: clock_reads_def)

lemma clock_reads_at: "clock_reads c w w' \<Longrightarrow> ticks w \<le> i \<Longrightarrow> i < ticks w' \<Longrightarrow> clock w i = c"
  by (simp add: clock_reads_def)

lemma find_by_aux_filter:
  assumes "reads_clock f" "\<And>v u. clock u = clock w \<Longrightarrow> ticks w \<le> ticks u \<Longrightarrow> ticks u < ticks w' \<Longrightarrow> fst (f v u) = P v"
    and "malloc_ok w" "find_by_aux t f lst w = Some (lst', w')"
  shows "map sym (contents lst') = map sym (contents lst) @ map entry_ptr (filter (\<lambda>(a, k, v). P v) (entries t))"
  using assms(2-4)
proof (induction t arbitrary: lst w lst' w')
  case Null
  then show ?case by simp
next
  case (Tree a k v l r)
  obtain newl lst1 w1 where l: "find_by_aux l f lst w = Some (lst1, w1)" "selected w (entries l) newl w1"
    using find_by_aux_spec [OF assms(1)] by blast
  have w1: "clock w1 = clock w" "malloc_ok w1" "ticks w \<le> ticks w1"
    using selected_world [OF l(2)] l(2) Tree.prems(2) by (auto simp: malloc_ok_def selected_def)
  let ?w2 = "w1\<lparr>ticks := Suc (ticks w1)\<rparr>"
  have later: "ticks w2 \<le> ticks w'" if "find_by_aux r f lst2 w2 = Some (lst', w')" for lst2 w2
    using find_by_aux_spec [OF assms(1), of r lst2 w2] that by (auto simp: selected_def)
  have rest: "map sym (contents lst') = map sym (contents lst1) @
      (if P v then [Key a k] else []) @ map entry_ptr (filter (\<lambda>(a, k, v). P v) (entries r)) \<and> ticks w1 < ticks w'"
  proof (cases "fst (f v w1)")
    case False
    then have b: "f v w1 = (False, ?w2)" using assms(1) by (intro prod_eqI) (simp_all add: reads_clock_def)
    then have "find_by_aux r f lst1 ?w2 = Some (lst', w')"
      using Tree.prems(3) l(1) by (simp add: Let_def)
    note 1 = this later [OF this]
    then have "\<not> P v" using Tree.prems(1) [of w1 v] w1 False by simp
    then show ?thesis using Tree.IH(2) [OF Tree.prems(1) _ 1(1)] w1 1(2) by (simp add: malloc_ok_def)
  next
    case True
    then have b: "f v w1 = (True, ?w2)" using assms(1) by (intro prod_eqI) (simp_all add: reads_clock_def)
    have "malloc_ok ?w2" using w1 by (simp add: malloc_ok_def)
    then obtain x w3 where x: "init_ngb_entry (Key a k) 0 ?w2 = Some (Some x, w3)" "malloc_ok w3"
      "clock w3 = clock w1" "sym x = Key a k" "ticks w3 = Suc (Suc (ticks w1))"
      by (simp add: init_ngb_entry_0 malloc_ok_def)
    then obtain p w4 where m: "malloc w3 = (Some p, w4)" "clock w4 = clock w3" "malloc_ok w4" "ticks w4 = ticks w3"
      by (simp add: malloc_def malloc_ok_def)
    then have add: "addLast lst1 x w3 = (1, lst1\<lparr>list_length := list_length lst1 + 1, nodes := nodes lst1 @ [(p, x)]\<rparr>, w4)"
      by (simp add: addLast_def)
    then have "find_by_aux r f (lst1\<lparr>list_length := list_length lst1 + 1, nodes := nodes lst1 @ [(p, x)]\<rparr>) w4 = Some (lst', w')"
      using Tree.prems(3) l(1) b x(1) by (simp add: Let_def)
    note 1 = this later [OF this]
    then have "P v" using Tree.prems(1) [of w1 v] w1 True m(4) x(5) by simp
    then show ?thesis using Tree.IH(2) [OF Tree.prems(1) m(3) 1(1)] w1 1(2) m x by (simp add: contents_def)
  qed
  have "map sym (contents lst1) = map sym (contents lst) @ map entry_ptr (filter (\<lambda>(a, k, v). P v) (entries l))"
    using Tree.IH(1) [OF Tree.prems(1,2) l(1)] rest by simp
  then show ?case using rest by simp
qed

section \<open>The interface: a table of neighbours\<close>

text \<open>
  What the protocol handlers rely on: a table whose entries have distinct ordered keys,
  with lookup, insertion (of a new entry or over an old one) and removal by key.  \<open>ins\<close> and
  \<open>del\<close> relate the table before and after a call that succeeded.
\<close>

locale neighbor_table =
  fixes ents :: "'t \<Rightarrow> 'e list"
    and key_of :: "'e \<Rightarrow> 'o::linorder"
    and val_of :: "'e \<Rightarrow> 'v"
    and key :: "'k \<Rightarrow> 'o"
    and wfk :: "'k \<Rightarrow> bool"
    and inv :: "'t \<Rightarrow> bool"
    and lookup :: "'t \<Rightarrow> 'k \<Rightarrow> 'v option"
    and ins :: "'t \<Rightarrow> 'k \<Rightarrow> 't \<Rightarrow> bool"
    and del :: "'t \<Rightarrow> 'k \<Rightarrow> 't \<Rightarrow> bool"
  assumes lookup_ents: "inv t \<Longrightarrow> wfk k \<Longrightarrow> lookup t k = map_of (map (\<lambda>e. (key_of e, val_of e)) (ents t)) (key k)"
    and ins_ents: "inv t \<Longrightarrow> wfk k \<Longrightarrow> ins t k t' \<Longrightarrow> inv t' \<and> key k \<in> key_of ` set (ents t') \<and>
      filter (\<lambda>e. key_of e \<noteq> key k) (ents t') = filter (\<lambda>e. key_of e \<noteq> key k) (ents t)"
    and del_ents: "inv t \<Longrightarrow> wfk k \<Longrightarrow> del t k t' \<Longrightarrow> inv t' \<and>
      ents t' = filter (\<lambda>e. key_of e \<noteq> key k) (ents t)"
begin

lemma lookup_filter:
  "key j \<noteq> key k \<Longrightarrow> inv t \<Longrightarrow> wfk j \<Longrightarrow> lookup t j =
     map_of (map (\<lambda>e. (key_of e, val_of e)) (filter (\<lambda>e. key_of e \<noteq> key k) (ents t))) (key j)"
proof -
  assume a: "key j \<noteq> key k" "inv t" "wfk j"
  have "map_of (map (\<lambda>e. (key_of e, val_of e)) es) (key j) =
     map_of (map (\<lambda>e. (key_of e, val_of e)) (filter (\<lambda>e. key_of e \<noteq> key k) es)) (key j)" for es
    using a(1) by (induction es) auto
  then show ?thesis using lookup_ents [OF a(2,3)] by simp
qed

lemma lookup_ins_same: "inv t \<Longrightarrow> wfk k \<Longrightarrow> ins t k t' \<Longrightarrow> lookup t' k \<noteq> None"
  using ins_ents [of t k t'] lookup_ents [of t' k] by (auto simp: map_of_eq_None_iff image_image)

lemma lookup_ins_other:
  "inv t \<Longrightarrow> wfk k \<Longrightarrow> wfk j \<Longrightarrow> key j \<noteq> key k \<Longrightarrow> ins t k t' \<Longrightarrow> lookup t' j = lookup t j"
  using ins_ents [of t k t'] lookup_filter [of j k t] lookup_filter [of j k t'] by simp

lemma lookup_del_same: "inv t \<Longrightarrow> wfk k \<Longrightarrow> del t k t' \<Longrightarrow> lookup t' k = None"
  using del_ents [of t k t'] lookup_ents [of t' k] by (auto simp: map_of_eq_None_iff)

lemma lookup_del_other:
  "inv t \<Longrightarrow> wfk k \<Longrightarrow> wfk j \<Longrightarrow> key j \<noteq> key k \<Longrightarrow> del t k t' \<Longrightarrow> lookup t' j = lookup t j"
  using del_ents [of t k t'] lookup_filter [of j k t] lookup_filter [of j k t'] by simp

lemma ins_del: "inv t \<Longrightarrow> wfk k \<Longrightarrow> ins t k t1 \<Longrightarrow> del t1 k t2 \<Longrightarrow> ents t2 = filter (\<lambda>e. key_of e \<noteq> key k) (ents t)"
  using ins_ents [of t k t1] del_ents [of t1 k t2] by simp

end

text \<open>The tree of \<open>abr.c\<close> is such a table, for worlds of any extension \<open>'z\<close>.\<close>

definition table_ins :: "'z itself \<Rightarrow> tree \<Rightarrow> neighbor \<Rightarrow> tree \<Rightarrow> bool" where
  "table_ins _ t k t' \<longleftrightarrow>
     (\<exists>nv (w :: 'z world_scheme) res w'. add_neighbor_aux t k nv w = Some (res, t', w') \<and> res \<noteq> 0)"

definition table_del :: "'z itself \<Rightarrow> tree \<Rightarrow> neighbor \<Rightarrow> tree \<Rightarrow> bool" where
  "table_del _ t k t' \<longleftrightarrow>
     (\<exists>(w :: 'z world_scheme) w'. buffers_alive w t \<and> remove_neighbor_aux k t w = Some (t', w'))"

lemma inserted_filter:
  assumes "bst t" "inserted nk nv w t res t' w'"
  shows "filter (\<lambda>e. entry_key e \<noteq> nkey nk) (entries t') = filter (\<lambda>e. entry_key e \<noteq> nkey nk) (entries t)"
    "res \<noteq> 0 \<Longrightarrow> nkey nk \<in> entry_key ` set (entries t')"
  using assms(2) by (auto simp: inserted_def)

interpretation nt: neighbor_table entries entry_key "\<lambda>e. snd (snd e)" nkey wf_neighbor bst get_ident
  "table_ins TYPE('z)" "table_del TYPE('z)"
proof (unfold_locales, goal_cases)
  case (1 t k)
  then show ?case by (simp add: get_ident_lookup split_def)
next
  case (2 t k t')
  then obtain nv res and w w' :: "'z world_scheme" where
    a: "add_neighbor_aux t k nv w = Some (res, t', w')" "res \<noteq> 0" by (auto simp: table_ins_def)
  then have "t \<noteq> Null" by auto
  from add_neighbor_aux_spec [OF 2(1) this 2(2), of nv w] a
  have "bst t'" "inserted k nv w t res t' w'" by auto
  then show ?case using inserted_filter [OF 2(1)] a(2) by blast
next
  case (3 t k t')
  then obtain w w' :: "'z world_scheme" where
    a: "buffers_alive w t" "remove_neighbor_aux k t w = Some (t', w')" by (auto simp: table_del_def)
  from remove_neighbor_aux_spec [OF 3(1,2) a(1)] a(2)
  have "entries t' = filter (\<lambda>e. entry_key e \<noteq> nkey k) (entries t)" by auto
  then show ?case using bst_filter [OF 3(1)] by simp
qed

lemma get_ident_split:
  assumes "bst t" "wf_neighbor nk" "entries t = pre @ (a, k, v) # post" "nkey k = nkey nk"
  shows "get_ident t nk = Some v"
proof -
  have "nkey nk \<notin> entry_key ` set pre"
    using bst_distinct_keys [OF assms(1)] assms(3,4) by (auto simp: tree_keys_def)
  then have "map_of (map (\<lambda>(a, k, v). (nkey k, v)) pre) (nkey nk) = None"
    by (force simp: map_of_eq_None_iff)
  then show ?thesis using assms by (simp add: get_ident_lookup map_add_def)
qed

lemma get_ident_None_iff:
  "bst t \<Longrightarrow> wf_neighbor nk \<Longrightarrow> get_ident t nk = None \<longleftrightarrow> nkey nk \<notin> set (tree_keys t)"
  by (auto simp: get_ident_lookup map_of_eq_None_iff tree_keys_def image_image split_def)

section \<open>Properties\<close>

text \<open>
  C20: \<open>add_neighbor_aux\<close> is a map update on the search tree.  It keeps the search order; an
  unknown neighbour gets a new node (result 1, or 0 and no change when memory is exhausted);
  a known one keeps its node and has its two hello times overwritten, nothing else (result 2);
  looking up any other neighbour gives what it gave before.
\<close>

theorem add_neighbor_aux_updates_map:
  fixes w :: "'z world_scheme"
  assumes "bst t" "t \<noteq> Null" "wf_neighbor nk"
  shows "\<exists>res t' w'. add_neighbor_aux t nk nv w = Some (res, t', w') \<and> bst t' \<and>
    (malloc_ok w \<longrightarrow> res = (if get_ident t nk = None then 1 else 2)) \<and>
    (res = 0 \<longrightarrow> entries t' = entries t) \<and>
    (res \<noteq> 0 \<longrightarrow> get_ident t' nk =
       Some (case get_ident t nk of
               None \<Rightarrow> (case nv of None \<Rightarrow> zero_ident | Some v \<Rightarrow> v)
             | Some v \<Rightarrow> merge_ident nv v)) \<and>
    (\<forall>j. wf_neighbor j \<and> nkey j \<noteq> nkey nk \<longrightarrow> get_ident t' j = get_ident t j)"
proof -
  from add_neighbor_aux_spec [OF assms, of nv w] obtain res t' w' where
    r: "add_neighbor_aux t nk nv w = Some (res, t', w')" "bst t'" "inserted nk nv w t res t' w'"
    by blast
  have new: "nkey nk \<notin> set (tree_keys t) \<Longrightarrow> get_ident t nk = None"
    using get_ident_None_iff [OF assms(1,3)] by simp
  have "\<forall>j. wf_neighbor j \<and> nkey j \<noteq> nkey nk \<longrightarrow> get_ident t' j = get_ident t j"
  proof (cases "res = 0")
    case True
    then have "entries t' = entries t" using r(3) by (simp add: inserted_def)
    then show ?thesis using get_ident_lookup assms(1) r(2) by simp
  next
    case False
    then have "table_ins TYPE('z) t nk t'" using r(1) by (auto simp: table_ins_def)
    then show ?thesis using nt.lookup_ins_other [OF assms(1,3)] by blast
  qed
  moreover have "res \<noteq> 0 \<longrightarrow> get_ident t' nk =
       Some (case get_ident t nk of
               None \<Rightarrow> (case nv of None \<Rightarrow> zero_ident | Some v \<Rightarrow> v)
             | Some v \<Rightarrow> merge_ident nv v)"
    using r(3) new get_ident_split [OF assms(1,3)] get_ident_split [OF r(2) assms(3)]
    by (auto simp: inserted_def)
  moreover have "res = 2 \<Longrightarrow> nkey nk \<in> set (tree_keys t)"
    using r(3) by (auto simp: inserted_def tree_keys_def)
  then have "malloc_ok w \<longrightarrow> res = (if get_ident t nk = None then 1 else 2)"
    using r(3) get_ident_None_iff [OF assms(1,3)] by (auto simp: inserted_def)
  moreover have "res = 0 \<longrightarrow> entries t' = entries t" using r(3) by (auto simp: inserted_def)
  ultimately show ?thesis using r(1,2) by blast
qed

definition sample_nb :: "u8 \<Rightarrow> ptr \<Rightarrow> neighbor" where
  "sample_nb n p = \<lparr>ip = replicate 15 0 @ [n], port = 1212, msg = p\<rparr>"

definition sample_ident :: "int \<Rightarrow> int \<Rightarrow> ident" where
  "sample_ident h l = \<lparr>ident_id = 9, last_hello = h, last_hello_long = l\<rparr>"

lemma wf_sample_nb [simp]: "wf_neighbor (sample_nb n p)"
  by (simp add: wf_neighbor_def sample_nb_def)

lemma nkey_sample_nb [simp]: "nkey (sample_nb n p) = nkey (sample_nb m q) \<longleftrightarrow> n = m" "nkey (sample_nb n p) < nkey (sample_nb m q) \<longleftrightarrow> n < m"
  by (auto simp: nkey_def sample_nb_def less_nkey_def numeral_eq_Suc)

definition sample_tree :: tree where
  "sample_tree = Tree 5 (sample_nb 2 None) (sample_ident 90 90) (Tree 3 (sample_nb 1 None) (sample_ident 50 0) Null Null) Null"

lemma bst_sample_tree: "bst sample_tree"
  by (simp add: sample_tree_def)

theorem add_neighbor_aux_updates_map_witness:
  "\<exists>t' w'. add_neighbor_aux sample_tree (sample_nb 1 None) (Some (sample_ident 70 70)) sample_world = Some (2, t', w') \<and>
     get_ident t' (sample_nb 1 None) = Some (sample_ident 70 70)"
proof -
  have g: "get_ident sample_tree (sample_nb 1 None) = Some (sample_ident 50 0)"
    by (simp add: get_ident_lookup [OF bst_sample_tree]) (simp add: sample_tree_def)
  have m: "malloc_ok sample_world" by (simp add: malloc_ok_def sample_world_def)
  have n: "sample_tree \<noteq> Null" by (simp add: sample_tree_def)
  have i: "merge_ident (Some (sample_ident 70 70)) (sample_ident 50 0) = sample_ident 70 70" by (simp add: merge_ident_def sample_ident_def)
  show ?thesis
    using add_neighbor_aux_updates_map [OF bst_sample_tree n wf_sample_nb, of 1 None "Some (sample_ident 70 70)" sample_world] g m i
    by auto
qed

text \<open>
  C21: \<open>remove_neighbor_aux\<close> removes exactly the node of the given neighbour, if there is one,
  in every case of the deletion (no right child, right child without a left child, or the
  leftmost node of the right subtree taking its place): the listing loses that entry and keeps
  all others in order with their key addresses, so pointers to other keys stay valid; the
  message buffer of the removed neighbour is freed, once.
\<close>

theorem remove_neighbor_aux_removes:
  fixes w :: "'z world_scheme"
  assumes "bst t" "wf_neighbor nk" "buffers_alive w t"
  shows "\<exists>t' w'. remove_neighbor_aux nk t w = Some (t', w') \<and> bst t' \<and>
    entries t' = filter (\<lambda>e. entry_key e \<noteq> nkey nk) (entries t) \<and>
    get_ident t' nk = None \<and>
    (\<forall>j. wf_neighbor j \<and> nkey j \<noteq> nkey nk \<longrightarrow> get_ident t' j = get_ident t j) \<and>
    buffer_freed (nkey nk) t w w'"
proof -
  from remove_neighbor_aux_spec [OF assms] obtain t' w' where
    r: "remove_neighbor_aux nk t w = Some (t', w')"
      "entries t' = filter (\<lambda>e. entry_key e \<noteq> nkey nk) (entries t)" "buffer_freed (nkey nk) t w w'"
    by blast
  have d: "table_del TYPE('z) t nk t'" using r(1) assms(3) by (auto simp: table_del_def)
  show ?thesis
    using r nt.del_ents [OF assms(1,2) d] nt.lookup_del_same [OF assms(1,2) d]
      nt.lookup_del_other [OF assms(1,2) _ _ d] by blast
qed

theorem remove_neighbor_aux_removes_witness:
  "\<exists>t' w'. remove_neighbor_aux (sample_nb 2 None) sample_tree sample_world = Some (t', w') \<and>
     entries t' = [(3, sample_nb 1 None, sample_ident 50 0)]"
proof -
  have b: "buffers_alive sample_world sample_tree" by (simp add: sample_tree_def sample_nb_def)
  show ?thesis
    using remove_neighbor_aux_removes [OF bst_sample_tree wf_sample_nb b, of 2 None]
    by (force simp: sample_tree_def)
qed

text \<open>
  C22: \<open>get_symmetrical\<close> returns, in the order of the tree, one entry for each neighbour whose
  last long hello is less than 120 seconds old and for no other, pointing to the key the tree
  owns, never sent yet and due one second later (while the clock stands at \<open>c\<close> and memory
  does not run out).
\<close>

theorem get_symmetrical_exact:
  assumes "malloc_ok w" "\<forall>n. clock w n = c" "0 \<le> c" "c < 2 ^ 31 - 64"
  shows "\<exists>l w'. get_symmetrical t w = Some (Some l, w') \<and> wf_clist l \<and>
    contents l = map (\<lambda>e. \<lparr>sym = entry_ptr e, times_sent = 0, wait_until = 1 + c\<rparr>)
                   (filter (\<lambda>(a, k, v). c - last_hello_long v < 120) (entries t))"
proof -
  have ck: "clock_ok w" using assms by (simp add: clock_ok_def)
  obtain p w1 where m: "malloc w = (Some p, w1)" "clock w1 = clock w" "malloc_ok w1"
    using assms(1) by (simp add: malloc_def malloc_ok_def)
  from find_by_aux_spec [OF reads_clock_issymmetrical, of t init_list w1] obtain new l w' where
    f: "find_by_aux t issymmetrical init_list w1 = Some (l, w')" "selected w1 (entries t) new w'"
       "nodes l = nodes init_list @ new" "list_length l = list_length (init_list :: ngb_entry clist) + of_nat (length new)"
    by blast
  have now: "fst (issymmetrical v u) = (c - last_hello_long v < 120)" if "clock u = clock w" for v and u :: "'a world_scheme"
    using that assms by (simp add: issymmetrical_def get_seconds_def to_int_small)
  have syms: "map sym (contents l) = map entry_ptr (filter (\<lambda>(a, k, v). c - last_hello_long v < 120) (entries t))"
    using find_by_aux_filter [OF reads_clock_issymmetrical now [OF trans [OF _ m(2)]] m(3) f(1)] by simp
  have ck1: "clock_ok w1" using ck m(2) by (simp add: clock_ok_def)
  have all: "times_sent x = 0 \<and> wait_until x = 1 + c" if "x \<in> set (contents l)" for x
    using f(2,3) that ck1 m(2) assms(2) unfolding selected_def contents_def init_list_def by force
  have "contents l = map (\<lambda>y. \<lparr>sym = y, times_sent = 0, wait_until = 1 + c\<rparr>) (map sym (contents l))"
    using all by (simp add: map_idI)
  then have "contents l = map (\<lambda>e. \<lparr>sym = entry_ptr e, times_sent = 0, wait_until = 1 + c\<rparr>)
                   (filter (\<lambda>(a, k, v). c - last_hello_long v < 120) (entries t))"
    unfolding syms by (simp add: comp_def)
  moreover have "wf_clist l" using f(3,4) by (simp add: wf_clist_def init_list_def)
  moreover have "get_symmetrical t w = Some (Some l, w')"
    using f(1) m(1) by (simp add: get_symmetrical_def find_by_def)
  ultimately show ?thesis by blast
qed

theorem get_symmetrical_exact_witness:
  "\<exists>l w'. get_symmetrical sample_tree sample_world = Some (Some l, w') \<and>
     contents l = [\<lparr>sym = Key 3 (sample_nb 1 None), times_sent = 0, wait_until = 101\<rparr>,
                   \<lparr>sym = Key 5 (sample_nb 2 None), times_sent = 0, wait_until = 101\<rparr>]"
  using get_symmetrical_exact [of sample_world 100 sample_tree]
  by (auto simp: sample_world_def malloc_ok_def sample_tree_def sample_ident_def)

end
