(* ===== verification/Tlv.thy ===== *)
theory Tlv
  imports Machine
begin

text \<open>
  The TLV writers of \<open>tlv.c\<close>.  A \<open>body\<close> pointer is an array and an offset into it; \<open>bufsize\<close>
  is what the caller claims the room is.  A writer returns the C result and the array, or
  \<open>None\<close> when it writes past the end of the array.
\<close>

section \<open>Writers\<close>

type_synonym written = "(int \<times> u8 list) option"

definition tlv_pad1 :: "u8 list \<Rightarrow> nat \<Rightarrow> size_t \<Rightarrow> written" where
  "tlv_pad1 buf off bufsize =
     (if bufsize > 0 then do { b \<leftarrow> poke off [0] buf; Some (1, b) } else Some (-1, buf))"

definition tlv_padN :: "u8 list \<Rightarrow> nat \<Rightarrow> size_t \<Rightarrow> u8 \<Rightarrow> written" where
  "tlv_padN buf off bufsize len =
     (if unat bufsize > unat len + 1 then
        do { b \<leftarrow> poke off [1] buf;
             b \<leftarrow> poke (off + 1) [len] b;
             b \<leftarrow> poke (off + 2) (replicate (unat len) 0) b;
             Some (int (unat len) + 2, b) }
      else Some (-1, buf))"

definition tlv_short_hello :: "u8 list \<Rightarrow> nat \<Rightarrow> size_t \<Rightarrow> u64 \<Rightarrow> written" where
  "tlv_short_hello buf off bufsize i =
     (if bufsize > 9 then
        do { b \<leftarrow> poke off [2] buf;
             b \<leftarrow> poke (off + 1) [8] b;
             b \<leftarrow> poke (off + 2) (le_bytes 8 i) b;
             Some (10, b) }
      else Some (-1, buf))"

definition tlv_long_hello :: "u8 list \<Rightarrow> nat \<Rightarrow> size_t \<Rightarrow> u64 \<Rightarrow> u64 \<Rightarrow> written" where
  "tlv_long_hello buf off bufsize source_id dest_id =
     (if bufsize > 15 then
        do { b \<leftarrow> poke off [2] buf;
             b \<leftarrow> poke (off + 1) [16] b;
             b \<leftarrow> poke (off + 2) (le_bytes 8 source_id) b;
             b \<leftarrow> poke (off + 2 + 8) (le_bytes 8 dest_id) b;
             Some (18, b) }
      else Some (-1, buf))"

definition tlv_neighbour :: "u8 list \<Rightarrow> nat \<Rightarrow> size_t \<Rightarrow> neighbor \<Rightarrow> written" where
  "tlv_neighbour buf off bufsize ngb =
     (if bufsize > 21 then
        do { b \<leftarrow> poke off [3] buf;
             b \<leftarrow> poke (off + 1) [18] b;
             b \<leftarrow> poke (off + 2) (ip ngb) b;
             b \<leftarrow> poke (off + 2 + 16) (le_bytes 2 (htons (port ngb))) b;
             Some (20, b) }
      else Some (-1, buf))"

text \<open>
  \<open>tlv_data\<close>: the length byte is the sum truncated to 8 bits, while the copy and the result
  use \<open>msg_size\<close> itself.  The nonce is four random bytes.
\<close>

definition tlv_data :: "u8 list \<Rightarrow> nat \<Rightarrow> size_t \<Rightarrow> u64 \<Rightarrow> u8 \<Rightarrow> u8 list \<Rightarrow> u8 \<Rightarrow> 'z world_scheme
    \<Rightarrow> (int \<times> u8 list \<times> 'z world_scheme) option" where
  "tlv_data buf off bufsize i ty data msg_size w =
     (let len = 8 + 4 + 1 + msg_size in
      if unat bufsize > unat len + 1 then
        (let (non, w1) = random_on_octets 4 w in
         do { b \<leftarrow> poke off [4] buf;
              b \<leftarrow> poke (off + 1) [len] b;
              b \<leftarrow> poke (off + 2) (le_bytes 8 i) b;
              b \<leftarrow> poke (off + 2 + 8) non b;
              b \<leftarrow> poke (off + 2 + 8 + 4) [ty] b;
              src \<leftarrow> peek data 0 (unat msg_size);
              b \<leftarrow> poke (off + 2 + 8 + 4 + 1) src b;
              Some (int (unat msg_size) + 15, b, w1) })
      else Some (-1, buf, w))"

definition tlv_ack :: "u8 list \<Rightarrow> nat \<Rightarrow> size_t \<Rightarrow> u64 \<Rightarrow> u32 \<Rightarrow> written" where
  "tlv_ack buf off bufsize i non =
     (let len = 8 + 4 in
      if unat bufsize > len + 1 then
        do { b \<leftarrow> poke off [5] buf;
             b \<leftarrow> poke (off + 1) [of_nat len] b;
             b \<leftarrow> poke (off + 2) (le_bytes 8 i) b;
             b \<leftarrow> poke (off + 2 + 8) (le_bytes 4 non) b;
             Some (8 + 4 + 2, b) }
      else Some (0, buf))"

definition tlv_goaway :: "u8 list \<Rightarrow> nat \<Rightarrow> size_t \<Rightarrow> u8 \<Rightarrow> u8 list \<Rightarrow> u8 \<Rightarrow> written" where
  "tlv_goaway buf off bufsize code text msg_size =
     (let len = 1 + msg_size in
      if unat bufsize > unat len + 1 then
        do { b \<leftarrow> poke off [6] buf;
             b \<leftarrow> poke (off + 1) [len] b;
             b \<leftarrow> poke (off + 2) [code] b;
             src \<leftarrow> peek text 0 (unat msg_size);
             b \<leftarrow> poke (off + 2 + 1) src b;
             Some (int (unat len) + 2, b) }
      else Some (-1, buf))"

definition tlv_warning :: "u8 list \<Rightarrow> nat \<Rightarrow> size_t \<Rightarrow> u8 list \<Rightarrow> u8 \<Rightarrow> written" where
  "tlv_warning buf off bufsize text msg_size =
     (if unat bufsize > unat msg_size + 1 then
        do { b \<leftarrow> poke off [7] buf;
             b \<leftarrow> poke (off + 1) [msg_size] b;
             src \<leftarrow> peek text 0 (unat msg_size);
             b \<leftarrow> poke (off + 2) src b;
             Some (1, b) }
      else Some (0, buf))"

section \<open>Each writer is one write of one TLV\<close>

lemma poke_chain:
  assumes "off' = off + length bs"
  shows "Option.bind (poke off bs buf) (\<lambda>b. Option.bind (poke off' cs b) k) =
   Option.bind (poke off (bs @ cs) buf) k"
  using assms by (simp add: poke_poke)

lemma poke_chain_map:
  assumes "off' = off + length bs"
  shows "Option.bind (poke off bs buf) (\<lambda>b. map_option g (poke off' cs b)) =
   map_option g (poke off (bs @ cs) buf)"
proof -
  have "map_option g m = Option.bind m (\<lambda>x. Some (g x))" for m
    by (cases m) auto
  then show ?thesis using assms by (simp add: poke_poke)
qed

lemma bind_written: "Option.bind m (\<lambda>b. Some (r, b)) = map_option (Pair r) m"
  by (cases m) auto

lemma bind_written_world: "Option.bind m (\<lambda>b. Some (r, b, w)) = map_option (\<lambda>b. (r, b, w)) m"
  by (cases m) auto

lemma bind_none: "Option.bind m (\<lambda>_. None) = None"
  by (cases m) auto

lemmas write_simps = poke_chain poke_chain_map bind_written bind_written_world bind_none Let_def

lemma tlv_pad1_eq:
  "tlv_pad1 buf off bufsize =
     (if bufsize > 0 then map_option (Pair 1) (poke off [0] buf) else Some (-1, buf))"
  by (simp add: tlv_pad1_def write_simps)

lemma tlv_padN_eq:
  "tlv_padN buf off bufsize len =
     (if unat bufsize > unat len + 1
      then map_option (Pair (int (unat len) + 2)) (poke off (1 # len # replicate (unat len) 0) buf)
      else Some (-1, buf))"
  by (simp add: tlv_padN_def write_simps)

lemma tlv_short_hello_eq:
  "tlv_short_hello buf off bufsize i =
     (if bufsize > 9 then map_option (Pair 10) (poke off (2 # 8 # le_bytes 8 i) buf) else Some (-1, buf))"
  by (simp add: tlv_short_hello_def write_simps)

lemma tlv_long_hello_eq:
  "tlv_long_hello buf off bufsize source_id dest_id =
     (if bufsize > 15
      then map_option (Pair 18) (poke off (2 # 16 # le_bytes 8 source_id @ le_bytes 8 dest_id) buf)
      else Some (-1, buf))"
  by (simp add: tlv_long_hello_def write_simps)

lemma tlv_neighbour_eq:
  "wf_neighbor ngb \<Longrightarrow> tlv_neighbour buf off bufsize ngb =
     (if bufsize > 21
      then map_option (Pair 20) (poke off (3 # 18 # ip ngb @ le_bytes 2 (htons (port ngb))) buf)
      else Some (-1, buf))"
  by (simp add: tlv_neighbour_def wf_neighbor_def write_simps)

lemma tlv_ack_eq:
  "tlv_ack buf off bufsize i non =
     (if unat bufsize > 13
      then map_option (Pair 14) (poke off (5 # 12 # le_bytes 8 i @ le_bytes 4 non) buf)
      else Some (0, buf))"
  by (simp add: tlv_ack_def write_simps)

lemma tlv_goaway_eq:
  "unat msg_size \<le> length text \<Longrightarrow> tlv_goaway buf off bufsize code text msg_size =
     (if unat bufsize > unat (1 + msg_size) + 1
      then map_option (Pair (int (unat (1 + msg_size)) + 2))
             (poke off (6 # (1 + msg_size) # code # take (unat msg_size) text) buf)
      else Some (-1, buf))"
  by (simp add: tlv_goaway_def peek_def write_simps)

lemma tlv_warning_eq:
  "unat msg_size \<le> length text \<Longrightarrow> tlv_warning buf off bufsize text msg_size =
     (if unat bufsize > unat msg_size + 1
      then map_option (Pair 1) (poke off (7 # msg_size # take (unat msg_size) text) buf)
      else Some (0, buf))"
  by (simp add: tlv_warning_def peek_def write_simps)

lemma tlv_data_eq:
  assumes "unat msg_size \<le> length data" "random_on_octets 4 w = (non, w1)"
  shows "tlv_data buf off bufsize i ty data msg_size w =
     (if unat bufsize > unat (13 + msg_size) + 1
      then map_option (\<lambda>b. (int (unat msg_size) + 15, b, w1))
             (poke off (4 # (13 + msg_size) # le_bytes 8 i @ non @ ty # take (unat msg_size) data) buf)
      else Some (-1, buf, w))"
  using assms length_random_on_octets [OF assms(2)]
  by (simp add: tlv_data_def peek_def write_simps)

section \<open>Properties\<close>

text \<open>A call stays inside the room it was given: bytes outside of it are as before.\<close>

definition stays_within :: "u8 list \<Rightarrow> nat \<Rightarrow> size_t \<Rightarrow> (int \<times> u8 list) option \<Rightarrow> bool" where
  "stays_within buf off bufsize res \<longleftrightarrow>
     (\<exists>r b. res = Some (r, b) \<and> length b = length buf \<and> take off b = take off buf \<and>
        drop (off + unat bufsize) b = drop (off + unat bufsize) buf)"

lemma stays_within_poke:
  assumes "off + unat bufsize \<le> length buf" "length bs \<le> unat bufsize"
  shows "stays_within buf off bufsize (map_option (Pair r) (poke off bs buf))"
proof -
  have p: "poke off bs buf = Some (take off buf @ bs @ drop (off + length bs) buf)"
    using assms by (simp add: poke_def)
  have "drop (off + unat bufsize) (take off buf @ bs @ drop (off + length bs) buf) = drop (off + unat bufsize) buf"
    using assms by (simp add: add.commute)
  then show ?thesis using p assms by (simp add: stays_within_def)
qed

lemma stays_within_same: "stays_within buf off bufsize (Some (r, buf))"
  by (simp add: stays_within_def)

lemma unat_8_add: "unat (a :: u8) + unat b < 256 \<Longrightarrow> unat (a + b) = unat a + unat b"
  by (simp add: unat_word_ariths)

text \<open>
  C24: when the announced room is really there, the TLV writers do not write outside of it,
  whatever the values are: for a go-away the text must have at most 254 bytes, for data at most
  242, for a warning any length will do.  (Beyond these limits the 8-bit length wraps and the test
  for room lets too much through: \<open>tlv_length_wraps\<close>; the long hello has its own property.)
\<close>

theorem tlv_writers_in_bounds:
  assumes "off + unat bufsize \<le> length buf" "wf_neighbor ngb"
    and go: "unat g \<le> length bye" "unat g \<le> 254" and wa: "unat m \<le> length warn"
    and da: "unat n \<le> length text" "unat n \<le> 242"
  shows "stays_within buf off bufsize (tlv_pad1 buf off bufsize) \<and>
    stays_within buf off bufsize (tlv_padN buf off bufsize len) \<and>
    stays_within buf off bufsize (tlv_short_hello buf off bufsize i) \<and>
    stays_within buf off bufsize (tlv_neighbour buf off bufsize ngb) \<and>
    stays_within buf off bufsize (tlv_ack buf off bufsize i non) \<and>
    stays_within buf off bufsize (tlv_goaway buf off bufsize code bye g) \<and>
    stays_within buf off bufsize (tlv_warning buf off bufsize warn m) \<and>
    stays_within buf off bufsize (map_option (\<lambda>(r, b, w'). (r, b)) (tlv_data buf off bufsize i ty text n w))"
proof -
  obtain nonc w1 where r: "random_on_octets 4 w = (nonc, w1)" by fastforce
  have l4: "length nonc = 4" by (rule length_random_on_octets [OF r])
  have n1: "unat (1 + g) = unat g + 1" and n13: "unat (13 + n) = unat n + 13"
    using go(2) da(2) by (simp_all add: unat_8_add)
  have wf: "length (ip ngb) = 16" using assms(2) by (simp add: wf_neighbor_def)
  have d: "map_option (\<lambda>(r, b, w'). (r, b)) (tlv_data buf off bufsize i ty text n w) =
     (if unat bufsize > unat n + 14
      then map_option (Pair (int (unat n) + 15)) (poke off (4 # (13 + n) # le_bytes 8 i @ nonc @ ty # take (unat n) text) buf)
      else Some (-1, buf))"
    using da(1) r n13 by (simp add: tlv_data_eq option.map_comp comp_def)
  show ?thesis
    unfolding d tlv_pad1_eq tlv_padN_eq tlv_short_hello_eq tlv_neighbour_eq [OF assms(2)] tlv_ack_eq
      tlv_goaway_eq [OF go(1)] tlv_warning_eq [OF wa]
    using assms(1) go(1) wa da(1) wf l4 n1
    by (auto intro!: stays_within_poke stays_within_same simp: word_less_nat_alt)
qed

theorem tlv_writers_in_bounds_witness:
  "stays_within (replicate 40 0) 5 30 (tlv_ack (replicate 40 0) 5 30 77 99)"
proof -
  have wf: "wf_neighbor \<lparr>ip = replicate 16 0, port = 1, msg = None\<rparr>" by (simp add: wf_neighbor_def)
  show ?thesis using tlv_writers_in_bounds
      [where off = 5 and bufsize = 30 and buf = "replicate 40 0" and g = 0 and bye = "[]" and m = 0 and warn = "[]"
       and n = 0 and ?text = "[]" and i = 77 and non = 99
       and ngb = "\<lparr>ip = replicate 16 0, port = 1, msg = None\<rparr>"
       and len = 0 and code = 0 and ty = 0] wf
    by auto
qed

text \<open>
  C37: \<open>tlv_long_hello\<close> tests \<open>bufsize>15\<close> but writes 18 bytes.  On a buffer of exactly
  \<open>bufsize\<close> bytes it overflows for the two sizes 16 and 17, and for no other.
\<close>

theorem tlv_long_hello_overflow:
  assumes "length buf = unat bufsize"
  shows "tlv_long_hello buf 0 bufsize source_id dest_id = None \<longleftrightarrow> bufsize = 16 \<or> bufsize = 17"
proof -
  have "tlv_long_hello buf 0 bufsize source_id dest_id = None \<longleftrightarrow> 15 < unat bufsize \<and> unat bufsize < 18"
    using assms by (auto simp: tlv_long_hello_eq poke_None_iff word_less_nat_alt)
  also have "\<dots> \<longleftrightarrow> unat bufsize = unat (16 :: size_t) \<or> unat bufsize = unat (17 :: size_t)"
    by auto
  also have "\<dots> \<longleftrightarrow> bufsize = 16 \<or> bufsize = 17"
    by (simp only: word_unat_eq_iff)
  finally show ?thesis .
qed

theorem tlv_long_hello_overflow_witness: "tlv_long_hello (replicate 17 0) 0 17 1 2 = None"
  using tlv_long_hello_overflow [of "replicate 17 0" 17 1 2] by simp

text \<open>Longer texts: the length byte wraps around, and the writer leaves a room it finds large enough.\<close>

lemma tlv_length_wraps:
  assumes "length buf = unat bufsize"
  shows "unat n \<le> length text \<Longrightarrow> 243 \<le> unat n \<Longrightarrow> unat n < unat bufsize + 241 \<Longrightarrow> unat bufsize < unat n + 15 \<Longrightarrow>
      tlv_data buf 0 bufsize i ty text n w = None"
    and "length bye = 255 \<Longrightarrow> 1 < unat bufsize \<Longrightarrow> unat bufsize < 258 \<Longrightarrow> tlv_goaway buf 0 bufsize code bye 255 = None"
proof -
  assume n: "unat n \<le> length text" "243 \<le> unat n" "unat n < unat bufsize + 241" "unat bufsize < unat n + 15"
  obtain nonc w1 where r: "random_on_octets 4 w = (nonc, w1)" by fastforce
  have l4: "length nonc = 4" by (rule length_random_on_octets [OF r])
  have "unat n < 256" using unsigned_less [of n] by simp
  then have "unat (13 + n) = unat n - 243" using n(2) by (simp add: unat_word_ariths mod_if)
  then show "tlv_data buf 0 bufsize i ty text n w = None"
    using n l4 assms by (simp add: tlv_data_eq [OF n(1) r] poke_def)
qed (use assms in \<open>simp add: tlv_goaway_eq poke_def\<close>)

text \<open>
  C25: what \<open>tlv_data\<close> puts on the wire.  It succeeds exactly as one write of type 4, the length
  byte, identifier, nonce, data type and text, and the length byte describes what was written
  (so that a receiver finds the next TLV) exactly when the text has at most 242 bytes; from 243
  on, the 8-bit sum wraps around.
\<close>

theorem tlv_data_encoding:
  assumes "off + 270 \<le> length buf" "unat bufsize = length buf - off" "unat n \<le> length text"
  shows "\<exists>b non w1. tlv_data buf off bufsize i ty text n w = Some (int (unat n) + 15, b, w1) \<and>
    peek b off (unat n + 15) = Some (4 # (13 + n) # le_bytes 8 i @ non @ ty # take (unat n) text) \<and>
    length non = 4 \<and> length b = length buf \<and>
    (unat (b ! (off + 1)) + 2 = unat n + 15 \<longleftrightarrow> unat n \<le> 242)"
proof -
  obtain non w1 where r: "random_on_octets 4 w = (non, w1)" by fastforce
  have l4: "length non = 4" by (rule length_random_on_octets [OF r])
  let ?bs = "4 # (13 + n) # le_bytes 8 i @ non @ ty # take (unat n) text"
  have lbs: "length ?bs = unat n + 15" using l4 assms(3) by simp
  have n: "unat n < 256" "unat (13 + n) < 256" using unsigned_less [of n] unsigned_less [of "13 + n"] by simp_all
  then obtain b where b: "poke off ?bs buf = Some b"
    using assms(1) lbs by (simp add: poke_def)
  have d: "tlv_data buf off bufsize i ty text n w = Some (int (unat n) + 15, b, w1)"
  proof -
    have "unat bufsize > unat (13 + n) + 1" using assms(1,2) n by linarith
    then show ?thesis using tlv_data_eq [OF assms(3) r, of buf off bufsize i ty] b by simp
  qed
  have "b ! (off + 1) = 13 + n"
    using b assms(1) by (auto simp: poke_Some_iff nth_append)
  moreover have "unat (13 + n) + 2 = unat n + 15 \<longleftrightarrow> unat n \<le> 242"
    using n(1) by (auto simp: unat_word_ariths)
  ultimately show ?thesis
    using d peek_poke_same [OF b lbs [symmetric]] l4 poke_length [OF b] by auto
qed

theorem tlv_data_encoding_witness:
  "\<forall>w :: world. \<exists>b w1. tlv_data (replicate 300 0) 0 300 1 0 (replicate 250 65) 250 w = Some (265, b, w1) \<and>
     unat (b ! 1) + 2 \<noteq> 265"
proof
  fix w :: world
  show "\<exists>b w1. tlv_data (replicate 300 0) 0 300 1 0 (replicate 250 65) 250 w = Some (265, b, w1) \<and>
     unat (b ! 1) + 2 \<noteq> 265"
    using tlv_data_encoding [of 0 "replicate 300 0" 300 250 "replicate 250 65" 1 0 w] by auto
qed

end
