(* ===== verification/NetLib.thy ===== *)
theory NetLib
  imports Abr_Laws Tlv
begin

text \<open>
  The sending half of \<open>net_lib.c\<close>: conversion between neighbours and socket addresses, the
  per-neighbour message buffer that \<open>send_message\<close> fills, and the functions that send one
  message to every node of a tree.  A neighbour passed by value carries the pointer to the
  shared buffer, so the buffers live in \<open>msgs\<close>.  \<open>sent\<close> records, in order, every datagram
  handed to \<open>sendto\<close>.
\<close>

section \<open>Addresses\<close>

definition AF_INET6 :: nat where "AF_INET6 = 10"

definition sockaddr6_to_neighbor :: "sockaddr_in6 \<Rightarrow> neighbor" where
  "sockaddr6_to_neighbor saddr =
     \<lparr>ip = sin6_addr saddr, port = ntohs (sin6_port saddr), msg = None\<rparr>"

definition neighbor_to_sockaddr6 :: "neighbor \<Rightarrow> sockaddr_in6" where
  "neighbor_to_sockaddr6 n =
     \<lparr>sin6_family = AF_INET6, sin6_port = htons (port n), sin6_flowinfo = 0,
      sin6_addr = ip n, sin6_scope_id = 0\<rparr>"

section \<open>Sending\<close>

text \<open>\<open>taille\<close> bytes are read from the buffer: reading past its end is undefined.\<close>

definition send_message_now :: "u8 list \<Rightarrow> nat \<Rightarrow> neighbor \<Rightarrow> 'z world_scheme \<Rightarrow> (int \<times> 'z world_scheme) option" where
  "send_message_now buf taille rcpt w =
     do { bs \<leftarrow> peek buf 0 taille;
          Some (send_rc w (length (sent w)), w\<lparr>sent := sent w @ [(neighbor_to_sockaddr6 rcpt, bs)]\<rparr>) }"

definition send_message :: "message_h \<Rightarrow> nat \<Rightarrow> neighbor \<Rightarrow> 'z world_scheme \<Rightarrow> (int \<times> 'z world_scheme) option" where
  "send_message buf taille rcpt w =
     (case msg rcpt of
        None \<Rightarrow> do { (_, w1) \<leftarrow> send_message_now (message_bytes buf) taille rcpt w; Some (1, w1) }
      | Some a \<Rightarrow>
          do { m \<leftarrow> msgs w a;
               let act_size = unat (ntohs (body_length m));
                   size_to_add = unat (ntohs (body_length buf))
               in do { (act_size, w1) \<leftarrow>
                         (if act_size + size_to_add + 4 > PMTU then
                            do { (_, w1) \<leftarrow> send_message_now (message_bytes m) (act_size + 4) rcpt w;
                                 Some (0, w1) }
                          else Some (act_size, w));
                       src \<leftarrow> peek (body buf) 0 size_to_add;
                       b \<leftarrow> poke act_size src (body m);
                       Some (1, w1\<lparr>msgs := (msgs w1)(a \<mapsto>
                         m\<lparr>body := b, body_length := htons (of_nat (act_size + size_to_add))\<rparr>)\<rparr>) } })"

fun send_to_everyone :: "message_h \<Rightarrow> nat \<Rightarrow> tree \<Rightarrow> 'z world_scheme \<Rightarrow> (int \<times> 'z world_scheme) option" where
  "send_to_everyone buf len Null w = Some (0, w)"
| "send_to_everyone buf len (Tree a k v l r) w =
     do { (rc, w1) \<leftarrow> send_message buf len k w;
          (res1, w2) \<leftarrow> send_to_everyone buf len l w1;
          (res2, w3) \<leftarrow> send_to_everyone buf len r w2;
          Some ((if rc > 0 then 1 else 0) + res1 + res2, w3) }"

fun send_to_everyone_now :: "tree \<Rightarrow> 'z world_scheme \<Rightarrow> (int \<times> 'z world_scheme) option" where
  "send_to_everyone_now Null w = Some (0, w)"
| "send_to_everyone_now (Tree a k v l r) w =
     do { (res, w1) \<leftarrow>
            (case msg k of
               None \<Rightarrow> Some (0, w)
             | Some b \<Rightarrow>
                 do { m \<leftarrow> msgs w b;
                      if body_length m \<noteq> 0 then
                        do { (rc, w1) \<leftarrow> send_message_now (message_bytes m)
                               (unat (ntohs (body_length m)) + 4) k w;
                             Some (if rc > 0 then 1 else 0,
                               w1\<lparr>msgs := (msgs w1)(b \<mapsto> m\<lparr>body_length := 0\<rparr>)\<rparr>) }
                      else Some (0, w) });
          (res1, w2) \<leftarrow> send_to_everyone_now l w1;
          (res2, w3) \<leftarrow> send_to_everyone_now r w2;
          Some (res + res1 + res2, w3) }"

text \<open>\<open>PMTU-4\<close>, the room the callers announce for a body of 4096 bytes.\<close>

definition body_room :: size_t where
  "body_room = of_nat (PMTU - 4)"

text \<open>A local message with its header filled in and the body still uninitialised.\<close>

definition local_message :: "'z world_scheme \<Rightarrow> message_h" where
  "local_message w = \<lparr>magic = 93, version = 2, body_length = 0, body = fresh_body w\<rparr>"

fun send_hello_everyone :: "tree \<Rightarrow> 'z peer_scheme \<Rightarrow> (int \<times> 'z peer_scheme) option" where
  "send_hello_everyone Null s = Some (0, s)"
| "send_hello_everyone (Tree a k v l r) s =
     do { (tmp, b) \<leftarrow> tlv_long_hello (fresh_body s) 0 body_room (ID s) (ident_id v);
          let m = (local_message s)\<lparr>body := b, body_length := htons (word_of_int tmp)\<rparr> in
          do { (rc, s1) \<leftarrow> send_message m (nat (tmp + 4)) k s;
               (res1, s2) \<leftarrow> send_hello_everyone l s1;
               (res2, s3) \<leftarrow> send_hello_everyone r s2;
               Some ((if rc > 0 then 1 else 0) + res1 + res2, s3) } }"

text \<open>
  \<open>send_symetrical_everyone\<close> packs one \<open>neighbour\<close> TLV per symmetric neighbour into
  messages of at most \<open>PMTU\<close> bytes.  The loop takes the entries off the list in order; the
  accumulated state is the message, its size, the last result and the count.
\<close>

fun symetrical_loop :: "ngb_entry list \<Rightarrow> message_h \<Rightarrow> size_t \<Rightarrow> int \<Rightarrow> int \<Rightarrow> tree \<Rightarrow> 'z peer_scheme
    \<Rightarrow> (message_h \<times> size_t \<times> int \<times> int \<times> 'z peer_scheme) option" where
  "symetrical_loop [] m sz res count people s = Some (m, sz, res, count, s)"
| "symetrical_loop (e # es) m sz res count people s =
     do { n \<leftarrow> deref (live s) (sym e);
          (r, b) \<leftarrow> tlv_neighbour (body m) (unat sz) (body_room - sz) n;
          if r < 0 then
            (let m1 = m\<lparr>body := b, body_length := htons (ucast sz)\<rparr> in
             do { (res1, s1) \<leftarrow> send_to_everyone m1 (unat (sz + 4)) people s;
                  n1 \<leftarrow> deref (live s1) (sym e);
                  (r2, b2) \<leftarrow> tlv_neighbour (body m1) 0 body_room n1;
                  symetrical_loop es (m1\<lparr>body := b2\<rparr>) 20 res1 (count + 1) people s1 })
          else symetrical_loop es (m\<lparr>body := b\<rparr>) (sz + 20) res (count + 1) people s }"

definition send_symetrical_everyone :: "tree \<Rightarrow> 'z peer_scheme \<Rightarrow> (int \<times> 'z peer_scheme) option" where
  "send_symetrical_everyone people s =
     do { (syms, s1) \<leftarrow> get_symmetrical (NEIGHBORS s) s;
          case syms of
            None \<Rightarrow> Some (-1, s1)
          | Some lst \<Rightarrow>
              do { (m, sz, res, count, s2) \<leftarrow>
                     symetrical_loop (contents lst)
                       \<lparr>magic = 93, version = 2, body_length = 0, body = replicate MAX_SIZE 0\<rparr>
                       0 0 0 people s1;
                   let s3 = s2\<lparr>NB_SYMETRICAL := count\<rparr> in
                   if sz > 0 then
                     send_to_everyone (m\<lparr>body_length := htons (ucast sz)\<rparr>) (unat (sz + 4)) people s3
                   else Some (res, s3) } }"

text \<open>The tree argument of \<open>send_shorthello_everyone\<close> is ignored: it sends to \<open>POTENTIAL\<close>.\<close>

definition send_shorthello_everyone :: "tree \<Rightarrow> 'z peer_scheme \<Rightarrow> (int \<times> 'z peer_scheme) option" where
  "send_shorthello_everyone people s =
     do { (nb, b) \<leftarrow> tlv_short_hello (fresh_body s) 0 body_room (ID s);
          send_to_everyone ((local_message s)\<lparr>body := b, body_length := htons (word_of_int nb)\<rparr>)
            (nat (nb + 4)) (POTENTIAL s) s }"

text \<open>
  \<open>send_first_message\<close>: a short hello to each address \<open>getaddrinfo\<close> found (its result code and
  list of addresses are arguments).  \<open>msg\<close> is zero-initialised and 14 bytes are sent.
\<close>

definition first_message :: "'z peer_scheme \<Rightarrow> message_h option" where
  "first_message s =
     do { (n, b) \<leftarrow> tlv_short_hello (replicate MAX_SIZE 0) 0 (of_nat MAX_SIZE) (ID s);
          Some \<lparr>magic = 93, version = 2, body_length = htons (word_of_int n), body = b\<rparr> }"

fun first_loop :: "sockaddr_in6 list \<Rightarrow> u8 list \<Rightarrow> int \<Rightarrow> 'z world_scheme \<Rightarrow> (int \<times> 'z world_scheme) option" where
  "first_loop [] bs nb w = Some (nb, w)"
| "first_loop (p # ps) bs nb w =
     do { out \<leftarrow> peek bs 0 14;
          let rc = send_rc w (length (sent w)) in
          first_loop ps bs (if rc > 0 then nb + 1 else nb) (w\<lparr>sent := sent w @ [(p, out)]\<rparr>) }"

definition send_first_message :: "int \<Rightarrow> sockaddr_in6 list \<Rightarrow> 'z peer_scheme \<Rightarrow> (int \<times> 'z peer_scheme) option" where
  "send_first_message rc addrs s =
     do { m \<leftarrow> first_message s;
          if rc < 0 then Some (-1, s)
          else first_loop addrs (message_bytes m) 0 s }"

end
