(* ===== verification/Flood.thy ===== *)
theory Flood
  imports NetLib
begin

text \<open>
  The flooding component: \<open>list.c\<close> (the recent data \<open>DATAF\<close>, each with the list of
  symmetric neighbours still to be reached) and the part of \<open>util.c\<close> that transmits and
  retransmits it.  \<open>DATAF\<close> holds pointers to \<open>flood_entry\<close> objects, which are modified in
  place through the pointer \<open>get\<close> returns.
\<close>

section \<open>list.c\<close>

definition FLOOD_DATA_SIZE :: nat where "FLOOD_DATA_SIZE = 2 ^ 8 + 4"

text \<open>\<open>compare_flood\<close>, with a pointer stored in \<open>DATAF\<close> on the left.\<close>

definition compare_flood :: "'z peer_scheme \<Rightarrow> ptr \<Rightarrow> data_index \<Rightarrow> int option" where
  "compare_flood s p ix = do { a \<leftarrow> p; f \<leftarrow> floods s a; Some (compare_d (flood_index f) ix) }"

definition init_flood :: "data_index \<Rightarrow> u8 list \<Rightarrow> ngb_entry clist \<Rightarrow> 'z peer_scheme \<Rightarrow> (ptr \<times> 'z peer_scheme) option" where
  "init_flood ix data syms s =
     (let (current, s1) = malloc s in
      case current of
        None \<Rightarrow> Some (None, s1)
      | Some a \<Rightarrow>
          (let (pindex, s2) = malloc s1 in
           if pindex = None then Some (None, s2)
           else do { len \<leftarrow> peek1 data 1;
                     if unat len + 2 > PMTU - 4 then Some (None, s2)
                     else do { bs \<leftarrow> peek data 0 (unat len + 2);
                               d \<leftarrow> poke 0 bs (map (junk s2) [0..<FLOOD_DATA_SIZE]);
                               Some (Some a, s2\<lparr>floods := (floods s2)(a \<mapsto>
                                 \<lparr>flood_index = ix, flood_data = d, sym_neighbors = syms\<rparr>)\<rparr>) } }))"

definition free_flood :: "addr \<Rightarrow> 'z peer_scheme \<Rightarrow> 'z peer_scheme option" where
  "free_flood a s = do { f \<leftarrow> floods s a; Some (s\<lparr>floods := (floods s)(a := None)\<rparr>) }"

text \<open>The stack entries \<open>{0}\<close> with only \<open>sym\<close> set, used to search a list of neighbours.\<close>

definition search_entry :: "nptr \<Rightarrow> ngb_entry" where
  "search_entry p = \<lparr>sym = p, times_sent = 0, wait_until = 0\<rparr>"

definition add_message_to_flood :: "u8 list \<Rightarrow> u8 \<Rightarrow> nptr option \<Rightarrow> 'z peer_scheme \<Rightarrow> 'z peer_scheme option" where
  "add_message_to_flood msg_send size_msg_send to_delete s =
     do { idb \<leftarrow> peek msg_send 0 8;
          nonb \<leftarrow> peek msg_send 8 4;
          let ix = \<lparr>index_id = le_word idb, nonce = le_word nonb\<rparr> in
          do { (symmetric, s1) \<leftarrow> get_symmetrical (NEIGHBORS s) s;
               case symmetric of
                 None \<Rightarrow> Some s1
               | Some l0 \<Rightarrow>
                   do { l1 \<leftarrow> (case to_delete of
                                None \<Rightarrow> Some l0
                              | Some p \<Rightarrow>
                                  do { (_, l1) \<leftarrow> remove_elem (compare_n_s (live s1)) l0 (search_entry p); Some l1 });
                        src \<leftarrow> peek msg_send 0 (unat size_msg_send);
                        m \<leftarrow> poke 0 (4 # size_msg_send # src) (map (junk s1) [0..<FLOOD_DATA_SIZE]);
                        (flood, s2) \<leftarrow> init_flood ix m l1 s1;
                        let (must_free, d, s3) = add_limited (DATAF s2) flood NBDATA s2;
                            s4 = s3\<lparr>DATAF := d\<rparr>
                        in case must_free of
                             Some (Some a) \<Rightarrow> free_flood a s4
                           | _ \<Rightarrow> Some s4 } } }"

definition remove_neighbor_from_flood :: "data_index \<Rightarrow> nptr \<Rightarrow> 'z peer_scheme \<Rightarrow> (int \<times> 'z peer_scheme) option" where
  "remove_neighbor_from_flood data p s =
     do { found \<leftarrow> get (compare_flood s) (DATAF s) data;
          case found of
            None \<Rightarrow> Some (0, s)
          | Some None \<Rightarrow> Some (0, s)
          | Some (Some a) \<Rightarrow>
              do { f \<leftarrow> floods s a;
                   (_, l) \<leftarrow> remove_elem (compare_n_s (live s)) (sym_neighbors f) (search_entry p);
                   Some (1, s\<lparr>floods := (floods s)(a \<mapsto> f\<lparr>sym_neighbors := l\<rparr>)\<rparr>) } }"

fun everywhere_loop :: "ptr list \<Rightarrow> nptr \<Rightarrow> 'z peer_scheme \<Rightarrow> 'z peer_scheme option" where
  "everywhere_loop [] p s = Some s"
| "everywhere_loop (c # cs) p s =
     do { a \<leftarrow> c;
          f \<leftarrow> floods s a;
          (_, s1) \<leftarrow> remove_neighbor_from_flood (flood_index f) p s;
          everywhere_loop cs p s1 }"

definition remove_neighbor_everywhere :: "nptr \<Rightarrow> 'z peer_scheme \<Rightarrow> (int \<times> 'z peer_scheme) option" where
  "remove_neighbor_everywhere p s =
     do { s1 \<leftarrow> everywhere_loop (contents (DATAF s)) p s;
          if NEIGHBORS s1 = Null then Some (1, s1)
          else do { nk \<leftarrow> deref (live s1) p;
                    s2 \<leftarrow> remove_neighbor nk s1;
                    Some (1, s2) } }"

section \<open>Transmission: util.c\<close>

text \<open>
  \<open>handle_inactive\<close> composes a go-away (code 2 and the first 24 bytes of the text, in UTF-8)
  for a neighbour that did not acknowledge five transmissions, and removes the neighbour.
\<close>

definition inactive_text :: "u8 list" where
  "inactive_text = [87, 101, 115, 104, 44, 32, 116, 39, 101, 115, 32, 111, 195, 185, 32, 63, 32,
                    66, 114, 101, 102, 44, 98, 121, 101]"

definition handle_inactive :: "nptr \<Rightarrow> 'z peer_scheme \<Rightarrow> 'z peer_scheme option" where
  "handle_inactive p s =
     do { (tmp, b) \<leftarrow> tlv_goaway (fresh_body s) 0 body_room 2 inactive_text 24;
          n \<leftarrow> deref (live s) p;
          (_, s1) \<leftarrow> send_message ((local_message s)\<lparr>body := b, body_length := htons (word_of_int tmp)\<rparr>)
                       (nat (tmp + 4)) n s;
          (_, s2) \<leftarrow> remove_neighbor_everywhere p s1;
          Some s2 }"

text \<open>
  \<open>send_data\<close> reads the length byte through a \<open>char *\<close>, which is signed: \<open>body_length\<close> is
  negative for lengths 128 to 253, and \<open>memcpy\<close> then runs off both arrays.
\<close>

definition send_data :: "u8 list \<Rightarrow> nptr \<Rightarrow> 'z peer_scheme \<Rightarrow> (int \<times> 'z peer_scheme) option" where
  "send_data tlv p s =
     do { len \<leftarrow> peek1 tlv 1;
          let blen = signed_char len + 2; mlen = (word_of_int (blen + 4) :: u16) in
          if blen < 0 then None
          else do { bs \<leftarrow> peek tlv 0 (nat blen);
                    b \<leftarrow> poke 0 bs (fresh_body s);
                    n \<leftarrow> deref (live s) p;
                    send_message ((local_message s)\<lparr>body := b, body_length := htons (word_of_int blen)\<rparr>)
                      (unat mlen) n s } }"

text \<open>
  The loop of \<open>flood_message_to_neighbours\<close>.  \<open>tmp\<close> is the current list node; an entry that
  is due is sent, taken out and put back at its new place in the order of waiting times
  (re-allocating its node), and the loop goes on with the node that followed it before.
  When \<open>remove_elem\<close> finds nothing the loop repeats the same node.  \<open>None\<close> covers both
  undefined behaviour and a loop that does not end.
\<close>

definition entry_at :: "ngb_entry clist \<Rightarrow> addr \<Rightarrow> ngb_entry option" where
  "entry_at l a = map_of (nodes l) a"

partial_function (option) flood_loop :: "addr \<Rightarrow> ptr \<Rightarrow> int \<Rightarrow> 'z peer_scheme \<Rightarrow> 'z peer_scheme option" where
  "flood_loop fl tmp current_time s =
     (case tmp of
        None \<Rightarrow> Some s
      | Some a \<Rightarrow>
          do { f \<leftarrow> floods s fl;
               nw \<leftarrow> entry_at (sym_neighbors f) a;
               let tmp2 = next_of a (nodes (sym_neighbors f)) in
               if times_sent nw = 5 then
                 do { s1 \<leftarrow> handle_inactive (sym nw) s;
                      flood_loop fl tmp2 current_time s1 }
               else if current_time \<ge> wait_until nw then
                 do { (i, s1) \<leftarrow> send_data (flood_data f) (sym nw) s;
                      if i = 0 then Some s1
                      else do { f1 \<leftarrow> floods s1 fl;
                                (temp, l1) \<leftarrow> remove_elem (compare_n_s (live s1)) (sym_neighbors f1) nw;
                                case temp of
                                  None \<Rightarrow> flood_loop fl tmp current_time s1
                                | Some n \<Rightarrow>
                                    do { (t, s2) \<leftarrow> wait_time (times_sent n + 1) s1;
                                         let n1 = n\<lparr>times_sent := times_sent n + 1, wait_until := t + current_time\<rparr> in
                                         do { (j, l2, s3) \<leftarrow> add_elem (compare_n_s (live s2)) l1 n1 s2;
                                              let s4 = s3\<lparr>floods := (floods s3)(fl \<mapsto> f1\<lparr>sym_neighbors := l2\<rparr>)\<rparr> in
                                              if j = 0 then Some s4
                                              else flood_loop fl tmp2 current_time s4 } } } }
               else
                 Some (s\<lparr>NEXTTIME := word_of_int (min_c (to_int (uint (NEXTTIME s))) (wait_until nw))\<rparr>) })"

definition flood_message_to_neighbours :: "ptr \<Rightarrow> 'z peer_scheme \<Rightarrow> 'z peer_scheme option" where
  "flood_message_to_neighbours flood s =
     (let (current_time, s1) = get_seconds s in
      do { fl \<leftarrow> flood;
           f \<leftarrow> floods s1 fl;
           flood_loop fl (case nodes (sym_neighbors f) of [] \<Rightarrow> None | (a, _) # _ \<Rightarrow> Some a) current_time s1 })"

text \<open>
  \<open>flood_messages\<close> walks the list it is given; nothing it calls adds or removes an element
  of that list, so the walk is over the contents it has at the start.
\<close>

fun flood_messages_loop :: "ptr list \<Rightarrow> 'z peer_scheme \<Rightarrow> 'z peer_scheme option" where
  "flood_messages_loop [] s = Some s"
| "flood_messages_loop (f # fs) s =
     do { s1 \<leftarrow> flood_message_to_neighbours f s; flood_messages_loop fs s1 }"

definition flood_messages :: "'z peer_scheme \<Rightarrow> 'z peer_scheme option" where
  "flood_messages s = flood_messages_loop (contents (DATAF s)) s"

section \<open>The maintenance sends of net\_lib.c\<close>

fun goaway_loop :: "ngb_entry list \<Rightarrow> message_h \<Rightarrow> nat \<Rightarrow> int \<Rightarrow> 'z peer_scheme \<Rightarrow> (int \<times> 'z peer_scheme) option" where
  "goaway_loop [] m len count s = Some (count, s)"
| "goaway_loop (e # es) m len count s =
     do { n \<leftarrow> deref (live s) (sym e);
          (rc, s1) \<leftarrow> send_message m len n s;
          (_, s2) \<leftarrow> remove_neighbor_everywhere (sym e) s1;
          goaway_loop es m len (if rc > 0 then count + 1 else count) s2 }"

text \<open>The list of old neighbours is used without a test for a null pointer.\<close>

definition send_goaway_asymetrical :: "'z peer_scheme \<Rightarrow> (int \<times> 'z peer_scheme) option" where
  "send_goaway_asymetrical s =
     (if NEIGHBORS s = Null then Some (0, s)
      else do { (syms, s1) \<leftarrow> find_by (NEIGHBORS s) is_old s;
                (tmp, b) \<leftarrow> tlv_goaway (fresh_body s1) 0 body_room 2 [] 0;
                lst \<leftarrow> syms;
                goaway_loop (contents lst)
                  ((local_message s1)\<lparr>body := b, body_length := htons (word_of_int tmp)\<rparr>)
                  (nat (tmp + 4)) 0 s1 })"

fun old_potential_loop :: "ngb_entry list \<Rightarrow> 'z peer_scheme \<Rightarrow> 'z peer_scheme option" where
  "old_potential_loop [] s = Some s"
| "old_potential_loop (e # es) s =
     do { n \<leftarrow> deref (live s) (sym e);
          s1 \<leftarrow> remove_potential n s;
          old_potential_loop es s1 }"

definition remove_old_potential :: "'z peer_scheme \<Rightarrow> 'z peer_scheme option" where
  "remove_old_potential s =
     (if POTENTIAL s = Null then Some s
      else do { (syms, s1) \<leftarrow> find_by (POTENTIAL s) is_old s;
                lst \<leftarrow> syms;
                old_potential_loop (contents lst) s1 })"

end
