(* ===== verification/Handlers.thy ===== *)
theory Handlers
  imports Flood
begin

text \<open>
  The receiving half of \<open>tlv.c\<close>: one handler per TLV type and \<open>handle_message_h\<close>, which
  checks the header and dispatches.  A handler gets the local array \<open>tlv\<close> of 4096 bytes into
  which the body of the TLV was copied (what lies behind is left from earlier TLVs, or was
  never initialised), the length byte, and the sender by value.  Text sent to the terminal
  with \<open>printf\<close> is not recorded; what \<open>write\<close> sends to the terminal (\<open>tty\<close>) and to the
  browser process (\<open>gui\<close>) is.
\<close>

section \<open>Output\<close>

text \<open>
  \<open>print_on_screen\<close> with \<open>data\<close> pointing at offset \<open>off\<close> of an array.  The last test reads
  \<open>data[data_size-1]\<close>, so a size that does not fit the array makes the function undefined
  whatever its \<open>write\<close>s do.
\<close>

definition print_on_screen :: "u8 list \<Rightarrow> nat \<Rightarrow> size_t \<Rightarrow> 'z world_scheme \<Rightarrow> 'z world_scheme option" where
  "print_on_screen buf off data_size w =
     do { bs \<leftarrow> peek buf off (unat data_size);
          let i = int off + int (unat data_size) - 1 in
          if i < 0 then None
          else do { c \<leftarrow> peek1 buf (nat i);
                    let w1 = w\<lparr>tty := tty w @ [bs], gui := gui w @ [[0], bs]\<rparr> in
                    Some (if c \<noteq> 10 then w1\<lparr>tty := tty w1 @ [[10]]\<rparr> else w1) } }"

text \<open>
  \<open>write(1, buf+off, n)\<close> where nothing else bounds \<open>n\<close>.  POSIX leaves a count above
  \<open>SSIZE_MAX\<close> to the implementation; on Linux the call fails and writes nothing, and the
  code does not look at its result.
\<close>

definition SSIZE_MAX :: nat where "SSIZE_MAX = 2 ^ 63 - 1"

definition write_tty :: "u8 list \<Rightarrow> nat \<Rightarrow> size_t \<Rightarrow> 'z world_scheme \<Rightarrow> 'z world_scheme option" where
  "write_tty buf off n w =
     (if unat n > SSIZE_MAX then Some w
      else do { bs \<leftarrow> peek buf off (unat n); Some (w\<lparr>tty := tty w @ [bs]\<rparr>) })"

section \<open>Handlers\<close>

definition pad1 :: "u8 list \<Rightarrow> u8 \<Rightarrow> neighbor \<Rightarrow> 'z peer_scheme \<Rightarrow> (int \<times> 'z peer_scheme) option" where
  "pad1 tlv len peer s = Some (1, s)"

definition padN :: "u8 list \<Rightarrow> u8 \<Rightarrow> neighbor \<Rightarrow> 'z peer_scheme \<Rightarrow> (int \<times> 'z peer_scheme) option" where
  "padN tlv len peer s = Some (1, s)"

text \<open>What \<open>hello\<close> does with a new or refreshed neighbour, in both of its branches.\<close>

definition register :: "neighbor \<Rightarrow> ident \<Rightarrow> 'z peer_scheme \<Rightarrow> 'z peer_scheme option" where
  "register peer v s =
     do { (rc, s1) \<leftarrow> add_neighbor peer (Some v) s;
          if rc = 1 then
            do { s2 \<leftarrow> remove_potential peer s1;
                 (_, s3) \<leftarrow> send_hello_everyone (NEIGHBORS s2) s2;
                 Some s3 }
          else Some s1 }"

definition hello :: "u8 list \<Rightarrow> u8 \<Rightarrow> neighbor \<Rightarrow> 'z peer_scheme \<Rightarrow> (int \<times> 'z peer_scheme) option" where
  "hello tlv len peer s =
     (let (current, s1) = get_seconds s in
      do { src \<leftarrow> peek tlv 0 8;
           let v = \<lparr>ident_id = le_word src, last_hello = current, last_hello_long = 0\<rparr> in
           if len = 16 then
             do { dst \<leftarrow> peek tlv 8 8;
                  if le_word dst = ID s1 then
                    do { s2 \<leftarrow> register peer (v\<lparr>last_hello_long := current\<rparr>) s1; Some (1, s2) }
                  else Some (1, s1) }
           else do { s2 \<leftarrow> register peer v s1; Some (1, s2) } })"

definition neighbour :: "u8 list \<Rightarrow> u8 \<Rightarrow> neighbor \<Rightarrow> 'z peer_scheme \<Rightarrow> (int \<times> 'z peer_scheme) option" where
  "neighbour tlv len peer s =
     do { a \<leftarrow> peek tlv 0 16;
          p \<leftarrow> peek tlv 16 2;
          let k = \<lparr>ip = a, port = ntohs (le_word p), msg = None\<rparr> in
          if get_ident (NEIGHBORS s) k \<noteq> None then Some (1, s)
          else let (now, s1) = get_seconds s in
               do { (_, s2) \<leftarrow> add_potential k (Some (zero_ident\<lparr>last_hello := now\<rparr>)) s1;
                    Some (1, s2) } }"

definition data :: "u8 list \<Rightarrow> u8 \<Rightarrow> neighbor \<Rightarrow> 'z peer_scheme \<Rightarrow> (int \<times> 'z peer_scheme) option" where
  "data tlv len peer s =
     do { idb \<leftarrow> peek tlv 0 8;
          nonb \<leftarrow> peek tlv 8 4;
          let ix = \<lparr>index_id = le_word idb, nonce = le_word nonb\<rparr> in
          do { (sz, b) \<leftarrow> tlv_ack (fresh_body s) 0 body_room (index_id ix) (nonce ix);
               (_, s1) \<leftarrow> (if sz > 0
                  then send_message ((local_message s)\<lparr>body := b, body_length := htons (word_of_int sz)\<rparr>)
                         (nat (sz + 4)) peer s
                  else Some (0, s));
               flood \<leftarrow> get (compare_flood s1) (DATAF s1) ix;
               case flood of
                 Some (Some a) \<Rightarrow>
                   do { (_, s2) \<leftarrow> remove_neighbor_from_flood ix (Local peer) s1; Some (1, s2) }
               | _ \<Rightarrow>
                   do { s2 \<leftarrow> add_message_to_flood tlv len (Some (Local peer)) s1;
                        ty \<leftarrow> peek1 tlv 12;
                        if signed_char ty = 0 then
                          do { s3 \<leftarrow> print_on_screen tlv 13 (size_of_int (int (unat len) - 13)) s2; Some (1, s3) }
                        else Some (1, s2) } } }"

definition ack :: "u8 list \<Rightarrow> u8 \<Rightarrow> neighbor \<Rightarrow> 'z peer_scheme \<Rightarrow> (int \<times> 'z peer_scheme) option" where
  "ack tlv len peer s =
     do { idb \<leftarrow> peek tlv 0 8;
          nonb \<leftarrow> peek tlv 8 4;
          (_, s1) \<leftarrow> remove_neighbor_from_flood \<lparr>index_id = le_word idb, nonce = le_word nonb\<rparr> (Local peer) s;
          Some (1, s1) }"

definition goaway :: "u8 list \<Rightarrow> u8 \<Rightarrow> neighbor \<Rightarrow> 'z peer_scheme \<Rightarrow> (int \<times> 'z peer_scheme) option" where
  "goaway tlv len peer s =
     do { s1 \<leftarrow> write_tty tlv 1 (size_of_int (int (unat len) - 1)) s;
          remove_neighbor_everywhere (Local peer) s1 }"

definition warning :: "u8 list \<Rightarrow> u8 \<Rightarrow> neighbor \<Rightarrow> 'z peer_scheme \<Rightarrow> (int \<times> 'z peer_scheme) option" where
  "warning tlv len peer s =
     do { bs \<leftarrow> peek tlv 0 (unat len);
          b \<leftarrow> poke 0 bs (replicate MAX_SIZE 0);
          b \<leftarrow> poke (unat len) [0] b;
          Some (1, s) }"

definition NB_TLV :: nat where "NB_TLV = 8"

text \<open>The table \<open>handle_tlv\<close>.\<close>

definition handle_tlv :: "nat \<Rightarrow> u8 list \<Rightarrow> u8 \<Rightarrow> neighbor \<Rightarrow> 'z peer_scheme \<Rightarrow> (int \<times> 'z peer_scheme) option" where
  "handle_tlv ty = [pad1, padN, hello, neighbour, data, ack, goaway, warning] ! ty"

section \<open>handle\_message\_h\<close>

text \<open>
  The loop over the TLVs of a body: \<open>pos\<close> is the position reached, \<open>tlv\<close> the local array.
\<close>

function handle_loop :: "message_h \<Rightarrow> nat \<Rightarrow> nat \<Rightarrow> u8 list \<Rightarrow> neighbor \<Rightarrow> 'z peer_scheme \<Rightarrow> 'z peer_scheme option" where
  "handle_loop m blen pos tlv rcpt s =
     (if pos < blen then
        do { ty \<leftarrow> peek1 (body m) pos;
             if ty = 0 then handle_loop m blen (pos + 1) tlv rcpt s
             else
               do { len \<leftarrow> peek1 (body m) (pos + 1);
                    if int (unat len) > int blen - int pos then Some s
                    else
                      do { (tlv1, s1) \<leftarrow>
                             (if unat ty < NB_TLV then
                                do { bs \<leftarrow> peek (body m) (pos + 2) (unat len);
                                     tlv1 \<leftarrow> poke 0 bs tlv;
                                     (_, s1) \<leftarrow> handle_tlv (unat ty) tlv1 len rcpt s;
                                     Some (tlv1, s1) }
                              else Some (tlv, s));
                           handle_loop m blen (pos + (unat len + 2)) tlv1 rcpt s1 } } }
      else Some s)"
  by pat_completeness auto
termination
  by (relation "measure (\<lambda>(m, blen, pos, tlv, rcpt, s). blen - pos)") auto

declare handle_loop.simps [simp del]

definition handle_message_h :: "message_h \<Rightarrow> size_t \<Rightarrow> neighbor \<Rightarrow> 'z peer_scheme \<Rightarrow> 'z peer_scheme option" where
  "handle_message_h m buf_t rcpt s =
     (if buf_t < 4 then Some s
      else if magic m \<noteq> 93 \<or> version m \<noteq> 2 then Some s
      else let blen = unat (ntohs (body_length m)) in
           if of_nat (blen + 4) > buf_t then Some s
           else handle_loop m blen 0 (fresh_body s) rcpt s)"

end
