(* ===== verification/Display.thy ===== *)
theory Display
  imports Handlers
begin

text \<open>
  The functions that print on the terminal: of the tree of neighbours (\<open>abr.c\<close>), which \<open>main\<close>
  prints every thirty seconds, and of messages, addresses and lists (\<open>net_lib.c\<close>,
  \<open>genlist.c\<close>), left from debugging.  A function returns the text it prints; \<open>ntop\<close> stands
  for \<open>inet_ntop\<close> and \<open>hex\<close> for the \<open>%p\<close> of \<open>printf\<close>.
\<close>

section \<open>Numbers\<close>

fun dec :: "nat \<Rightarrow> string" where
  "dec n = (if n < 10 then [char_of (48 + n)] else dec (n div 10) @ [char_of (48 + n mod 10)])"

declare dec.simps [simp del]

definition dec_int :: "int \<Rightarrow> string" where
  "dec_int i = (if i < 0 then ''-'' @ dec (nat (- i)) else dec (nat i))"

abbreviation newline :: string where "newline \<equiv> [CHR 0x0A]"

abbreviation tab :: char where "tab \<equiv> CHR 0x09"

section \<open>abr.c\<close>

definition print_addr :: "(u8 list \<Rightarrow> string) \<Rightarrow> u8 list \<Rightarrow> string" where
  "print_addr ntop a = ''Address: '' @ ntop a @ newline"

definition print_addr2 :: "(u8 list \<Rightarrow> string) \<Rightarrow> u8 list \<Rightarrow> string" where
  "print_addr2 ntop a = ntop a"

definition print_key :: "(u8 list \<Rightarrow> string) \<Rightarrow> neighbor \<Rightarrow> string" where
  "print_key ntop n = ''IP : '' @ print_addr ntop (ip n) @ '' Port : '' @ dec (unat (port n)) @ '' ''"

text \<open>The times are \<open>int\<close>s printed with \<open>%u\<close>.\<close>

definition print_val :: "ident \<Rightarrow> string" where
  "print_val v =
     ''Id : '' @ dec (unat (ident_id v)) @
     ''Last hello : '' @ dec (unat (word_of_int (last_hello v) :: u32)) @ '' '' @
     ''Last long hello : '' @ dec (unat (word_of_int (last_hello_long v) :: u32)) @ '' ''"

text \<open>\<open>char vide[40]\<close>, of which \<open>tmp\<close> bytes are written: there are none after the fortieth.\<close>

definition vide :: string where
  "vide = replicate 23 tab @ replicate 17 (CHR 0x00)"

definition indent :: "nat \<Rightarrow> string option" where
  "indent tmp = (if tmp \<le> length vide then Some (take tmp vide) else None)"

fun print_tree_aux :: "(u8 list \<Rightarrow> string) \<Rightarrow> tree \<Rightarrow> nat \<Rightarrow> string option" where
  "print_tree_aux ntop Null tmp = do { v \<leftarrow> indent tmp; Some (v @ ''null'' @ newline) }"
| "print_tree_aux ntop (Tree a k v l r) tmp =
     do { o1 \<leftarrow> print_tree_aux ntop l (tmp + 1);
          sp \<leftarrow> indent tmp;
          o2 \<leftarrow> print_tree_aux ntop r (tmp + 1);
          Some (o1 @ sp @ print_addr2 ntop (ip k) @ '' -- '' @ dec (unat (port k)) @ newline @ o2) }"

definition print_tree :: "(u8 list \<Rightarrow> string) \<Rightarrow> tree \<Rightarrow> string option" where
  "print_tree ntop t = print_tree_aux ntop t 0"

section \<open>net\_lib.c and genlist.c\<close>

text \<open>Called on an address inside a buffer; the number returned is that of the length byte.\<close>

definition print_tlv :: "u8 list \<Rightarrow> nat \<Rightarrow> (nat \<times> string) option" where
  "print_tlv buf off =
     do { ty \<leftarrow> peek1 buf off;
          if ty = 0 then Some (1, [tab] @ '' tlv 1, size 1'' @ newline)
          else do { len \<leftarrow> peek1 buf (off + 1);
                    Some (unat len, [tab] @ '' tlv '' @ dec (unat ty) @ '', size '' @ dec (unat len) @ newline) } }"

text \<open>The loop of \<open>print_msg\<close>; every TLV is taken to be two bytes longer than the number returned.\<close>

function print_tlvs :: "u8 list \<Rightarrow> nat \<Rightarrow> nat \<Rightarrow> string option" where
  "print_tlvs bs l i =
     (if i < l
      then (case print_tlv bs i of
              None \<Rightarrow> None
            | Some (n, t) \<Rightarrow> map_option ((@) t) (print_tlvs bs l (i + (n + 2))))
      else Some [])"
  by pat_completeness auto
termination
  by (relation "measure (\<lambda>(bs, l, i). l - i)") auto

declare print_tlvs.simps [simp del]

text \<open>\<open>magic\<close> and \<open>version\<close> are \<open>char\<close>s printed as \<open>int\<close>s.\<close>

definition print_msg :: "message_h \<Rightarrow> string option" where
  "print_msg m =
     (let l = unat (ntohs (body_length m)) in
      do { t \<leftarrow> print_tlvs (body m) l 0;
           Some (''magic = '' @ dec_int (signed_char (magic m)) @ '', version = '' @
             dec_int (signed_char (version m)) @ '', length = '' @ dec l @ newline @ '' data :'' @ newline @
             t @ newline) })"

definition print_sockaddr :: "(u8 list \<Rightarrow> string) \<Rightarrow> sockaddr_in6 \<Rightarrow> string" where
  "print_sockaddr ntop a =
     ''sin6_family = '' @ dec (sin6_family a) @ newline @ '' sin6_port = '' @ dec (unat (sin6_port a)) @ newline @
     ''sin6_flowinfo = '' @ dec_int (sint (sin6_flowinfo a)) @ newline @ ''sin6_addr = '' @
     print_addr ntop (sin6_addr a) @ ''sin6_scope_id = '' @ dec_int (sint (sin6_scope_id a)) @ newline"

definition print_list :: "(ptr \<Rightarrow> string) \<Rightarrow> ptr clist \<Rightarrow> string" where
  "print_list hex l =
     ''La longueur de la liste : '' @ dec (unat (list_length l)) @ newline @
     concat (map (\<lambda>(a, c). ''Element de liste : '' @ hex (Some a) @ newline @ ''Content : '' @ hex c @ newline) (nodes l))"

section \<open>Laws\<close>

fun height :: "tree \<Rightarrow> nat" where
  "height Null = 0"
| "height (Tree a k v l r) = Suc (max (height l) (height r))"

lemma indent_Some: "indent n \<noteq> None \<longleftrightarrow> n \<le> 40" "indent n = None \<longleftrightarrow> 40 < n"
  by (auto simp: indent_def vide_def)

lemma print_tree_aux_None: "print_tree_aux ntop t n = None \<longleftrightarrow> 40 < n + height t"
proof (induction t arbitrary: n)
  case (Tree a k v l r)
  show ?case
    using Tree.IH [of "Suc n"] indent_Some(2) [of n] by (cases "print_tree_aux ntop l (Suc n)"; cases "indent n"; cases "print_tree_aux ntop r (Suc n)") auto
next
  case Null
  show ?case using indent_Some(2) [of n] by (cases "indent n") auto
qed

lemma depth_height: "depth t = int (height t) - 1"
  by (induction t) (auto simp: max_c_def)

lemma print_tree_None: "print_tree ntop t = None \<longleftrightarrow> 40 \<le> depth t"
  by (auto simp: print_tree_def print_tree_aux_None depth_height)

section \<open>Properties\<close>

text \<open>
  C40: printing the tree of neighbours indents by the depth of a node from an array of 40 bytes:
  it stays inside the array exactly when the depth of the tree is below 40, and nothing keeps
  the tree, which is never rebalanced, from growing deeper.
\<close>

theorem print_tree_bounds:
  "print_tree ntop t = None \<longleftrightarrow> 40 \<le> depth t"
  by (rule print_tree_None)

end
