(* ===== verification/Peer_Loop.thy ===== *)
theory Peer_Loop
  imports Display
begin

text \<open>
  \<open>main.c\<close>: one iteration of the main loop, given what \<open>select\<close>, \<open>recvfrom\<close> and \<open>read\<close>
  returned, and \<open>disconnect\<close>, the handler of the interrupt signal.
\<close>

section \<open>State of main\<close>

text \<open>The local variables of \<open>main\<close> that live across iterations; the globals are a \<open>peer\<close>.\<close>

record main_locals =
  NEXTHELLO :: int
  rbuf :: message_h
  client :: sockaddr_in6
  timeout :: int

type_synonym main_state = "main_locals \<times> peer"

text \<open>
  The outcome of the system calls of one iteration: whether \<open>select\<close> returned non-zero and
  which descriptors it reports; the datagram received, with its sender, or \<open>None\<close> for an
  error; the bytes read from the browser process, or \<open>None\<close> for an error.
\<close>

record io =
  sel :: bool
  soc_ready :: bool
  gui_ready :: bool
  received :: "(u8 list \<times> sockaddr_in6) option"
  typed :: "u8 list option"

definition TIMEHELLO :: int where "TIMEHELLO = 30"
definition MIN_SYM :: int where "MIN_SYM = 10"

text \<open>\<open>recvfrom\<close> overwrites the first bytes of \<open>msg\<close>, cutting the datagram at its size.\<close>

definition receive :: "(u8 list \<times> sockaddr_in6) option \<Rightarrow> main_locals \<Rightarrow> int \<times> main_locals" where
  "receive r l =
     (case r of
        None \<Rightarrow> (-1, l)
      | Some (bs, from) \<Rightarrow>
          (let room = 4 + length (body (rbuf l)); d = take room bs in
           (int (length d),
            l\<lparr>rbuf := bytes_message (d @ drop (length d) (message_bytes (rbuf l))), client := from\<rparr>)))"

definition on_socket :: "io \<Rightarrow> main_state \<Rightarrow> main_state option" where
  "on_socket e = (\<lambda>(l, s).
     let (size_msg, l1) = receive (received e) l in
     do { s1 \<leftarrow> handle_message_h (rbuf l1) (size_of_int size_msg) (sockaddr6_to_neighbor (client l1)) s;
          Some (l1, s1) })"

text \<open>\<open>buf[tmp-1]\<close> with an index that may be \<open>-1\<close>.\<close>

definition before_end :: "u8 list \<Rightarrow> u8 \<Rightarrow> u8 option" where
  "before_end buf tmp = (if tmp = 0 then None else peek1 buf (unat tmp - 1))"

text \<open>The length of the line typed: a final NUL does not count, nor a newline before it.\<close>

definition line_length :: "u8 list \<Rightarrow> u8 \<Rightarrow> u8 option" where
  "line_length buf tmp =
     do { c \<leftarrow> before_end buf tmp;
          let tmp = (if c = 0 then tmp - 1 else tmp) in
          do { c \<leftarrow> before_end buf tmp;
               Some (if c = 10 then tmp - 1 else tmp) } }"

definition on_gui :: "io \<Rightarrow> peer \<Rightarrow> peer option" where
  "on_gui e s =
     (let d = (case typed e of None \<Rightarrow> [] | Some bs \<Rightarrow> take (2 ^ 8 - 14) bs);
          rc = (case typed e of None \<Rightarrow> -1 | Some bs \<Rightarrow> int (length d))
      in do { buf \<leftarrow> poke 0 d (replicate (2 ^ 8 + 1) 0);
              tmp \<leftarrow> line_length buf (word_of_int rc);
              (_, m, s1) \<leftarrow> tlv_data (map (junk s) [0..<2 ^ 8 + 4]) 0 (2 ^ 8 + 4) (ID s) 0 buf tmp s;
              len \<leftarrow> peek1 m 1;
              s2 \<leftarrow> add_message_to_flood (drop 2 m) len None s1;
              print_on_screen buf 0 (ucast tmp) s2 })"

text \<open>The periodic work, when the clock has reached \<open>NEXTHELLO\<close>.\<close>

definition periodic :: "main_state \<Rightarrow> main_state option" where
  "periodic = (\<lambda>(l, s).
     do { (_, s1) \<leftarrow> send_hello_everyone (NEIGHBORS s) s;
          (_, s2) \<leftarrow> send_symetrical_everyone (NEIGHBORS s1) s1;
          let (now, s3) = get_seconds s2; l1 = l\<lparr>NEXTHELLO := now + TIMEHELLO\<rparr> in
          do { (_, s4) \<leftarrow> send_goaway_asymetrical s3;
               s5 \<leftarrow> remove_old_potential s4;
               if NB_SYMETRICAL s5 \<le> MIN_SYM
               then do { (_, s6) \<leftarrow> send_shorthello_everyone (POTENTIAL s5) s5; Some (l1, s6) }
               else Some (l1, s5) } })"

text \<open>
  It ends with printing the tree of neighbours on the terminal; the text is not recorded, so
  what \<open>inet_ntop\<close> makes of an address is left empty.
\<close>

definition on_timer :: "main_state \<Rightarrow> main_state option" where
  "on_timer st =
     do { (l, s) \<leftarrow> periodic st;
          _ \<leftarrow> print_tree (\<lambda>_. []) (NEIGHBORS s);
          Some (l, s) }"

text \<open>Before \<open>select\<close>: the time-out, from the next transmission and the next hello.\<close>

definition main_select :: "main_state \<Rightarrow> main_state" where
  "main_select = (\<lambda>(l, s).
     let hello = (word_of_int (NEXTHELLO l) :: u64);
         s1 = s\<lparr>NEXTTIME := (if NEXTTIME s < hello then NEXTTIME s else hello)\<rparr>;
         (now, s2) = get_seconds s1
     in (l\<lparr>timeout := max_c 0 (to_int (uint (NEXTTIME s2 - word_of_int now)))\<rparr>, s2\<lparr>NEXTTIME := hello\<rparr>))"

definition main_recv :: "io \<Rightarrow> main_state \<Rightarrow> main_state option" where
  "main_recv e st = (if sel e \<and> soc_ready e then on_socket e st else Some st)"

definition main_read :: "io \<Rightarrow> main_state \<Rightarrow> main_state option" where
  "main_read e = (\<lambda>(l, s). if sel e \<and> gui_ready e then map_option (Pair l) (on_gui e s) else Some (l, s))"

definition main_tick :: "main_state \<Rightarrow> main_state option" where
  "main_tick = (\<lambda>(l, s).
     let (now, s1) = get_seconds s in
     if now \<ge> NEXTHELLO l then on_timer (l, s1) else Some (l, s1))"

definition main_flush :: "main_state \<Rightarrow> main_state option" where
  "main_flush = (\<lambda>(l, s).
     do { s1 \<leftarrow> flood_messages s;
          (_, s2) \<leftarrow> send_to_everyone_now (NEIGHBORS s1) s1;
          Some (l, s2) })"

definition main_iter :: "io \<Rightarrow> main_state \<Rightarrow> main_state option" where
  "main_iter e st =
     do { st1 \<leftarrow> main_recv e (main_select st);
          st2 \<leftarrow> main_read e st1;
          st3 \<leftarrow> main_tick st2;
          main_flush st3 }"

text \<open>
  Initialisation up to the loop: a random identity, the first message to the addresses
  \<open>getaddrinfo\<close> returned, empty lists.  The globals start out zeroed, as C globals do.
\<close>

definition main_init :: "int \<Rightarrow> sockaddr_in6 list \<Rightarrow> main_state \<Rightarrow> main_state option" where
  "main_init rc addrs = (\<lambda>(l, s).
     let (idb, s1) = random_on_octets 8 s; s2 = s1\<lparr>ID := le_word idb\<rparr> in
     do { (_, s3) \<leftarrow> send_first_message rc addrs s2;
          Some (l\<lparr>NEXTHELLO := 0\<rparr>, s3\<lparr>NEXTTIME := 0, DATAF := init_list\<rparr>) })"

text \<open>The globals before \<open>main\<close> runs.\<close>

definition zero_globals :: "peer \<Rightarrow> bool" where
  "zero_globals s \<longleftrightarrow> ID s = 0 \<and> POTENTIAL s = Null \<and> NEIGHBORS s = Null \<and> DATAF s = init_list \<and>
     floods s = Map.empty \<and> msgs s = Map.empty \<and> NEXTTIME s = 0 \<and> NB_SYMETRICAL s = 0 \<and> sent s = []"

definition disconnect_text :: "u8 list" where
  "disconnect_text = map (\<lambda>c. of_nat (of_char c)) ''Bon j'me casse ciao!''"

definition disconnect :: "'z peer_scheme \<Rightarrow> 'z peer_scheme option" where
  "disconnect s =
     do { (tmp, b) \<leftarrow> tlv_goaway (fresh_body s) 0 body_room 1 disconnect_text 20;
          let sz = (word_of_int tmp :: u16) in
          do { (_, s1) \<leftarrow> send_to_everyone ((local_message s)\<lparr>body := b, body_length := htons sz\<rparr>)
                            (unat sz + 4) (NEIGHBORS s) s;
               (_, s2) \<leftarrow> send_to_everyone_now (NEIGHBORS s1) s1;
               Some s2 } }"

end
