(* ===== verification/Wire.thy ===== *)
theory Wire
  imports NetLib
begin

text \<open>
  The format of the datagrams, as a reference parser independent of the handlers, and the two
  notions the rest of the development uses: a well-formed message buffer (\<open>good_msg\<close>) and a
  well-formed datagram (\<open>good_packet\<close>).
\<close>

section \<open>A reference parser for message bodies\<close>

text \<open>\<open>None\<close> when a TLV is cut short; \<open>pad1\<close> bytes are skipped.\<close>

fun parse_tlvs :: "u8 list \<Rightarrow> (u8 \<times> u8 list) list option" where
  "parse_tlvs [] = Some []"
| "parse_tlvs (t # bs) =
     (if t = 0 then parse_tlvs bs
      else case bs of
             [] \<Rightarrow> None
           | n # v \<Rightarrow>
               if unat n \<le> length v
               then map_option (Cons (t, take (unat n) v)) (parse_tlvs (drop (unat n) v))
               else None)"

definition encode_tlv :: "u8 \<Rightarrow> u8 list \<Rightarrow> u8 list" where
  "encode_tlv t v = t # of_nat (length v) # v"

lemma length_encode_tlv [simp]: "length (encode_tlv t v) = length v + 2"
  by (simp add: encode_tlv_def)

lemma unat_of_nat_u8: "n < 256 \<Longrightarrow> unat (of_nat n :: u8) = n"
  by (simp add: unat_of_nat)

lemma parse_encode [simp]:
  "t \<noteq> 0 \<Longrightarrow> length v < 256 \<Longrightarrow>
     parse_tlvs (encode_tlv t v @ rest) = map_option (Cons (t, v)) (parse_tlvs rest)"
  by (simp add: encode_tlv_def unat_of_nat_u8)

lemma parse_encode1 [simp]: "t \<noteq> 0 \<Longrightarrow> length v < 256 \<Longrightarrow> parse_tlvs (encode_tlv t v) = Some [(t, v)]"
  using parse_encode [of t v "[]"] by simp

lemma parse_append:
  "parse_tlvs a = Some xs \<Longrightarrow> parse_tlvs (a @ b) = map_option ((@) xs) (parse_tlvs b)"
proof (induction a arbitrary: xs rule: parse_tlvs.induct)
  case 1
  then show ?case by (cases "parse_tlvs b") auto
next
  case (2 t bs)
  show ?case
  proof (cases "t = 0 \<or> bs = []")
    case True
    then show ?thesis using 2 by auto
  next
    case False
    then obtain n v where bs: "bs = n # v" by (cases bs) auto
    with 2 False obtain ys where ys: "unat n \<le> length v" "parse_tlvs (drop (unat n) v) = Some ys"
      "xs = (t, take (unat n) v) # ys"
      by (auto split: if_splits)
    have "parse_tlvs (drop (unat n) v @ b) = map_option ((@) ys) (parse_tlvs b)"
      using "2.IH"(2) bs ys False by auto
    then show ?thesis using bs ys False by (simp add: option.map_comp comp_def)
  qed
qed

text \<open>
  The lengths a peer gives the TLVs it sends: data with all their fields and short enough for
  a signed length, go-aways with at least the code.
\<close>

definition tlv_ok :: "u8 \<Rightarrow> u8 \<Rightarrow> bool" where
  "tlv_ok ty len \<longleftrightarrow> (ty = 4 \<longrightarrow> 13 \<le> unat len \<and> unat len < 128) \<and> (ty = 6 \<longrightarrow> 1 \<le> unat len)"

text \<open>Sequences of complete TLVs of such lengths are closed under concatenation.\<close>

definition complete :: "u8 list \<Rightarrow> bool" where
  "complete bs \<longleftrightarrow> (\<exists>ts. parse_tlvs bs = Some ts \<and> (\<forall>(ty, v)\<in>set ts. tlv_ok ty (of_nat (length v))))"

lemma complete_Nil [simp]: "complete []"
  by (simp add: complete_def)

lemma complete_append: "complete a \<Longrightarrow> complete b \<Longrightarrow> complete (a @ b)"
  by (fastforce simp: complete_def parse_append)

lemma complete_encode [simp]:
  "t \<noteq> 0 \<Longrightarrow> length v < 256 \<Longrightarrow> (t = 4 \<longrightarrow> 13 \<le> length v \<and> length v < 128) \<Longrightarrow> (t = 6 \<longrightarrow> 0 < length v) \<Longrightarrow>
     complete (encode_tlv t v)"
  by (auto simp: complete_def tlv_ok_def unat_of_nat_u8 Suc_le_eq)

lemma encode_pad_shape: "length v = n \<Longrightarrow> n < 256 \<Longrightarrow> t # of_nat n # v = encode_tlv t v"
  by (simp add: encode_tlv_def)

section \<open>Buffers and datagrams\<close>

abbreviation body_size :: "message_h \<Rightarrow> nat" where
  "body_size m \<equiv> unat (ntohs (body_length m))"

text \<open>The part of a message that counts.\<close>

definition pending :: "message_h \<Rightarrow> u8 list" where
  "pending m = take (body_size m) (body m)"

definition good_msg :: "message_h \<Rightarrow> bool" where
  "good_msg m \<longleftrightarrow> magic m = 93 \<and> version m = 2 \<and> length (body m) = MAX_SIZE \<and>
     body_size m + 4 \<le> PMTU \<and> complete (pending m)"

definition packet :: "u8 list \<Rightarrow> u8 list" where
  "packet p = [93, 2] @ le_bytes 2 (htons (of_nat (length p))) @ p"

definition good_packet :: "u8 list \<Rightarrow> bool" where
  "good_packet bs \<longleftrightarrow> 4 \<le> length bs \<and> length bs \<le> PMTU \<and>
     bs = packet (drop 4 bs) \<and> complete (drop 4 bs)"

lemma length_packet [simp]: "length (packet p) = 4 + length p"
  by (simp add: packet_def)

lemma drop_packet [simp]: "drop 4 (packet p) = p"
  by (simp add: packet_def)

lemma good_packet_packet: "length p + 4 \<le> PMTU \<Longrightarrow> complete p \<Longrightarrow> good_packet (packet p)"
  by (simp add: good_packet_def)

lemma length_pending: "good_msg m \<Longrightarrow> length (pending m) = body_size m"
  by (simp add: good_msg_def pending_def MAX_SIZE_def PMTU_def)

lemma peek_message:
  assumes "good_msg m" "n = body_size m + 4"
  shows "peek (message_bytes m) 0 n = Some (packet (pending m))"
proof -
  have l: "length (pending m) = body_size m" by (rule length_pending [OF assms(1)])
  have "htons (of_nat (length (pending m))) = body_length m"
    unfolding l by simp
  moreover have "take n (message_bytes m) = [93, 2] @ le_bytes 2 (body_length m) @ pending m"
    using assms by (simp add: message_bytes_def good_msg_def pending_def take_Cons' numeral_eq_Suc)
  ultimately show ?thesis
    using assms by (simp add: peek_def packet_def good_msg_def MAX_SIZE_def PMTU_def)
qed

lemma good_packet_pending: "good_msg m \<Longrightarrow> good_packet (packet (pending m))"
  by (rule good_packet_packet) (auto simp: good_msg_def length_pending)

text \<open>A freshly composed message.\<close>

lemma composed:
  assumes "poke 0 bs (fresh_body w) = Some b" "complete bs" "length bs + 4 \<le> PMTU" "n = int (length bs)"
  shows "good_msg ((local_message w)\<lparr>body := b, body_length := htons (word_of_int n)\<rparr>)"
    "body_size ((local_message w)\<lparr>body := b, body_length := htons (word_of_int n)\<rparr>) = length bs"
    "pending ((local_message w)\<lparr>body := b, body_length := htons (word_of_int n)\<rparr>) = bs"
proof -
  have n: "unat (word_of_int n :: u16) = length bs"
    using assms(3,4) by (simp add: unat_of_nat PMTU_def)
  have b: "b = bs @ drop (length bs) (fresh_body w)" "length bs \<le> MAX_SIZE"
    using assms(1) by (auto simp: poke_Some_iff)
  show s: "body_size ((local_message w)\<lparr>body := b, body_length := htons (word_of_int n)\<rparr>) = length bs"
    by (simp add: n)
  show p: "pending ((local_message w)\<lparr>body := b, body_length := htons (word_of_int n)\<rparr>) = bs"
    using b by (simp add: pending_def n)
  show "good_msg ((local_message w)\<lparr>body := b, body_length := htons (word_of_int n)\<rparr>)"
    using s p b assms(2,3) by (simp add: good_msg_def local_message_def)
qed

lemma poke_fresh: "length bs \<le> MAX_SIZE \<Longrightarrow> \<exists>b. poke 0 bs (fresh_body w) = Some b"
  by (simp add: poke_def)

section \<open>The messages the program composes\<close>

abbreviation compose :: "'z world_scheme \<Rightarrow> u8 list \<Rightarrow> int \<Rightarrow> message_h" where
  "compose w b n \<equiv> (local_message w)\<lparr>body := b, body_length := htons (word_of_int n)\<rparr>"

lemma body_room_eq [simp]: "body_room = 1228"
  by (simp add: body_room_def PMTU_def)

lemma composedE:
  assumes "complete bs" "length bs + 4 \<le> PMTU"
  obtains b where "poke 0 bs (fresh_body w) = Some b" "good_msg (compose w b (int (length bs)))"
    "body_size (compose w b (int (length bs))) = length bs" "pending (compose w b (int (length bs))) = bs"
proof -
  obtain b where b: "poke 0 bs (fresh_body w) = Some b"
    using poke_fresh [of bs w] assms by (auto simp: PMTU_def MAX_SIZE_def)
  from that [OF b composed [OF b assms refl]] show thesis .
qed

lemma long_hello_message:
  obtains b where "tlv_long_hello (fresh_body w) 0 body_room i j = Some (18, b)"
    "good_msg (compose w b 18)" "body_size (compose w b 18) = 18"
    "pending (compose w b 18) = encode_tlv 2 (le_bytes 8 i @ le_bytes 8 j)"
proof -
  have e: "encode_tlv 2 (le_bytes 8 i @ le_bytes 8 j) = 2 # 16 # le_bytes 8 i @ le_bytes 8 j"
    by (simp add: encode_tlv_def)
  show thesis
    by (rule composedE [of "encode_tlv 2 (le_bytes 8 i @ le_bytes 8 j)" w])
       (auto simp: PMTU_def tlv_long_hello_eq e [symmetric] intro!: that)
qed

lemma short_hello_message:
  obtains b where "tlv_short_hello (fresh_body w) 0 body_room i = Some (10, b)"
    "good_msg (compose w b 10)" "body_size (compose w b 10) = 10"
    "pending (compose w b 10) = encode_tlv 2 (le_bytes 8 i)"
proof -
  have e: "encode_tlv 2 (le_bytes 8 i) = 2 # 8 # le_bytes 8 i"
    by (simp add: encode_tlv_def)
  show thesis
    by (rule composedE [of "encode_tlv 2 (le_bytes 8 i)" w])
       (auto simp: PMTU_def tlv_short_hello_eq e [symmetric] intro!: that)
qed

lemma ack_message:
  obtains b where "tlv_ack (fresh_body w) 0 body_room i non = Some (14, b)"
    "good_msg (compose w b 14)" "body_size (compose w b 14) = 14"
    "pending (compose w b 14) = encode_tlv 5 (le_bytes 8 i @ le_bytes 4 non)"
proof -
  have e: "encode_tlv 5 (le_bytes 8 i @ le_bytes 4 non) = 5 # 12 # le_bytes 8 i @ le_bytes 4 non"
    by (simp add: encode_tlv_def)
  show thesis
    by (rule composedE [of "encode_tlv 5 (le_bytes 8 i @ le_bytes 4 non)" w])
       (auto simp: PMTU_def tlv_ack_eq e [symmetric] intro!: that)
qed

lemma goaway_message:
  assumes "unat n \<le> length text" "unat n < 255"
  obtains b where "tlv_goaway (fresh_body w) 0 body_room code text n = Some (int (unat n) + 3, b)"
    "good_msg (compose w b (int (unat n) + 3))" "body_size (compose w b (int (unat n) + 3)) = unat n + 3"
    "pending (compose w b (int (unat n) + 3)) = encode_tlv 6 (code # take (unat n) text)"
proof -
  have n1: "unat (1 + n) = unat n + 1" using assms(2) by (simp add: unat_8_add)
  have "of_nat (unat (1 + n)) = 1 + n" by simp
  then have n1w: "1 + n = of_nat (unat n + 1)" unfolding n1 by (rule sym)
  then have e: "encode_tlv 6 (code # take (unat n) text) = 6 # (1 + n) # code # take (unat n) text"
    using assms by (simp add: encode_tlv_def)
  have l: "int (length (encode_tlv 6 (code # take (unat n) text))) = int (unat n) + 3"
    using assms by simp
  show thesis
    by (rule composedE [of "encode_tlv 6 (code # take (unat n) text)" w, unfolded l])
       (use assms n1 in \<open>auto simp: PMTU_def tlv_goaway_eq e [symmetric] intro!: that\<close>)
qed

end
