(* ===== verification/Net_Laws.thy ===== *)
theory Net_Laws
  imports Wire
begin

text \<open>
  What the sending functions do.  \<open>net_step\<close> is the frame of all of them: only the message
  buffers and the record of datagrams change, no buffer is allocated or freed, well-formed
  buffers stay well formed, and every datagram that leaves is well formed and at most
  \<open>PMTU\<close> bytes long.
\<close>

section \<open>The frame of a send\<close>

definition net_step :: "'z world_scheme \<Rightarrow> 'z world_scheme \<Rightarrow> bool" where
  "net_step w w' \<longleftrightarrow>
     w\<lparr>msgs := msgs w', sent := sent w'\<rparr> = w' \<and>
     (\<forall>b. msgs w' b = None \<longleftrightarrow> msgs w b = None) \<and>
     (\<forall>b m. msgs w b = Some m \<and> good_msg m \<longrightarrow> good_msg (the (msgs w' b))) \<and>
     (\<exists>new. sent w' = sent w @ new \<and> (\<forall>p\<in>set new. good_packet (snd p)))"

lemma net_step_refl [intro, simp]: "net_step w w"
  by (simp add: net_step_def)

lemma net_step_trans [trans]:
  assumes "net_step w1 w2" "net_step w2 w3"
  shows "net_step w1 w3"
proof -
  have "w1\<lparr>msgs := msgs w3, sent := sent w3\<rparr> = w3"
  proof -
    have "w1\<lparr>msgs := msgs w2, sent := sent w2\<rparr>\<lparr>msgs := msgs w3, sent := sent w3\<rparr> = w3"
      using assms by (simp add: net_step_def)
    then show ?thesis by simp
  qed
  moreover have "\<exists>new. sent w3 = sent w1 @ new \<and> (\<forall>p\<in>set new. good_packet (snd p))"
  proof -
    obtain n1 n2 where "sent w2 = sent w1 @ n1" "sent w3 = sent w2 @ n2"
      "\<forall>p\<in>set n1. good_packet (snd p)" "\<forall>p\<in>set n2. good_packet (snd p)"
      using assms unfolding net_step_def by blast
    then have "sent w3 = sent w1 @ (n1 @ n2) \<and> (\<forall>p\<in>set (n1 @ n2). good_packet (snd p))" by auto
    then show ?thesis by blast
  qed
  moreover have "good_msg (the (msgs w3 b))" if "msgs w1 b = Some m" "good_msg m" for b m
  proof -
    have "good_msg (the (msgs w2 b))" "msgs w2 b \<noteq> None"
      using assms(1) that unfolding net_step_def by auto
    then show ?thesis using assms(2) unfolding net_step_def by auto
  qed
  ultimately show ?thesis using assms unfolding net_step_def by blast
qed

lemma net_step_eq: "net_step w w' \<Longrightarrow> \<exists>M S. w' = w\<lparr>msgs := M, sent := S\<rparr>"
  unfolding net_step_def by metis

text \<open>The buffer of a neighbour can be written and sent.\<close>

definition sendable :: "'z world_scheme \<Rightarrow> neighbor \<Rightarrow> bool" where
  "sendable w n \<longleftrightarrow> (\<forall>b. msg n = Some b \<longrightarrow> msgs w b \<noteq> None \<and> good_msg (the (msgs w b)))"

lemma sendable_no_buffer [simp]: "msg n = None \<Longrightarrow> sendable w n"
  by (simp add: sendable_def)

lemma sendable_step: "net_step w w' \<Longrightarrow> sendable w n \<Longrightarrow> sendable w' n"
  unfolding sendable_def net_step_def by (metis option.collapse)

definition all_sendable :: "'z world_scheme \<Rightarrow> tree \<Rightarrow> bool" where
  "all_sendable w t \<longleftrightarrow> (\<forall>(a, k, v)\<in>set (entries t). sendable w k)"

lemma all_sendable_simps [simp]:
  "all_sendable w Null"
  "all_sendable w (Tree a k v l r) \<longleftrightarrow> all_sendable w l \<and> sendable w k \<and> all_sendable w r"
  by (auto simp: all_sendable_def split_def)

lemma all_sendable_step: "net_step w w' \<Longrightarrow> all_sendable w t \<Longrightarrow> all_sendable w' t"
  using sendable_step by (fastforce simp: all_sendable_def)

section \<open>send\_message\<close>

lemma send_message_direct:
  assumes "good_msg buf" "n = body_size buf + 4" "msg rcpt = None"
  shows "send_message buf n rcpt w =
    Some (1, w\<lparr>sent := sent w @ [(neighbor_to_sockaddr6 rcpt, packet (pending buf))]\<rparr>)"
  using assms by (simp add: send_message_def send_message_now_def peek_message)

text \<open>The buffer after \<open>p\<close> was written behind its first \<open>n\<close> bytes.\<close>

lemma buffer_append:
  assumes m: "good_msg m" and buf: "good_msg buf"
    and n: "n = 0 \<or> n = body_size m" "n + body_size buf + 4 \<le> PMTU"
    and b: "b = take n (body m) @ pending buf @ drop (n + body_size buf) (body m)"
  shows "good_msg (m\<lparr>body := b, body_length := htons (of_nat (n + body_size buf))\<rparr>)"
    "pending (m\<lparr>body := b, body_length := htons (of_nat (n + body_size buf))\<rparr>) = take n (body m) @ pending buf"
proof -
  let ?m = "m\<lparr>body := b, body_length := htons (of_nat (n + body_size buf))\<rparr>"
  have lp: "length (pending buf) = body_size buf" by (rule length_pending [OF buf])
  have "unat (of_nat (n + body_size buf) :: u16) = n + body_size buf"
    using n(2) by (intro unat_of_nat_u16) (simp add: PMTU_def)
  then have s: "body_size ?m = n + body_size buf" by simp
  have lm: "length (body m) = MAX_SIZE" using m by (simp add: good_msg_def)
  have lb: "length b = MAX_SIZE" using b lp lm n by (simp add: PMTU_def MAX_SIZE_def)
  have "take (n + body_size buf) b = take n (body m) @ pending buf"
    using b lp lm n(2) by (simp add: PMTU_def MAX_SIZE_def)
  then show p: "pending ?m = take n (body m) @ pending buf"
    unfolding pending_def [of ?m] s by simp
  have "complete (take n (body m))" using n(1) m by (auto simp: good_msg_def pending_def)
  then have "complete (pending ?m)"
    unfolding p using buf by (intro complete_append) (simp_all add: good_msg_def)
  then show "good_msg ?m" using s lb m n(2) by (simp add: good_msg_def)
qed

lemma send_message_buffered:
  assumes buf: "good_msg buf" and a: "msg rcpt = Some a" "msgs w a = Some m" and m: "good_msg m"
  shows "\<exists>m' w'. send_message buf n rcpt w = Some (1, w') \<and> good_msg m' \<and> msgs w' = (msgs w)(a \<mapsto> m') \<and>
    w' = w\<lparr>msgs := msgs w', sent := sent w'\<rparr> \<and>
    (if body_size m + body_size buf + 4 \<le> PMTU
     then pending m' = pending m @ pending buf \<and> sent w' = sent w
     else pending m' = pending buf \<and> sent w' = sent w @ [(neighbor_to_sockaddr6 rcpt, packet (pending m))])"
proof -
  let ?big = "PMTU < body_size m + body_size buf + 4"
  let ?n = "if ?big then 0 else body_size m"
  let ?w1 = "if ?big then w\<lparr>sent := sent w @ [(neighbor_to_sockaddr6 rcpt, packet (pending m))]\<rparr> else w"
  let ?b = "take ?n (body m) @ pending buf @ drop (?n + body_size buf) (body m)"
  let ?m = "m\<lparr>body := ?b, body_length := htons (of_nat (?n + body_size buf))\<rparr>"
  have n: "?n = 0 \<or> ?n = body_size m" "?n + body_size buf + 4 \<le> PMTU"
    using buf by (auto simp: good_msg_def)
  have src: "peek (body buf) 0 (body_size buf) = Some (pending buf)"
    using buf by (simp add: peek_def pending_def good_msg_def MAX_SIZE_def PMTU_def)
  have dst: "poke ?n (pending buf) (body m) = Some ?b"
    using length_pending [OF buf] m n(2) by (simp add: poke_def good_msg_def MAX_SIZE_def PMTU_def)
  have out: "(if ?big then
      do { (_, w1) \<leftarrow> send_message_now (message_bytes m) (body_size m + 4) rcpt w; Some (0, w1) }
      else Some (body_size m, w)) = Some (?n, ?w1)"
    using m by (simp add: send_message_now_def peek_message)
  have "send_message buf n rcpt w = Some (1, ?w1\<lparr>msgs := (msgs ?w1)(a \<mapsto> ?m)\<rparr>)"
    unfolding send_message_def a option.case bind.bind_lunit Let_def out split
    by (simp only: src dst bind.bind_lunit)
  then show ?thesis
    using buffer_append [OF m buf n refl]
    by (intro exI [of _ ?m] exI [of _ "?w1\<lparr>msgs := (msgs ?w1)(a \<mapsto> ?m)\<rparr>"])
       (auto simp: pending_def)
qed

text \<open>The summary used by all callers.\<close>

lemma send_message_step:
  assumes "good_msg buf" "n = body_size buf + 4" "sendable w rcpt"
  shows "\<exists>w'. send_message buf n rcpt w = Some (1, w') \<and> net_step w w'"
proof (cases "msg rcpt")
  case None
  then show ?thesis
    unfolding send_message_direct [OF assms(1,2) None] using assms(1)
    by (auto simp: net_step_def good_packet_pending)
next
  case (Some a)
  then obtain m where m: "msgs w a = Some m" "good_msg m"
    using assms(3) by (auto simp: sendable_def)
  obtain m' w' where r: "send_message buf n rcpt w = Some (1, w')" "good_msg m'" "msgs w' = (msgs w)(a \<mapsto> m')"
    "w' = w\<lparr>msgs := msgs w', sent := sent w'\<rparr>"
    "sent w' = sent w \<or> sent w' = sent w @ [(neighbor_to_sockaddr6 rcpt, packet (pending m))]"
    using send_message_buffered [OF assms(1) Some m, of n] by (metis (full_types))
  have "net_step w w'"
    unfolding net_step_def
    using r m by (auto simp: good_packet_pending)
  then show ?thesis using r(1) by blast
qed

section \<open>Sending to a whole tree\<close>

lemma send_to_everyone_step:
  assumes "good_msg buf" "n = body_size buf + 4"
  shows "all_sendable w t \<Longrightarrow> \<exists>w'. send_to_everyone buf n t w = Some (number_of_neighbors t, w') \<and> net_step w w'"
proof (induction t arbitrary: w)
  case (Tree a k v l r)
  obtain w1 where 1: "send_message buf n k w = Some (1, w1)" "net_step w w1"
    using send_message_step [OF assms, of w k] Tree.prems by auto
  obtain w2 where 2: "send_to_everyone buf n l w1 = Some (number_of_neighbors l, w2)" "net_step w1 w2"
    using Tree.IH(1) [of w1] Tree.prems all_sendable_step [OF 1(2)] by auto
  obtain w3 where 3: "send_to_everyone buf n r w2 = Some (number_of_neighbors r, w3)" "net_step w2 w3"
    using Tree.IH(2) [of w2] Tree.prems all_sendable_step [OF net_step_trans [OF 1(2) 2(2)]] by auto
  have "net_step w w3" using 1 2 3 net_step_trans by blast
  then show ?case using 1 2 3 by simp
qed simp

lemma send_to_everyone_now_step:
  "all_sendable w t \<Longrightarrow> \<exists>rc w'. send_to_everyone_now t w = Some (rc, w') \<and> net_step w w'"
proof (induction t arbitrary: w)
  case (Tree a k v l r)
  have "\<exists>rc w1. (case msg k of
               None \<Rightarrow> Some (0 :: int, w)
             | Some b \<Rightarrow>
                 do { m \<leftarrow> msgs w b;
                      if body_length m \<noteq> 0 then
                        do { (rc, w1) \<leftarrow> send_message_now (message_bytes m)
                               (unat (ntohs (body_length m)) + 4) k w;
                             Some (if rc > 0 then 1 else 0,
                               w1\<lparr>msgs := (msgs w1)(b \<mapsto> m\<lparr>body_length := 0\<rparr>)\<rparr>) }
                      else Some (0, w) }) = Some (rc, w1) \<and> net_step w w1"
  proof (cases "msg k")
    case (Some b)
    then obtain m where m: "msgs w b = Some m" "good_msg m"
      using Tree.prems by (auto simp: sendable_def)
    have "good_msg (m\<lparr>body_length := 0\<rparr>)" using m(2) by (simp add: good_msg_def pending_def)
    then show ?thesis
      using Some m good_packet_pending [OF m(2)]
      by (auto simp: send_message_now_def peek_message net_step_def)
  qed simp
  then obtain rc w1 where 1: "(case msg k of
               None \<Rightarrow> Some (0 :: int, w)
             | Some b \<Rightarrow>
                 do { m \<leftarrow> msgs w b;
                      if body_length m \<noteq> 0 then
                        do { (rc, w1) \<leftarrow> send_message_now (message_bytes m)
                               (unat (ntohs (body_length m)) + 4) k w;
                             Some (if rc > 0 then 1 else 0,
                               w1\<lparr>msgs := (msgs w1)(b \<mapsto> m\<lparr>body_length := 0\<rparr>)\<rparr>) }
                      else Some (0, w) }) = Some (rc, w1)" "net_step w w1" by blast
  obtain r2 w2 where 2: "send_to_everyone_now l w1 = Some (r2, w2)" "net_step w1 w2"
    using Tree.IH(1) [of w1] Tree.prems all_sendable_step [OF 1(2)] by auto
  obtain r3 w3 where 3: "send_to_everyone_now r w2 = Some (r3, w3)" "net_step w2 w3"
    using Tree.IH(2) [of w2] Tree.prems all_sendable_step [OF net_step_trans [OF 1(2) 2(2)]] by auto
  have "net_step w w3" using 1 2 3 net_step_trans by blast
  then show ?case using 1(1) 2 3 by (simp only: send_to_everyone_now.simps bind.bind_lunit split) simp
qed simp

lemma send_hello_everyone_step:
  "all_sendable s t \<Longrightarrow> \<exists>s'. send_hello_everyone t s = Some (number_of_neighbors t, s') \<and> net_step s s'"
proof (induction t arbitrary: s)
  case (Tree a k v l r)
  obtain b where b: "tlv_long_hello (fresh_body s) 0 body_room (ID s) (ident_id v) = Some (18, b)"
    "good_msg (compose s b 18)" "body_size (compose s b 18) = 18"
    by (rule long_hello_message)
  obtain w1 where 1: "send_message (compose s b 18) 22 k s = Some (1, w1)" "net_step s w1"
    using send_message_step [OF b(2), of 22 s k] b(3) Tree.prems by auto
  obtain w2 where 2: "send_hello_everyone l w1 = Some (number_of_neighbors l, w2)" "net_step w1 w2"
    using Tree.IH(1) [of w1] Tree.prems all_sendable_step [OF 1(2)] by auto
  obtain w3 where 3: "send_hello_everyone r w2 = Some (number_of_neighbors r, w3)" "net_step w2 w3"
    using Tree.IH(2) [of w2] Tree.prems all_sendable_step [OF net_step_trans [OF 1(2) 2(2)]] by auto
  have "net_step s w3" using 1 2 3 net_step_trans by blast
  then show ?case using 1 2 3 b(1) by (simp add: Let_def del: body_room_eq)
qed simp

lemma send_shorthello_everyone_step:
  assumes "all_sendable s (POTENTIAL s)"
  shows "\<exists>s'. send_shorthello_everyone t s = Some (number_of_neighbors (POTENTIAL s), s') \<and> net_step s s'"
proof -
  obtain b where b: "tlv_short_hello (fresh_body s) 0 body_room (ID s) = Some (10, b)"
    "good_msg (compose s b 10)" "body_size (compose s b 10) = 10"
    by (rule short_hello_message)
  show ?thesis
    using send_to_everyone_step [OF b(2), of 14 s "POTENTIAL s"] b assms
    by (simp add: send_shorthello_everyone_def del: body_room_eq)
qed

section \<open>Batches of neighbour TLVs\<close>

lemma net_step_peer:
  assumes "net_step s s'"
  shows "NEIGHBORS s' = NEIGHBORS s" "POTENTIAL s' = POTENTIAL s" "DATAF s' = DATAF s" "floods s' = floods s"
    "ID s' = ID s" "live s' = live s" "NEXTTIME s' = NEXTTIME s" "NB_SYMETRICAL s' = NB_SYMETRICAL s"
    "clock s' = clock s" "alloc_ok s' = alloc_ok s" "rnd s' = rnd s" "next_addr s' = next_addr s"
    "ticks s' = ticks s" "rnds s' = rnds s"
  using net_step_eq [OF assms] by (auto simp: live_def fun_eq_iff)

text \<open>The message under construction in the loop: \<open>sz\<close> bytes of complete TLVs.\<close>

definition batch :: "message_h \<Rightarrow> size_t \<Rightarrow> bool" where
  "batch m sz \<longleftrightarrow> magic m = 93 \<and> version m = 2 \<and> length (body m) = MAX_SIZE \<and>
     unat sz \<le> 1228 \<and> complete (take (unat sz) (body m))"

lemma batch_good:
  assumes "batch m sz"
  shows "good_msg (m\<lparr>body_length := htons (ucast sz)\<rparr>)"
    "body_size (m\<lparr>body_length := htons (ucast sz)\<rparr>) + 4 = unat (sz + 4)"
proof -
  have s: "unat sz \<le> 1228" using assms by (simp add: batch_def)
  have u: "unat (ucast sz :: u16) = unat sz"
    using s by (simp add: unsigned_ucast_eq take_bit_nat_eq_self_iff)
  have "unat (sz + 4) = unat sz + 4" using s by (simp add: unat_word_ariths)
  then show "body_size (m\<lparr>body_length := htons (ucast sz)\<rparr>) + 4 = unat (sz + 4)" using u by simp
  show "good_msg (m\<lparr>body_length := htons (ucast sz)\<rparr>)"
    using assms u by (simp add: good_msg_def batch_def pending_def PMTU_def)
qed

lemma batch_size: "batch m sz \<Longrightarrow> unat (ucast sz :: u16) = unat sz"
  by (simp add: batch_def unsigned_ucast_eq take_bit_nat_eq_self_iff)

lemma batch_add:
  assumes "batch m sz" "wf_neighbor n" "21 < 1228 - sz"
  shows "\<exists>b. tlv_neighbour (body m) (unat sz) (1228 - sz) n = Some (20, b) \<and> batch (m\<lparr>body := b\<rparr>) (sz + 20) \<and>
    take (unat (sz + 20)) b = take (unat sz) (body m) @ encode_tlv 3 (ip n @ le_bytes 2 (htons (port n)))"
proof -
  let ?t = "3 # 18 # ip n @ le_bytes 2 (htons (port n))"
  have e: "?t = encode_tlv 3 (ip n @ le_bytes 2 (htons (port n)))" "length ?t = 20"
    using assms(2) by (simp_all add: encode_tlv_def wf_neighbor_def)
  have s: "unat sz \<le> 1228" "length (body m) = 4096" "complete (take (unat sz) (body m))"
    using assms(1) by (simp_all add: batch_def MAX_SIZE_def)
  have le: "sz \<le> 1228" using s(1) by (simp add: word_le_nat_alt)
  have "unat (1228 - sz) = 1228 - unat sz" using unat_sub [OF le] by simp
  then have room: "unat sz + 21 < 1228" using assms(3) s(1) by (simp add: word_less_nat_alt)
  then have s20: "unat (sz + 20) = unat sz + 20" by (simp add: unat_word_ariths)
  obtain b where b: "poke (unat sz) ?t (body m) = Some b" "b = take (unat sz) (body m) @ ?t @ drop (unat sz + 20) (body m)"
    using s(2) room e(2) by (simp add: poke_def)
  have t: "take (unat (sz + 20)) b = take (unat sz) (body m) @ ?t"
  proof -
    have "length (take (unat sz) (body m) @ ?t) = unat sz + 20" using s(2) room e(2) by simp
    moreover have "b = (take (unat sz) (body m) @ ?t) @ drop (unat sz + 20) (body m)" using b(2) by simp
    ultimately show ?thesis unfolding s20 by (metis append_eq_conv_conj)
  qed
  have "complete (take (unat (sz + 20)) b)"
    unfolding t e(1) using s(3) assms(2) by (intro complete_append) (simp_all add: wf_neighbor_def)
  moreover have "length b = 4096" using poke_length [OF b(1)] s(2) by simp
  ultimately have "batch (m\<lparr>body := b\<rparr>) (sz + 20)"
    using assms(1) room s20 by (simp add: batch_def MAX_SIZE_def)
  then show ?thesis using b(1) assms(2,3) t e(1) by (simp add: tlv_neighbour_eq)
qed

text \<open>The entries point to well-formed neighbours that are still allocated.\<close>

definition pointing :: "(addr \<Rightarrow> bool) \<Rightarrow> ngb_entry list \<Rightarrow> bool" where
  "pointing lv es \<longleftrightarrow> (\<forall>e\<in>set es. \<exists>n. deref lv (sym e) = Some n \<and> wf_neighbor n)"

fun target :: "nptr \<Rightarrow> neighbor" where
  "target (Local n) = n"
| "target (Key a k) = k"

lemma deref_target: "deref lv p = Some n \<Longrightarrow> n = target p"
  by (cases p) (auto split: if_splits)

text \<open>The neighbour TLV that tells of \<open>n\<close>, and messages sent to everyone one after the other.\<close>

definition announcement :: "neighbor \<Rightarrow> u8 list" where
  "announcement n = encode_tlv 3 (ip n @ le_bytes 2 (htons (port n)))"

fun send_batches :: "message_h list \<Rightarrow> tree \<Rightarrow> 'z world_scheme \<Rightarrow> 'z world_scheme option" where
  "send_batches [] t w = Some w"
| "send_batches (m # ms) t w = do { (_, w1) \<leftarrow> send_to_everyone m (body_size m + 4) t w; send_batches ms t w1 }"

lemma symetrical_loop_step:
  assumes "batch m sz" "pointing (live s) es" "all_sendable s t"
  shows "\<exists>m' sz' res' s' ms. symetrical_loop es m sz res count t s = Some (m', sz', res', count + int (length es), s') \<and>
    batch m' sz' \<and> net_step s s' \<and> (\<forall>x\<in>set ms. good_msg x) \<and> send_batches ms t s = Some s' \<and>
    concat (map pending ms) @ take (unat sz') (body m') =
      take (unat sz) (body m) @ concat (map (announcement \<circ> target \<circ> sym) es)"
  using assms
proof (induction es arbitrary: m sz res count s)
  case Nil
  then show ?case by (intro exI [of _ m] exI [of _ sz] exI [of _ res] exI [of _ s] exI [of _ "[]"]) simp
next
  case (Cons e es)
  obtain n where n: "deref (live s) (sym e) = Some n" "wf_neighbor n" and es: "pointing (live s) es"
    using Cons.prems(2) by (auto simp: pointing_def)
  have tg: "target (sym e) = n" using deref_target [OF n(1)] by simp
  have len: "count + 1 + int (length es) = count + int (length (e # es))" by simp
  show ?case
  proof (cases "21 < 1228 - sz")
    case True
    then obtain b where b: "tlv_neighbour (body m) (unat sz) (1228 - sz) n = Some (20, b)" "batch (m\<lparr>body := b\<rparr>) (sz + 20)"
      "take (unat (sz + 20)) b = take (unat sz) (body m) @ announcement n"
      using batch_add [OF Cons.prems(1) n(2)] unfolding announcement_def by blast
    have "symetrical_loop (e # es) m sz res count t s = symetrical_loop es (m\<lparr>body := b\<rparr>) (sz + 20) res (count + 1) t s"
      using n(1) b(1) by simp
    then show ?thesis using Cons.IH [OF b(2) es Cons.prems(3), of res "count + 1"] len b(3) tg by simp
  next
    case False
    let ?m1 = "m\<lparr>body_length := htons (ucast sz)\<rparr>"
    note g = batch_good [OF Cons.prems(1)]
    have "tlv_neighbour (body m) (unat sz) (1228 - sz) n = Some (-1, body m)"
      using False n(2) by (simp add: tlv_neighbour_eq)
    moreover obtain rc s1 where s1: "send_to_everyone ?m1 (unat (sz + 4)) t s = Some (rc, s1)" "net_step s s1"
      using send_to_everyone_step [OF g(1) g(2) [symmetric]] Cons.prems(3) by blast
    have b0: "batch ?m1 0" using Cons.prems(1) by (simp add: batch_def)
    obtain b where b: "tlv_neighbour (body ?m1) 0 1228 n = Some (20, b)" "batch (?m1\<lparr>body := b\<rparr>) 20"
      "take 20 b = announcement n"
      using batch_add [OF b0 n(2)] unfolding announcement_def by auto
    have "symetrical_loop (e # es) m sz res count t s = symetrical_loop es (?m1\<lparr>body := b\<rparr>) 20 rc (count + 1) t s1"
      using n(1) calculation s1 b(1) by (simp add: net_step_peer)
    moreover have "pointing (live s1) es" "all_sendable s1 t"
      using es Cons.prems(3) s1(2) by (simp_all add: net_step_peer all_sendable_step)
    ultimately obtain m' sz' res' s' ms where
      r: "symetrical_loop (e # es) m sz res count t s = Some (m', sz', res', count + int (length (e # es)), s')" "batch m' sz'"
      "net_step s1 s'" "\<forall>x\<in>set ms. good_msg x" "send_batches ms t s1 = Some s'"
      "concat (map pending ms) @ take (unat sz') (body m') = take 20 b @ concat (map (announcement \<circ> target \<circ> sym) es)"
      using Cons.IH [OF b(2), of s1 rc "count + 1"] len by fastforce
    have pm: "pending ?m1 = take (unat sz) (body m)" using g(2) Cons.prems(1) by (simp add: pending_def batch_size)
    have "send_batches (?m1 # ms) t s = Some s'" unfolding send_batches.simps g(2) s1(1) using r(5) by simp
    moreover have "concat (map pending (?m1 # ms)) @ take (unat sz') (body m') =
        take (unat sz) (body m) @ concat (map (announcement \<circ> target \<circ> sym) (e # es))"
      using r(6) pm b(3) tg by simp
    moreover have "\<forall>x\<in>set (?m1 # ms). good_msg x" using r(4) g(1) by simp
    ultimately show ?thesis using r(1,2) net_step_trans [OF s1(2) r(3)] by blast
  qed
qed

end
