(* ===== verification/Peer_Inv.thy ===== *)
theory Peer_Inv
  imports Net_Laws Flood
begin

text \<open>
  The invariant of the peer's shared state, and what the library calls, sending and the tree
  operations do to it.  It holds as long as memory does not run out and the machine has been
  up for less than nine hours (\<open>env_ok\<close>): beyond that, differences of waiting times
  returned as \<open>short\<close> are truncated.
\<close>

section \<open>The invariant\<close>

definition env_ok :: "'z world_scheme \<Rightarrow> bool" where
  "env_ok w \<longleftrightarrow> malloc_ok w \<and> rand_ok w \<and> clock_ok w \<and> (\<forall>n. clock w n < 32768 - 64)"

definition buffers :: "tree \<Rightarrow> addr list" where
  "buffers t = List.map_filter (\<lambda>(a, k, v). msg k) (entries t)"

text \<open>
  Both trees are ordered; every node's key has its own address; every allocated message buffer
  belongs to exactly one neighbour (none is leaked, none is shared) and is well formed;
  potential neighbours have none.
\<close>

definition trees_ok :: "'z peer_scheme \<Rightarrow> bool" where
  "trees_ok s \<longleftrightarrow> bst (NEIGHBORS s) \<and> bst (POTENTIAL s) \<and>
     distinct (tree_addrs (NEIGHBORS s) @ tree_addrs (POTENTIAL s)) \<and>
     (\<forall>a. live s a \<longrightarrow> a < next_addr s) \<and>
     distinct (buffers (NEIGHBORS s)) \<and> set (buffers (NEIGHBORS s)) = dom (msgs s) \<and>
     buffers (POTENTIAL s) = [] \<and>
     (\<forall>b m. msgs s b = Some m \<longrightarrow> b < next_addr s \<and> good_msg m)"

definition points_to :: "tree \<Rightarrow> nptr \<Rightarrow> bool" where
  "points_to t p \<longleftrightarrow> (\<exists>e\<in>set (entries t). p = entry_ptr e)"

text \<open>
  The list of neighbours a datum is still to be sent to: each entry points to a key that a
  node of \<open>NEIGHBORS\<close> owns, no two to the same, in the order of the times they are due.
\<close>

definition nodes_ok :: "tree \<Rightarrow> addr \<Rightarrow> (addr \<times> ngb_entry) list \<Rightarrow> bool" where
  "nodes_ok t na ns \<longleftrightarrow>
     distinct (map fst ns) \<and> distinct (map (sym \<circ> snd) ns) \<and> sorted (map (wait_until \<circ> snd) ns) \<and>
     (\<forall>(q, e)\<in>set ns. q < na \<and> points_to t (sym e) \<and> 0 \<le> times_sent e \<and> times_sent e \<le> 5 \<and>
        1 \<le> wait_until e \<and> wait_until e < 32768)"

text \<open>The stored TLV: type 4, a length a signed \<open>char\<close> can hold, and the index it is filed under.\<close>

definition stored_tlv :: "data_index \<Rightarrow> u8 list \<Rightarrow> bool" where
  "stored_tlv ix d \<longleftrightarrow> length d = FLOOD_DATA_SIZE \<and> d ! 0 = 4 \<and> 13 \<le> unat (d ! 1) \<and> unat (d ! 1) < 128 \<and>
     le_word (take 8 (drop 2 d)) = index_id ix \<and> le_word (take 4 (drop 10 d)) = nonce ix"

definition flood_ok :: "tree \<Rightarrow> addr \<Rightarrow> flood_entry \<Rightarrow> bool" where
  "flood_ok t na f \<longleftrightarrow> stored_tlv (flood_index f) (flood_data f) \<and> nodes_ok t na (nodes (sym_neighbors f))"

text \<open>At most 100 recent data, each stored once, none leaked, no two under the same index.\<close>

definition queue_ok :: "ptr clist \<Rightarrow> addr set \<Rightarrow> bool" where
  "queue_ok d A \<longleftrightarrow> wf_clist d \<and> length (contents d) \<le> 100 \<and>
     (\<exists>as. contents d = map Some as \<and> distinct as \<and> set as = A)"

definition table_ok :: "tree \<Rightarrow> addr \<Rightarrow> (addr \<Rightarrow> flood_entry option) \<Rightarrow> bool" where
  "table_ok t na F \<longleftrightarrow>
     (\<forall>a f. F a = Some f \<longrightarrow> a < na \<and> flood_ok t na f) \<and>
     (\<forall>a b f g. F a = Some f \<longrightarrow> F b = Some g \<longrightarrow> flood_index f = flood_index g \<longrightarrow> a = b)"

definition floods_ok :: "'z peer_scheme \<Rightarrow> bool" where
  "floods_ok s \<longleftrightarrow> queue_ok (DATAF s) (dom (floods s)) \<and> table_ok (NEIGHBORS s) (next_addr s) (floods s)"

definition peer_ok :: "'z peer_scheme \<Rightarrow> bool" where
  "peer_ok s \<longleftrightarrow> env_ok s \<and> trees_ok s \<and> floods_ok s \<and> (\<forall>p\<in>set (sent s). good_packet (snd p))"

lemma peer_ok_parts: "peer_ok s \<Longrightarrow> env_ok s" "peer_ok s \<Longrightarrow> trees_ok s" "peer_ok s \<Longrightarrow> floods_ok s"
  by (simp_all add: peer_ok_def)

section \<open>Basic facts\<close>

lemma env_okD:
  assumes "env_ok w"
  shows "malloc_ok w" "rand_ok w" "clock_ok w" "0 \<le> clock w n" "clock w n < 32704"
  using assms by (auto simp: env_ok_def clock_ok_def)

lemma env_get_seconds: "env_ok w \<Longrightarrow> get_seconds w = (clock w (ticks w), w\<lparr>ticks := Suc (ticks w)\<rparr>)"
  using get_seconds_clock [of w] by (simp add: env_ok_def get_seconds_def)

lemma env_malloc: "env_ok w \<Longrightarrow> malloc w = (Some (next_addr w), w\<lparr>next_addr := Suc (next_addr w)\<rparr>)"
  by (simp add: env_ok_def malloc_ok_def malloc_def)

lemma env_ok_cong:
  "alloc_ok w' = alloc_ok w \<Longrightarrow> clock w' = clock w \<Longrightarrow> rnd w' = rnd w \<Longrightarrow> env_ok w \<Longrightarrow> env_ok w'"
  by (simp add: env_ok_def malloc_ok_def rand_ok_def clock_ok_def)

lemma buffers_simps [simp]:
  "buffers Null = []"
  "buffers (Tree a k v l r) = buffers l @ (case msg k of None \<Rightarrow> [] | Some b \<Rightarrow> [b]) @ buffers r"
  by (auto simp: buffers_def List.map_filter_def split: option.splits)

lemma in_buffers: "b \<in> set (buffers t) \<longleftrightarrow> (\<exists>e\<in>set (entries t). msg (fst (snd e)) = Some b)"
  by (force simp: buffers_def List.map_filter_def)

lemma points_to_entry [intro]: "e \<in> set (entries t) \<Longrightarrow> points_to t (entry_ptr e)"
  by (auto simp: points_to_def)

lemma points_to_live:
  assumes "points_to (NEIGHBORS s) p"
  obtains a k where "p = Key a k" "deref (live s) p = Some k" "live s a"
  using assms by (force simp: points_to_def live_def tree_addrs_def)

lemma points_to_key:
  assumes "bst t" "points_to t (Key a k)"
  shows "wf_neighbor k" "nkey k \<in> set (tree_keys t)" "a \<in> set (tree_addrs t)"
  using assms by (force simp: points_to_def bst_def tree_keys_def tree_addrs_def)+

lemma points_to_same_key:
  assumes "bst t" "points_to t (Key a k)" "points_to t (Key b j)" "nkey k = nkey j"
  shows "a = b" "k = j"
proof -
  obtain v u where "(a, k, v) \<in> set (entries t)" "(b, j, u) \<in> set (entries t)"
    using assms(2,3) by (auto simp: points_to_def)
  from bst_entry_unique [OF assms(1) this assms(4)] show "a = b" "k = j" by simp_all
qed

lemma nodes_ok_mono: "nodes_ok t na ns \<Longrightarrow> na \<le> na' \<Longrightarrow> nodes_ok t na' ns"
  by (fastforce simp: nodes_ok_def)

lemma flood_ok_mono: "flood_ok t na f \<Longrightarrow> na \<le> na' \<Longrightarrow> flood_ok t na' f"
  by (auto simp: flood_ok_def intro: nodes_ok_mono)

lemma table_okD:
  assumes "table_ok t na F"
  shows "F a = Some f \<Longrightarrow> a < na" "F a = Some f \<Longrightarrow> flood_ok t na f"
    "F a = Some f \<Longrightarrow> F b = Some g \<Longrightarrow> flood_index f = flood_index g \<Longrightarrow> a = b"
  using assms unfolding table_ok_def by blast+

lemma table_ok_mono: "table_ok t na F \<Longrightarrow> na \<le> na' \<Longrightarrow> table_ok t na' F"
  unfolding table_ok_def by (meson flood_ok_mono less_le_trans)

text \<open>The invariant reads only part of the state; allocation counter and clock ticks may advance.\<close>

lemma peer_ok_cong:
  fixes s :: "'y peer_scheme" and s' :: "'z peer_scheme"
  assumes "peer_ok s"
    and "alloc_ok s' = alloc_ok s" "clock s' = clock s" "rnd s' = rnd s"
    and "msgs s' = msgs s" "sent s' = sent s" "NEIGHBORS s' = NEIGHBORS s" "POTENTIAL s' = POTENTIAL s"
    and "DATAF s' = DATAF s" "floods s' = floods s" "next_addr s \<le> next_addr s'"
  shows "peer_ok s'"
proof -
  have e: "env_ok s'"
    using assms(1-4) by (simp add: peer_ok_def env_ok_def malloc_ok_def rand_ok_def clock_ok_def)
  have l: "live s' = live s" using assms by (simp add: live_def fun_eq_iff)
  have "trees_ok s'" using assms unfolding peer_ok_def trees_ok_def l by (fastforce dest: less_le_trans)
  moreover have "floods_ok s'"
    using assms unfolding peer_ok_def floods_ok_def by (auto intro: table_ok_mono)
  ultimately show ?thesis using e assms by (simp add: peer_ok_def)
qed

lemma peer_ok_net_step:
  assumes "peer_ok s" "net_step s s'"
  shows "peer_ok s'"
proof -
  note eq = net_step_peer [OF assms(2)]
  have e: "env_ok s'" using assms(1) eq by (auto simp: peer_ok_def intro: env_ok_cong)
  have dom: "dom (msgs s') = dom (msgs s)"
    using assms(2) unfolding net_step_def dom_def by auto
  have good: "b < next_addr s' \<and> good_msg m" if m: "msgs s' b = Some m" for b m
  proof -
    have "b \<in> dom (msgs s)" using m dom by (metis domI)
    then obtain m0 where "msgs s b = Some m0" by (auto simp: dom_def)
    moreover from this have "good_msg m0" "b < next_addr s"
      using assms(1) by (auto simp: peer_ok_def trees_ok_def)
    moreover have "msgs s b = Some m0 \<Longrightarrow> good_msg m0 \<Longrightarrow> good_msg (the (msgs s' b))"
      using assms(2) unfolding net_step_def by blast
    ultimately show ?thesis using m eq by simp
  qed
  have "trees_ok s'"
    using assms(1) good dom unfolding peer_ok_def trees_ok_def eq by blast
  moreover have "floods_ok s'" using assms(1) unfolding peer_ok_def floods_ok_def eq by blast
  moreover have "\<forall>p\<in>set (sent s'). good_packet (snd p)"
  proof -
    obtain new where "sent s' = sent s @ new" "\<forall>p\<in>set new. good_packet (snd p)"
      using assms(2) unfolding net_step_def by blast
    moreover have "\<forall>p\<in>set (sent s). good_packet (snd p)" using assms(1) by (simp add: peer_ok_def)
    ultimately show ?thesis by (simp add: ball_Un)
  qed
  ultimately show ?thesis using e by (simp add: peer_ok_def)
qed

lemma peer_ok_sendable:
  assumes "peer_ok s"
  shows "all_sendable s (NEIGHBORS s)" "all_sendable s (POTENTIAL s)"
    and "points_to (NEIGHBORS s) p \<Longrightarrow> deref (live s) p = Some n \<Longrightarrow> sendable s n"
    and "buffers_alive s (NEIGHBORS s)" "buffers_alive s (POTENTIAL s)"
proof -
  have t: "trees_ok s" using assms by (simp add: peer_ok_def)
  then have b: "msgs s b \<noteq> None \<and> good_msg (the (msgs s b))" if "b \<in> set (buffers (NEIGHBORS s))" for b
    using that unfolding trees_ok_def by (metis domD option.sel option.simps(3))
  have nb: "sendable s k" if "(a, k, v) \<in> set (entries (NEIGHBORS s))" for a k v
    using b that unfolding sendable_def in_buffers by fastforce
  show "all_sendable s (NEIGHBORS s)" using nb by (auto simp: all_sendable_def)
  have none: "msg k = None" if e: "(a, k, v) \<in> set (entries (POTENTIAL s))" for a k v
  proof (cases "msg k")
    case (Some b)
    then have "b \<in> set (buffers (POTENTIAL s))" using e by (auto simp: in_buffers intro!: bexI [of _ "(a, k, v)"])
    then show ?thesis using t by (simp add: trees_ok_def)
  qed
  show "all_sendable s (POTENTIAL s)" using none by (auto simp: all_sendable_def)
  show "sendable s n" if "points_to (NEIGHBORS s) p" "deref (live s) p = Some n"
    using that nb by (auto simp: points_to_def split: if_splits)
  show "buffers_alive s (NEIGHBORS s)" using b by (auto simp: buffers_alive_def in_buffers)
  show "buffers_alive s (POTENTIAL s)" using none by (force simp: buffers_alive_def)
qed

end
