(* ===== verification/Flood_Laws.thy ===== *)
theory Flood_Laws
  imports Peer_Inv
begin

text \<open>
  The flooding component under the invariant: taking a neighbour out of one or all of the
  lists of neighbours to be reached, filing a new datum, and the transmission loop.
\<close>

section \<open>Taking a neighbour out of a list\<close>

fun pkey :: "nptr \<Rightarrow> nkey" where
  "pkey (Local n) = nkey n"
| "pkey (Key a k) = nkey k"

lemma deref_pkey: "deref lv p = Some n \<Longrightarrow> pkey p = nkey n"
  by (cases p) (auto split: if_splits)

lemma compare_n_s_value:
  assumes "deref lv (sym x) = Some k" "deref lv (sym e) = Some n" "wf_neighbor k" "wf_neighbor n"
    and "\<bar>wait_until x - wait_until e\<bar> < 32768"
  shows "compare_n_s lv x e =
    Some (if nkey k = nkey n then 0 else if wait_until x = wait_until e then 1 else wait_until x - wait_until e)"
  using assms
  by (simp add: compare_n_s_def compare_n_eq_iff Let_def to_int_small to_short_small)

lemma nodes_ok_keys:
  assumes "bst t" "nodes_ok t na ns"
  shows "distinct (map (pkey \<circ> sym \<circ> snd) ns)"
proof -
  have "inj_on pkey (set (map (sym \<circ> snd) ns))"
  proof (rule inj_onI)
    fix p q
    assume pq: "p \<in> set (map (sym \<circ> snd) ns)" "q \<in> set (map (sym \<circ> snd) ns)" "pkey p = pkey q"
    then have "points_to t p" "points_to t q" using assms(2) by (auto simp: nodes_ok_def)
    moreover from this obtain a k b j where "p = Key a k" "q = Key b j" by (auto simp: points_to_def)
    ultimately show "p = q" using points_to_same_key [OF assms(1)] pq(3) by auto
  qed
  moreover have "distinct (map (sym \<circ> snd) ns)" using assms(2) by (simp add: nodes_ok_def)
  ultimately have "distinct (map pkey (map (sym \<circ> snd) ns))" by (simp only: distinct_map simp_thms)
  then show ?thesis by (simp add: comp_assoc)
qed

lemma del_first_distinct:
  "distinct (map g xs) \<Longrightarrow> del_first (\<lambda>x. g x = v) xs = filter (\<lambda>x. g x \<noteq> v) xs"
proof (induction xs)
  case (Cons x xs)
  then have "\<forall>y\<in>set xs. g y \<noteq> g x" by (auto simp: image_iff)
  then show ?case using Cons by (auto intro!: filter_True [symmetric])
qed simp

lemma nodes_ok_filter: "nodes_ok t na ns \<Longrightarrow> nodes_ok t na (filter P ns)"
  by (auto simp: nodes_ok_def distinct_map_filter sorted_wrt_filter sorted_filter)

text \<open>The neighbours of the list are alive as long as the tree is.\<close>

definition alive :: "(addr \<Rightarrow> bool) \<Rightarrow> tree \<Rightarrow> bool" where
  "alive lv t \<longleftrightarrow> (\<forall>a\<in>set (tree_addrs t). lv a)"

lemma alive_live [simp]: "alive (live s) (NEIGHBORS s)"
  by (simp add: alive_def live_def)

lemma points_to_deref:
  assumes "alive lv t" "bst t" "points_to t p"
  obtains k where "deref lv p = Some k" "wf_neighbor k" "pkey p = nkey k"
proof -
  obtain a k v where e: "p = Key a k" "(a, k, v) \<in> set (entries t)" using assms(3) by (auto simp: points_to_def)
  have "lv a" using assms(1) entry_in_addrs [OF e(2)] by (simp add: alive_def)
  moreover have "wf_neighbor k" using bst_entries_wf [OF assms(2) e(2)] .
  ultimately show thesis using that e by simp
qed

lemma remove_elem_neighbor:
  assumes t: "bst t" "alive lv t" "nodes_ok t na (nodes l)"
    and e: "deref lv (sym e) = Some n" "wf_neighbor n" "0 \<le> wait_until e" "wait_until e < 32768"
  shows "\<exists>l'. remove_elem (compare_n_s lv) l e =
      Some (map_option snd (find (\<lambda>x. pkey (sym (snd x)) = nkey n) (nodes l)), l') \<and>
    nodes l' = filter (\<lambda>x. pkey (sym (snd x)) \<noteq> nkey n) (nodes l)"
proof -
  let ?f = "\<lambda>x. if pkey (sym x) = nkey n then 0
                else if wait_until x = wait_until e then 1 else wait_until x - wait_until e"
  have cmp: "compare_n_s lv x e = Some (?f x)" if x: "(q, x) \<in> set (nodes l)" for q x
  proof -
    have b: "points_to t (sym x)" "1 \<le> wait_until x" "wait_until x < 32768"
      using t(3) x by (auto simp: nodes_ok_def)
    from points_to_deref [OF t(2,1) b(1)] obtain k where "deref lv (sym x) = Some k" "wf_neighbor k" "pkey (sym x) = nkey k" .
    then show ?thesis using compare_n_s_value [OF _ e(1) _ e(2)] b e(3,4) by simp
  qed
  have zero: "(\<lambda>(q, x). ?f x = 0) = (\<lambda>x. pkey (sym (snd x)) = nkey n)"
    by (auto simp: fun_eq_iff)
  have "del_first (\<lambda>x. pkey (sym (snd x)) = nkey n) (nodes l) = filter (\<lambda>x. pkey (sym (snd x)) \<noteq> nkey n) (nodes l)"
    using del_first_distinct [OF nodes_ok_keys [OF t(1,3)]] by simp
  then show ?thesis using remove_elem_total [of l "compare_n_s lv" e ?f, OF cmp] unfolding zero by auto
qed

section \<open>Removing a neighbour from one datum\<close>

text \<open>\<open>f'\<close> is \<open>f\<close> without the neighbour \<open>nk\<close> in its list.\<close>

definition stripped :: "nkey \<Rightarrow> flood_entry \<Rightarrow> flood_entry \<Rightarrow> bool" where
  "stripped nk f f' \<longleftrightarrow> flood_index f' = flood_index f \<and> flood_data f' = flood_data f \<and>
     nodes (sym_neighbors f') = filter (\<lambda>x. pkey (sym (snd x)) \<noteq> nk) (nodes (sym_neighbors f))"

lemma stripped_ok: "stripped nk f f' \<Longrightarrow> flood_ok t na f \<Longrightarrow> flood_ok t na f'"
  by (auto simp: stripped_def flood_ok_def intro: nodes_ok_filter)

lemma stripped_contents:
  "stripped nk f f' \<Longrightarrow> contents (sym_neighbors f') = filter (\<lambda>x. pkey (sym x) \<noteq> nk) (contents (sym_neighbors f))"
  by (simp add: stripped_def contents_def filter_map comp_def)

lemma get_flood:
  assumes "contents d = map Some as" "set as \<subseteq> dom (floods s)"
  shows "get (compare_flood s) d ix =
    Some (map_option Some (find (\<lambda>a. flood_index (the (floods s a)) = ix) as))"
  using assms
proof (induction "nodes d" arbitrary: d as)
  case Nil
  then show ?case by (simp add: get_def contents_def)
next
  case (Cons n ns)
  obtain q p where n: "n = (q, p)" by (cases n)
  have "p # map snd ns = map Some as"
    using Cons.prems(1) Cons.hyps(2) [symmetric] n by (simp add: contents_def)
  then obtain a bs where as: "as = a # bs" "p = Some a" by (cases as) auto
  obtain f where f: "floods s a = Some f" using Cons.prems(2) as by auto
  let ?d = "d\<lparr>nodes := ns\<rparr>"
  have "contents ?d = map Some bs" using Cons.prems(1) Cons.hyps(2) [symmetric] n as by (simp add: contents_def)
  then have "get (compare_flood s) ?d ix =
    Some (map_option Some (find (\<lambda>a. flood_index (the (floods s a)) = ix) bs))"
    using Cons.hyps(1) [of ?d bs] Cons.prems(2) as by simp
  then show ?case
    using f as n Cons.hyps(2) [symmetric] by (simp add: get_def compare_flood_def)
qed

text \<open>A datum is found by its index.\<close>

lemma get_flood_ok:
  assumes "floods_ok s"
  shows "get (compare_flood s) (DATAF s) ix = Some None \<and> (\<forall>a f. floods s a = Some f \<longrightarrow> flood_index f \<noteq> ix) \<or>
    (\<exists>a f. get (compare_flood s) (DATAF s) ix = Some (Some (Some a)) \<and> floods s a = Some f \<and> flood_index f = ix)"
proof -
  obtain as where as: "contents (DATAF s) = map Some as" "set as = dom (floods s)"
    using assms by (auto simp: floods_ok_def queue_ok_def)
  have g: "get (compare_flood s) (DATAF s) ix =
    Some (map_option Some (find (\<lambda>a. flood_index (the (floods s a)) = ix) as))"
    using get_flood [OF as(1), of s ix] as(2) by simp
  show ?thesis
  proof (cases "find (\<lambda>a. flood_index (the (floods s a)) = ix) as")
    case None
    then have "\<not> (\<exists>a. a \<in> set as \<and> flood_index (the (floods s a)) = ix)" by (simp add: find_None_iff)
    then show ?thesis using g None as(2) by fastforce
  next
    case (Some a)
    then have "a \<in> set as" "flood_index (the (floods s a)) = ix" by (auto simp: find_Some_iff)
    then show ?thesis using g Some as(2) by (fastforce simp: dom_def)
  qed
qed

lemma remove_neighbor_from_flood_spec:
  assumes s: "bst (NEIGHBORS s)" "floods_ok s" and p: "deref (live s) p = Some n" "wf_neighbor n"
  shows "(\<forall>a f. floods s a = Some f \<longrightarrow> flood_index f \<noteq> ix) \<and> remove_neighbor_from_flood ix p s = Some (0, s) \<or>
    (\<exists>a f f'. floods s a = Some f \<and> flood_index f = ix \<and> stripped (nkey n) f f' \<and>
       remove_neighbor_from_flood ix p s = Some (1, s\<lparr>floods := (floods s)(a \<mapsto> f')\<rparr>))"
  using get_flood_ok [OF s(2), of ix]
proof (elim disjE exE conjE)
  fix a f
  assume a: "get (compare_flood s) (DATAF s) ix = Some (Some (Some a))" "floods s a = Some f" "flood_index f = ix"
  have "nodes_ok (NEIGHBORS s) (next_addr s) (nodes (sym_neighbors f))"
    using s(2) a(2) by (auto simp: floods_ok_def flood_ok_def dest: table_okD)
  from remove_elem_neighbor [OF s(1) alive_live this, of "search_entry p" n] p obtain c l' where
    "remove_elem (compare_n_s (live s)) (sym_neighbors f) (search_entry p) = Some (c, l')"
    "nodes l' = filter (\<lambda>x. pkey (sym (snd x)) \<noteq> nkey n) (nodes (sym_neighbors f))"
    by (auto simp: search_entry_def)
  then have "stripped (nkey n) f (f\<lparr>sym_neighbors := l'\<rparr>)"
    "remove_neighbor_from_flood ix p s = Some (1, s\<lparr>floods := (floods s)(a \<mapsto> f\<lparr>sym_neighbors := l'\<rparr>)\<rparr>)"
    using a by (simp_all add: stripped_def remove_neighbor_from_flood_def)
  with a show ?thesis by blast
qed (simp add: remove_neighbor_from_flood_def)

text \<open>Changing the lists of neighbours, but neither the data nor where they are filed.\<close>

lemma table_ok_weaken:
  assumes "table_ok t na F" "\<And>a f'. F' a = Some f' \<Longrightarrow> \<exists>f. F a = Some f \<and> flood_index f' = flood_index f \<and> flood_ok t' na f'"
  shows "table_ok t' na F'"
  unfolding table_ok_def
proof (intro conjI allI impI)
  fix a f assume "F' a = Some f"
  from assms(2) [OF this] show "a < na" "flood_ok t' na f" using table_okD(1) [OF assms(1)] by auto
next
  fix a b f g assume "F' a = Some f" "F' b = Some g" "flood_index f = flood_index g"
  with assms(2) [of a f] assms(2) [of b g] show "a = b" using table_okD(3) [OF assms(1)] by metis
qed

lemma floods_ok_update:
  assumes "floods_ok s" "floods s a = Some f" "stripped nk f f'"
  shows "floods_ok (s\<lparr>floods := (floods s)(a \<mapsto> f')\<rparr>)"
proof -
  have t: "table_ok (NEIGHBORS s) (next_addr s) (floods s)" using assms(1) by (simp add: floods_ok_def)
  have "dom ((floods s)(a \<mapsto> f')) = dom (floods s)" using assms(2) by auto
  moreover have "table_ok (NEIGHBORS s) (next_addr s) ((floods s)(a \<mapsto> f'))"
  proof (rule table_ok_weaken [OF t])
    fix b g assume "((floods s)(a \<mapsto> f')) b = Some g"
    then show "\<exists>f. floods s b = Some f \<and> flood_index g = flood_index f \<and> flood_ok (NEIGHBORS s) (next_addr s) g"
      using assms(2,3) table_okD(2) [OF t] stripped_ok [OF assms(3)]
      by (cases "b = a") (auto simp: stripped_def)
  qed
  ultimately show ?thesis using assms(1) by (simp add: floods_ok_def)
qed

section \<open>Removing a neighbour everywhere\<close>

lemma everywhere_loop_spec:
  assumes "bst (NEIGHBORS s)" "floods_ok s" "deref (live s) p = Some n" "wf_neighbor n" "set as \<subseteq> dom (floods s)"
  shows "\<exists>F. everywhere_loop (map Some as) p s = Some (s\<lparr>floods := F\<rparr>) \<and> floods_ok (s\<lparr>floods := F\<rparr>) \<and>
    (\<forall>a f'. F a = Some f' \<longrightarrow> (\<exists>f. floods s a = Some f \<and> (f' = f \<and> a \<notin> set as \<or> stripped (nkey n) f f')))
    \<and> dom F = dom (floods s)"
  using assms(1,2,3,5)
proof (induction as arbitrary: s)
  case Nil
  then show ?case by (intro exI [of _ "floods s"]) auto
next
  case (Cons a as)
  obtain f where f: "floods s a = Some f" using Cons.prems by auto
  have "\<exists>f'. remove_neighbor_from_flood (flood_index f) p s = Some (1, s\<lparr>floods := (floods s)(a \<mapsto> f')\<rparr>) \<and> stripped (nkey n) f f'"
    using remove_neighbor_from_flood_spec [OF Cons.prems(1-3) assms(4), of "flood_index f"]
  proof (elim disjE exE conjE)
    fix b g f'
    assume b: "floods s b = Some g" "flood_index g = flood_index f" "stripped (nkey n) g f'"
      "remove_neighbor_from_flood (flood_index f) p s = Some (1, s\<lparr>floods := (floods s)(b \<mapsto> f')\<rparr>)"
    have "table_ok (NEIGHBORS s) (next_addr s) (floods s)" using Cons.prems(2) by (simp add: floods_ok_def)
    from table_okD(3) [OF this b(1) f b(2)] have ba: "b = a" .
    then have "g = f" using b(1) f by simp
    then show ?thesis using b(3,4) ba by blast
  qed (use f in auto)
  then obtain f' where f': "remove_neighbor_from_flood (flood_index f) p s = Some (1, s\<lparr>floods := (floods s)(a \<mapsto> f')\<rparr>)"
    "stripped (nkey n) f f'" by blast
  let ?s = "s\<lparr>floods := (floods s)(a \<mapsto> f')\<rparr>"
  have lv: "live ?s = live s" by (simp add: live_def fun_eq_iff)
  have "bst (NEIGHBORS ?s)" "floods_ok ?s" "deref (live ?s) p = Some n" "set as \<subseteq> dom (floods ?s)"
    using Cons.prems floods_ok_update [OF Cons.prems(2) f f'(2)] lv by auto
  from Cons.IH [OF this] obtain F where F: "everywhere_loop (map Some as) p ?s = Some (?s\<lparr>floods := F\<rparr>)"
    "floods_ok (?s\<lparr>floods := F\<rparr>)"
    "\<forall>b g'. F b = Some g' \<longrightarrow> (\<exists>g. floods ?s b = Some g \<and> (g' = g \<and> b \<notin> set as \<or> stripped (nkey n) g g'))"
    "dom F = dom (floods ?s)" by blast
  have "\<exists>g. floods s b = Some g \<and> (g' = g \<and> b \<notin> set (a # as) \<or> stripped (nkey n) g g')" if "F b = Some g'" for b g'
  proof -
    from F(3) that obtain g where g: "((floods s)(a \<mapsto> f')) b = Some g" "g' = g \<and> b \<notin> set as \<or> stripped (nkey n) g g'"
      by fastforce
    show ?thesis
    proof (cases "b = a")
      case True
      then show ?thesis using g f f'(2) by (auto simp: stripped_def)
    qed (use g in auto)
  qed
  then show ?case using F f f' by (intro exI [of _ F]) auto
qed

lemma filter_key_split:
  assumes "distinct (map g es)" "e \<in> set es"
  shows "\<exists>pre post. es = pre @ e # post \<and> filter (\<lambda>x. g x \<noteq> g e) es = pre @ post"
proof -
  from split_list [OF assms(2)] obtain pre post where es: "es = pre @ e # post" by blast
  have "\<forall>x\<in>set (pre @ post). g x \<noteq> g e" using assms(1) es by (auto simp: image_iff)
  then have "filter (\<lambda>x. g x \<noteq> g e) pre = pre" "filter (\<lambda>x. g x \<noteq> g e) post = post"
    by (auto intro: filter_True)
  then show ?thesis using es by auto
qed

lemma buffers_removed:
  assumes "bst t" "distinct (buffers t)" "e \<in> set (entries t)"
    and "entries t' = filter (\<lambda>x. entry_key x \<noteq> entry_key e) (entries t)"
  shows "distinct (buffers t')"
    "set (buffers t') = set (buffers t) - (case msg (fst (snd e)) of None \<Rightarrow> {} | Some b \<Rightarrow> {b})"
proof -
  have "distinct (map entry_key (entries t))" using bst_distinct_keys [OF assms(1)] by (simp add: tree_keys_def)
  from filter_key_split [OF this assms(3)] obtain pre post where
    e: "entries t = pre @ e # post" "entries t' = pre @ post" using assms(4) by auto
  let ?f = "\<lambda>(a, k, v). msg k"
  have b: "buffers t = List.map_filter ?f pre @ (case msg (fst (snd e)) of None \<Rightarrow> [] | Some b \<Rightarrow> [b]) @ List.map_filter ?f post"
    by (cases e) (auto simp: buffers_def e(1) List.map_filter_def split: option.splits)
  have b': "buffers t' = List.map_filter ?f pre @ List.map_filter ?f post"
    by (simp add: buffers_def e(2) List.map_filter_def)
  show "distinct (buffers t')" using assms(2) unfolding b b' by auto
  show "set (buffers t') = set (buffers t) - (case msg (fst (snd e)) of None \<Rightarrow> {} | Some b \<Rightarrow> {b})"
    using assms(2) unfolding b b' by (auto split: option.splits)
qed

lemma tree_addrs_removed:
  "entries t' = filter P (entries t) \<Longrightarrow> distinct (tree_addrs t) \<Longrightarrow>
     distinct (tree_addrs t') \<and> set (tree_addrs t') \<subseteq> set (tree_addrs t)"
  by (auto simp: tree_addrs_def distinct_map_filter)

lemma buffers_subset: "entries t' = filter P (entries t) \<Longrightarrow> set (buffers t') \<subseteq> set (buffers t)"
  unfolding in_buffers subset_iff by (simp add: Bex_def) blast

text \<open>Removing a node of \<open>NEIGHBORS\<close>, with its message buffer.\<close>

lemma remove_neighbor_trees:
  assumes t: "trees_ok s" and n: "wf_neighbor n"
  shows "\<exists>t' M. remove_neighbor_aux n (NEIGHBORS s) s = Some (t', s\<lparr>msgs := M\<rparr>) \<and>
    entries t' = filter (\<lambda>e. entry_key e \<noteq> nkey n) (entries (NEIGHBORS s)) \<and>
    trees_ok (s\<lparr>msgs := M, NEIGHBORS := t'\<rparr>)"
proof -
  let ?t = "NEIGHBORS s"
  have b: "bst ?t" "distinct (buffers ?t)" "set (buffers ?t) = dom (msgs s)"
    using t by (auto simp: trees_ok_def)
  have "buffers_alive s ?t" using b(3) by (force simp: buffers_alive_def in_buffers dom_def)
  from remove_neighbor_aux_spec [OF b(1) n this] obtain t' w' where
    r: "remove_neighbor_aux n ?t s = Some (t', w')"
      "entries t' = filter (\<lambda>e. entry_key e \<noteq> nkey n) (entries ?t)" "buffer_freed (nkey n) ?t s w'" by blast
  have "\<exists>M. w' = s\<lparr>msgs := M\<rparr> \<and> distinct (buffers t') \<and> set (buffers t') = dom M \<and> (\<forall>b m. M b = Some m \<longrightarrow> msgs s b = Some m)"
  proof (cases "nkey n \<in> set (tree_keys ?t)")
    case True
    then obtain e where e: "e \<in> set (entries ?t)" "entry_key e = nkey n" "free_msg (msg (fst (snd e))) s = Some w'"
      using r(3) unfolding buffer_freed_def by auto
    note bt = buffers_removed [OF b(1,2) e(1), of t', unfolded e(2), OF r(2)]
    show ?thesis
    proof (cases "msg (fst (snd e))")
      case None
      then show ?thesis using bt b(3) e(3) by (intro exI [of _ "msgs s"]) (simp add: free_msg_def)
    next
      case (Some x)
      then have "w' = s\<lparr>msgs := (msgs s)(x := None)\<rparr>" using e(3) by (simp add: free_msg_def split: if_splits)
      moreover have "set (buffers t') = dom ((msgs s)(x := None))" using bt(2) Some b(3) by simp
      ultimately show ?thesis using bt(1) by (intro exI [of _ "(msgs s)(x := None)"]) (auto split: if_splits)
    qed
  next
    case False
    then have "w' = s" using r(3) by (simp add: buffer_freed_def)
    moreover have "entries t' = entries ?t" using r(2) False by (simp add: filter_keys_id)
    then have "buffers t' = buffers ?t" by (simp add: buffers_def)
    ultimately show ?thesis using b by (intro exI [of _ "msgs s"]) simp
  qed
  then obtain M where M: "w' = s\<lparr>msgs := M\<rparr>" "distinct (buffers t')" "set (buffers t') = dom M"
    "\<forall>b m. M b = Some m \<longrightarrow> msgs s b = Some m" by blast
  have "distinct (tree_addrs t')" "set (tree_addrs t') \<subseteq> set (tree_addrs ?t)" "bst t'"
    using tree_addrs_removed [OF r(2)] bst_filter [OF b(1) r(2)] t by (auto simp: trees_ok_def)
  moreover have "\<forall>b m. M b = Some m \<longrightarrow> b < next_addr s \<and> good_msg m"
    using M(4) t unfolding trees_ok_def by blast
  ultimately have "trees_ok (s\<lparr>msgs := M, NEIGHBORS := t'\<rparr>)"
    using t M(1-3) unfolding trees_ok_def by (auto simp: live_def)
  then show ?thesis using r M(1) by blast
qed

lemma remove_potential_trees:
  assumes t: "trees_ok s" and n: "wf_neighbor n"
  shows "\<exists>t'. remove_neighbor_aux n (POTENTIAL s) s = Some (t', s) \<and>
    entries t' = filter (\<lambda>e. entry_key e \<noteq> nkey n) (entries (POTENTIAL s)) \<and>
    trees_ok (s\<lparr>POTENTIAL := t'\<rparr>)"
proof -
  let ?t = "POTENTIAL s"
  have b: "bst ?t" "buffers ?t = []" using t by (auto simp: trees_ok_def)
  have none: "msg (fst (snd e)) = None" if "e \<in> set (entries ?t)" for e
  proof (cases "msg (fst (snd e))")
    case (Some x)
    then have "x \<in> set (buffers ?t)" using that by (auto simp: in_buffers)
    then show ?thesis by (simp add: b(2))
  qed
  have "buffers_alive s ?t" using none by (auto simp: buffers_alive_def)
  from remove_neighbor_aux_spec [OF b(1) n this] obtain t' w' where
    r: "remove_neighbor_aux n ?t s = Some (t', w')"
      "entries t' = filter (\<lambda>e. entry_key e \<noteq> nkey n) (entries ?t)" "buffer_freed (nkey n) ?t s w'" by blast
  have w: "w' = s" using r(3) none by (auto simp: buffer_freed_def free_msg_def split: if_splits)
  have bt: "buffers t' = []" using buffers_subset [OF r(2)] b(2) by simp
  have "distinct (tree_addrs t')" "set (tree_addrs t') \<subseteq> set (tree_addrs ?t)" "bst t'"
    using tree_addrs_removed [OF r(2)] bst_filter [OF b(1) r(2)] t by (auto simp: trees_ok_def)
  then have "trees_ok (s\<lparr>POTENTIAL := t'\<rparr>)"
    using t bt unfolding trees_ok_def by (auto simp: live_def)
  then show ?thesis using r w by blast
qed

text \<open>Entries that do not concern the removed neighbour still point into the tree.\<close>

lemma points_to_removed:
  assumes "points_to t p" "pkey p \<noteq> nk" "entries t' = filter (\<lambda>e. entry_key e \<noteq> nk) (entries t)"
  shows "points_to t' p"
  using assms by (auto simp: points_to_def)

lemma nodes_ok_removed:
  assumes "nodes_ok t na ns" "\<forall>x\<in>set ns. pkey (sym (snd x)) \<noteq> nk"
    and "entries t' = filter (\<lambda>e. entry_key e \<noteq> nk) (entries t)"
  shows "nodes_ok t' na ns"
  using assms points_to_removed [OF _ _ assms(3)] unfolding nodes_ok_def by fastforce

definition removed_everywhere :: "nkey \<Rightarrow> 'z peer_scheme \<Rightarrow> 'z peer_scheme \<Rightarrow> bool" where
  "removed_everywhere nk s s' \<longleftrightarrow>
     s' = s\<lparr>floods := floods s', msgs := msgs s', NEIGHBORS := NEIGHBORS s'\<rparr> \<and>
     entries (NEIGHBORS s') = filter (\<lambda>e. entry_key e \<noteq> nk) (entries (NEIGHBORS s)) \<and>
     dom (floods s') = dom (floods s) \<and>
     (\<forall>a f'. floods s' a = Some f' \<longrightarrow> (\<exists>f. floods s a = Some f \<and> stripped nk f f'))"

lemma remove_neighbor_everywhere_spec:
  assumes ok: "peer_ok s" and p: "deref (live s) p = Some n" "wf_neighbor n"
  shows "\<exists>s'. remove_neighbor_everywhere p s = Some (1, s') \<and> peer_ok s' \<and> removed_everywhere (nkey n) s s'"
proof -
  have t: "trees_ok s" and f: "floods_ok s" using ok by (simp_all add: peer_ok_def)
  have b: "bst (NEIGHBORS s)" using t by (simp add: trees_ok_def)
  obtain as where as: "contents (DATAF s) = map Some as" "set as = dom (floods s)"
    using f by (auto simp: floods_ok_def queue_ok_def)
  from everywhere_loop_spec [OF b f p, of as] as obtain F where
    F: "everywhere_loop (contents (DATAF s)) p s = Some (s\<lparr>floods := F\<rparr>)" "floods_ok (s\<lparr>floods := F\<rparr>)"
      "dom F = dom (floods s)" and
    F0: "\<forall>a f'. F a = Some f' \<longrightarrow> (\<exists>f. floods s a = Some f \<and> (f' = f \<and> a \<notin> set as \<or> stripped (nkey n) f f'))" by auto
  have F1: "\<exists>f. floods s a = Some f \<and> stripped (nkey n) f f'" if "F a = Some f'" for a f'
    using F0 that as(2) by blast
  let ?s1 = "s\<lparr>floods := F\<rparr>"
  have lv: "live ?s1 = live s" by (simp add: live_def fun_eq_iff)
  have t1: "trees_ok ?s1" using t by (simp add: trees_ok_def lv)
  from remove_neighbor_trees [OF t1 p(2)] obtain t' M where
    r: "remove_neighbor_aux n (NEIGHBORS s) ?s1 = Some (t', ?s1\<lparr>msgs := M\<rparr>)"
      "entries t' = filter (\<lambda>e. entry_key e \<noteq> nkey n) (entries (NEIGHBORS s))"
      "trees_ok (?s1\<lparr>msgs := M, NEIGHBORS := t'\<rparr>)" by auto
  let ?s2 = "?s1\<lparr>msgs := M, NEIGHBORS := t'\<rparr>"
  have run: "remove_neighbor_everywhere p s = Some (1, ?s2)"
  proof (cases "NEIGHBORS s = Null")
    case True
    then have "t' = Null" "M = msgs s" using r(1) by (auto dest: arg_cong [of _ _ msgs])
    then show ?thesis using True F(1) by (simp add: remove_neighbor_everywhere_def)
  next
    case False
    then show ?thesis using F(1) p(1) lv r(1) by (simp add: remove_neighbor_everywhere_def remove_neighbor_def)
  qed
  have tab: "table_ok (NEIGHBORS s) (next_addr s) F" using F(2) by (simp add: floods_ok_def)
  have "table_ok t' (next_addr s) F"
  proof (rule table_ok_weaken [OF tab])
    fix a f' assume a: "F a = Some f'"
    from F1 [OF a] obtain f0 where f0: "stripped (nkey n) f0 f'" by blast
    have "\<forall>x\<in>set (nodes (sym_neighbors f')). pkey (sym (snd x)) \<noteq> nkey n"
      using f0 by (auto simp: stripped_def)
    then have "flood_ok t' (next_addr s) f'"
      using table_okD(2) [OF tab a] nodes_ok_removed [OF _ _ r(2)] by (auto simp: flood_ok_def)
    then show "\<exists>f. F a = Some f \<and> flood_index f' = flood_index f \<and> flood_ok t' (next_addr s) f'" using a by blast
  qed
  then have "floods_ok ?s2" using F(2) by (simp add: floods_ok_def)
  moreover have "env_ok ?s2" using ok by (auto simp: peer_ok_def intro: env_ok_cong)
  ultimately have "peer_ok ?s2" using r(3) ok by (simp add: peer_ok_def)
  moreover have "removed_everywhere (nkey n) s ?s2"
    using r(2) F(3) F1 by (simp add: removed_everywhere_def)
  ultimately show ?thesis using run by blast
qed

section \<open>Insertion into the trees\<close>

lemma entries_new:
  assumes "entries t = pre @ post" "entries t' = pre @ (a, k, v) # post"
  shows "set (tree_addrs t') = insert a (set (tree_addrs t))"
    "distinct (tree_addrs t') \<longleftrightarrow> a \<notin> set (tree_addrs t) \<and> distinct (tree_addrs t)"
    "set (buffers t') = set (buffers t) \<union> (case msg k of None \<Rightarrow> {} | Some b \<Rightarrow> {b})"
    "distinct (buffers t') \<longleftrightarrow> distinct (buffers t) \<and> (\<forall>b. msg k = Some b \<longrightarrow> b \<notin> set (buffers t))"
    "points_to t p \<Longrightarrow> points_to t' p"
proof -
  let ?f = "\<lambda>(a, k, v). msg k"
  have b: "buffers t = List.map_filter ?f pre @ List.map_filter ?f post"
    by (simp add: buffers_def assms(1) List.map_filter_def)
  have b': "buffers t' = List.map_filter ?f pre @ (case msg k of None \<Rightarrow> [] | Some b \<Rightarrow> [b]) @ List.map_filter ?f post"
    by (auto simp: buffers_def assms(2) List.map_filter_def split: option.splits)
  show "set (buffers t') = set (buffers t) \<union> (case msg k of None \<Rightarrow> {} | Some b \<Rightarrow> {b})"
    and "distinct (buffers t') \<longleftrightarrow> distinct (buffers t) \<and> (\<forall>b. msg k = Some b \<longrightarrow> b \<notin> set (buffers t))"
    unfolding b b' by (auto split: option.splits)
qed (use assms in \<open>auto simp: tree_addrs_def points_to_def\<close>)

lemma entries_old:
  assumes "entries t = pre @ (a, k, v) # post" "entries t' = pre @ (a, k, v') # post"
  shows "tree_addrs t' = tree_addrs t" "buffers t' = buffers t" "points_to t' p = points_to t p"
  using assms by (auto simp: tree_addrs_def buffers_def points_to_def List.map_filter_def)

text \<open>What an insertion amounts to when memory is there: a new node, or an update in place.\<close>

definition new_node :: "addr \<Rightarrow> neighbor \<Rightarrow> ident \<Rightarrow> tree \<Rightarrow> tree \<Rightarrow> bool" where
  "new_node a k v t t' \<longleftrightarrow> bst t' \<and> nkey k \<notin> set (tree_keys t) \<and>
     (\<exists>pre post. entries t = pre @ post \<and> entries t' = pre @ (a, k, v) # post)"

definition updated_node :: "neighbor \<Rightarrow> ident \<Rightarrow> tree \<Rightarrow> tree \<Rightarrow> bool" where
  "updated_node n v t t' \<longleftrightarrow> bst t' \<and>
     (\<exists>pre a k u post. entries t = pre @ (a, k, u) # post \<and> nkey k = nkey n \<and>
        entries t' = pre @ (a, k, merge_ident (Some v) u) # post)"

lemma insert_cases:
  assumes "bst t" "wf_neighbor k" "malloc_ok w"
  obtains (new) t' where "(if t = Null then (let (t', w') = init (Some k) (Some v) Null Null w in Some (if t' \<noteq> Null then 1 else 0, t', w'))
        else add_neighbor_aux t k (Some v) w) = Some (1, t', w\<lparr>next_addr := next_addr w + 3\<rparr>)"
      "new_node (next_addr w + 2) k v t t'" "t' \<noteq> Null"
  | (old) t' where "(if t = Null then (let (t', w') = init (Some k) (Some v) Null Null w in Some (if t' \<noteq> Null then 1 else 0, t', w'))
        else add_neighbor_aux t k (Some v) w) = Some (2, t', w)" "updated_node k v t t'" "t \<noteq> Null" "t' \<noteq> Null"
proof (cases "t = Null")
  case True
  obtain n w1 where i: "init (Some k) (Some v) Null Null w = (n, w1)" by fastforce
  then show thesis
  proof (cases rule: init_cases)
    case none
    then show ?thesis using assms(3) by simp
  next
    case node
    have "new_node (next_addr w + 2) k v t n" using True node assms(2) by (simp add: new_node_def)
    then show ?thesis using new [of n] True i node by simp
  qed
next
  case False
  from add_neighbor_aux_spec [OF assms(1) False assms(2), of "Some v" w] obtain res t' w' where
    r: "add_neighbor_aux t k (Some v) w = Some (res, t', w')" "bst t'" "t' \<noteq> Null" "inserted k (Some v) w t res t' w'" by blast
  from r(4) consider
    (o) pre a k' u post where "res = 2" "w' = w" "entries t = pre @ (a, k', u) # post"
      "nkey k' = nkey k" "entries t' = pre @ (a, k', merge_ident (Some v) u) # post"
    | (n) pre post where "res = 1" "nkey k \<notin> set (tree_keys t)" "w' = w\<lparr>next_addr := next_addr w + 3\<rparr>"
      "entries t = pre @ post" "entries t' = pre @ (next_addr w + 2, k, v) # post"
    using assms(3) unfolding inserted_def by auto
  then show thesis
  proof cases
    case o
    then have "updated_node k v t t'" using r(2) unfolding updated_node_def by blast
    then show ?thesis using old [of t'] r False o by simp
  next
    case n
    then have "new_node (next_addr w + 2) k v t t'" using r(2) unfolding new_node_def by blast
    then show ?thesis using new [of t'] r False n by simp
  qed
qed

lemma nodes_ok_points:
  "nodes_ok t na ns \<Longrightarrow> (\<And>p. points_to t p \<Longrightarrow> points_to t' p) \<Longrightarrow> nodes_ok t' na ns"
  unfolding nodes_ok_def by fastforce

lemma table_ok_points:
  assumes "table_ok t na F" "na \<le> na'" "\<And>p. points_to t p \<Longrightarrow> points_to t' p"
  shows "table_ok t' na' F"
proof (rule table_ok_weaken [OF table_ok_mono [OF assms(1,2)]])
  fix a f' assume "F a = Some f'"
  then have "flood_ok t na' f'" using table_okD(2) [OF table_ok_mono [OF assms(1,2)]] by blast
  then have "flood_ok t' na' f'" using nodes_ok_points [OF _ assms(3)] by (auto simp: flood_ok_def)
  then show "\<exists>f. F a = Some f \<and> flood_index f' = flood_index f \<and> flood_ok t' na' f'"
    using \<open>F a = Some f'\<close> by blast
qed

text \<open>\<open>add_neighbor\<close>: its return value tells a new neighbour (1) from a known one (2).\<close>

lemma add_neighbor_spec:
  assumes ok: "peer_ok s" and k: "wf_neighbor k"
  shows "(\<exists>t' M. add_neighbor k (Some v) s =
       Some (1, s\<lparr>next_addr := next_addr s + 4, msgs := M, NEIGHBORS := t'\<rparr>) \<and>
       new_node (next_addr s + 3) (k\<lparr>msg := Some (next_addr s)\<rparr>) v (NEIGHBORS s) t' \<and>
       peer_ok (s\<lparr>next_addr := next_addr s + 4, msgs := M, NEIGHBORS := t'\<rparr>)) \<or>
    (\<exists>t'. add_neighbor k (Some v) s = Some (2, s\<lparr>next_addr := next_addr s + 1, NEIGHBORS := t'\<rparr>) \<and>
       updated_node k v (NEIGHBORS s) t' \<and> peer_ok (s\<lparr>next_addr := next_addr s + 1, NEIGHBORS := t'\<rparr>))"
proof -
  have e: "env_ok s" and t: "trees_ok s" and f: "floods_ok s" using ok by (simp_all add: peer_ok_def)
  let ?a = "next_addr s"
  let ?k = "k\<lparr>msg := Some ?a\<rparr>"
  let ?m = "\<lparr>magic = 93, version = 2, body_length = 0, body = fresh_body s\<rparr>"
  let ?s2 = "s\<lparr>next_addr := ?a + 1, msgs := (msgs s)(?a \<mapsto> ?m)\<rparr>"
  have fb: "fresh_body (s\<lparr>next_addr := Suc ?a\<rparr>) = fresh_body s" by (simp add: fresh_body_def)
  have nb: "msgs s ?a = None" using t unfolding trees_ok_def by (metis less_irrefl option.exhaust)
  have na: "\<not> live s ?a" "\<not> live s (?a + 3)" using t unfolding trees_ok_def by (metis less_irrefl, metis less_irrefl not_add_less1)
  have b: "bst (NEIGHBORS s)" "malloc_ok ?s2" "wf_neighbor ?k"
    using t e k by (simp_all add: trees_ok_def env_ok_def malloc_ok_def)
  have good: "good_msg ?m" by (simp add: good_msg_def pending_def PMTU_def)
  have tab: "table_ok (NEIGHBORS s) ?a (floods s)" using f by (simp add: floods_ok_def)
  have run: "add_neighbor k (Some v) s =
    (if NEIGHBORS ?s2 = Null then
           (let (t, s3) = init (Some ?k) (Some v) Null Null ?s2; s4 = s3\<lparr>NEIGHBORS := t\<rparr> in
            if t = Null then do { s5 \<leftarrow> free_msg (Some ?a) s4; Some (0, s5) }
            else Some (1, s4))
         else do { (res, t, s3) \<leftarrow> add_neighbor_aux (NEIGHBORS ?s2) ?k (Some v) ?s2;
                   let s4 = s3\<lparr>NEIGHBORS := t\<rparr> in
                   if res = 2 \<or> res = 0 then do { s5 \<leftarrow> free_msg (Some ?a) s4; Some (res, s5) }
                   else Some (res, s4) })"
    by (simp add: add_neighbor_def env_malloc [OF e] fb)
  from b(1,3,2) show ?thesis
  proof (cases rule: insert_cases [where v = v])
    case (new t')
    from new(2) obtain pre post where p: "bst t'" "entries (NEIGHBORS s) = pre @ post"
      "entries t' = pre @ (?a + 3, ?k, v) # post" by (auto simp: new_node_def)
    note en = entries_new [OF p(2,3)]
    let ?s' = "s\<lparr>next_addr := ?a + 4, msgs := (msgs s)(?a \<mapsto> ?m), NEIGHBORS := t'\<rparr>"
    have "trees_ok ?s'"
      unfolding trees_ok_def
    proof (intro conjI allI impI)
      show "distinct (tree_addrs (NEIGHBORS ?s') @ tree_addrs (POTENTIAL ?s'))"
        using t na(2) by (auto simp: trees_ok_def en(1,2) live_def)
      fix a assume "live ?s' a"
      then have "a = ?a + 3 \<or> live s a" by (auto simp: live_def en(1))
      moreover have "live s a \<Longrightarrow> a < ?a" using t unfolding trees_ok_def by blast
      ultimately show "a < next_addr ?s'" by auto
    next
      show "distinct (buffers (NEIGHBORS ?s'))" using t nb by (auto simp: trees_ok_def en(4))
      show "set (buffers (NEIGHBORS ?s')) = dom (msgs ?s')" using t by (simp add: trees_ok_def en(3))
    next
      fix x m assume m: "msgs ?s' x = Some m"
      have "x \<noteq> ?a \<Longrightarrow> x < ?a \<and> good_msg m" using t m unfolding trees_ok_def by auto
      then show "x < next_addr ?s'" "good_msg m" using m good by (cases "x = ?a"; simp)+
    qed (use t p(1) in \<open>simp_all add: trees_ok_def\<close>)
    moreover have "floods_ok ?s'"
      using f table_ok_points [OF tab _ en(5), of "?a + 4"] by (simp add: floods_ok_def)
    moreover have "env_ok ?s'" using e by (auto intro: env_ok_cong)
    ultimately have "peer_ok ?s'" using ok by (simp add: peer_ok_def)
    moreover have "add_neighbor k (Some v) s = Some (1, ?s')"
      using new(1,3) unfolding run by (auto split: if_splits prod.splits simp: Let_def)
    moreover have "new_node (?a + 3) ?k v (NEIGHBORS s) t'" using new(2) by (simp add: eval_nat_numeral)
    ultimately show ?thesis by blast
  next
    case (old t')
    from old(2) obtain pre a k' u post where p: "bst t'" "entries (NEIGHBORS s) = pre @ (a, k', u) # post"
      "entries t' = pre @ (a, k', merge_ident (Some v) u) # post" by (auto simp: updated_node_def)
    note en = entries_old [OF p(2,3)]
    let ?s' = "s\<lparr>next_addr := ?a + 1, NEIGHBORS := t'\<rparr>"
    have "?s2\<lparr>NEIGHBORS := t', msgs := (msgs ?s2)(?a := None)\<rparr> = ?s'"
      using nb by (simp add: fun_upd_idem)
    then have "add_neighbor k (Some v) s = Some (2, ?s')"
      using old(1,3) unfolding run by (auto split: if_splits simp: free_msg_def)
    moreover have "live ?s' = live s" by (simp add: live_def en(1) fun_eq_iff)
    then have "trees_ok ?s'" using t p(1) unfolding trees_ok_def by (auto simp: en intro!: less_SucI)
    moreover have "floods_ok ?s'"
      using f table_ok_points [OF tab, of "?a + 1" t'] en(3) by (simp add: floods_ok_def)
    moreover have "env_ok ?s'" using e by (auto intro: env_ok_cong)
    ultimately have "add_neighbor k (Some v) s = Some (2, ?s')" "peer_ok ?s'" using ok by (simp_all add: peer_ok_def)
    moreover have "updated_node k v (NEIGHBORS s) t'" using old(2) by (simp add: updated_node_def)
    ultimately show ?thesis by blast
  qed
qed

lemma add_potential_spec:
  assumes ok: "peer_ok s" and k: "wf_neighbor k"
  shows "(\<exists>t'. add_potential k (Some v) s = Some (1, s\<lparr>next_addr := next_addr s + 3, POTENTIAL := t'\<rparr>) \<and>
       new_node (next_addr s + 2) (k\<lparr>msg := None\<rparr>) v (POTENTIAL s) t' \<and>
       peer_ok (s\<lparr>next_addr := next_addr s + 3, POTENTIAL := t'\<rparr>)) \<or>
    (\<exists>t'. add_potential k (Some v) s = Some (2, s\<lparr>POTENTIAL := t'\<rparr>) \<and>
       updated_node k v (POTENTIAL s) t' \<and> peer_ok (s\<lparr>POTENTIAL := t'\<rparr>))"
proof -
  have e: "env_ok s" and t: "trees_ok s" and f: "floods_ok s" using ok by (simp_all add: peer_ok_def)
  let ?a = "next_addr s"
  let ?k = "k\<lparr>msg := None\<rparr>"
  have na: "\<not> live s (?a + 2)" using t unfolding trees_ok_def by (metis less_irrefl not_add_less1)
  have b: "bst (POTENTIAL s)" "malloc_ok s" "wf_neighbor ?k"
    using t e k by (simp_all add: trees_ok_def env_ok_def)
  have tab: "table_ok (NEIGHBORS s) ?a (floods s)" using f by (simp add: floods_ok_def)
  from b(1,3,2) show ?thesis
  proof (cases rule: insert_cases [where v = v])
    case (new t')
    from new(2) obtain pre post where p: "bst t'" "entries (POTENTIAL s) = pre @ post"
      "entries t' = pre @ (?a + 2, ?k, v) # post" by (auto simp: new_node_def)
    note en = entries_new [OF p(2,3)]
    let ?s' = "s\<lparr>next_addr := ?a + 3, POTENTIAL := t'\<rparr>"
    have "trees_ok ?s'"
      unfolding trees_ok_def
    proof (intro conjI allI impI)
      show "distinct (tree_addrs (NEIGHBORS ?s') @ tree_addrs (POTENTIAL ?s'))"
        using t na by (auto simp: trees_ok_def en(1,2) live_def)
      fix a assume "live ?s' a"
      then have "a = ?a + 2 \<or> live s a" by (auto simp: live_def en(1))
      moreover have "live s a \<Longrightarrow> a < ?a" using t unfolding trees_ok_def by blast
      ultimately show "a < next_addr ?s'" by auto
    next
      have "set (buffers t') = {}" using t en(3) by (simp add: trees_ok_def)
      then show "buffers (POTENTIAL ?s') = []" by simp
    next
      fix x m assume m: "msgs ?s' x = Some m"
      have "x < ?a \<and> good_msg m" using t m unfolding trees_ok_def by auto
      then show "x < next_addr ?s'" "good_msg m" by simp_all
    qed (use t p(1) in \<open>simp_all add: trees_ok_def\<close>)
    moreover have "floods_ok ?s'" using f table_ok_mono [OF tab, of "?a + 3"] by (simp add: floods_ok_def)
    moreover have "env_ok ?s'" using e by (auto intro: env_ok_cong)
    ultimately have "peer_ok ?s'" using ok by (simp add: peer_ok_def)
    moreover have "add_potential k (Some v) s = Some (1, ?s')"
      using new(1,3) unfolding add_potential_def by (auto split: if_splits prod.splits simp: Let_def)
    ultimately show ?thesis using new(2) by blast
  next
    case (old t')
    from old(2) obtain pre a k' u post where p: "bst t'" "entries (POTENTIAL s) = pre @ (a, k', u) # post"
      "entries t' = pre @ (a, k', merge_ident (Some v) u) # post" by (auto simp: updated_node_def)
    note en = entries_old [OF p(2,3)]
    let ?s' = "s\<lparr>POTENTIAL := t'\<rparr>"
    have "add_potential k (Some v) s = Some (2, ?s')"
      using old(1,3) unfolding add_potential_def by (auto split: if_splits)
    moreover have "live ?s' = live s" by (simp add: live_def en(1) fun_eq_iff)
    then have "trees_ok ?s'" using t p(1) unfolding trees_ok_def by (auto simp: en)
    moreover have "floods_ok ?s'" using f by (simp add: floods_ok_def)
    moreover have "env_ok ?s'" using e by (auto intro: env_ok_cong)
    ultimately have "add_potential k (Some v) s = Some (2, ?s')" "peer_ok ?s'" using ok by (simp_all add: peer_ok_def)
    moreover have "updated_node k v (POTENTIAL s) t'" using old(2) by (simp add: updated_node_def)
    ultimately show ?thesis by blast
  qed
qed

lemma remove_potential_spec:
  assumes ok: "peer_ok s" and n: "wf_neighbor n"
  shows "\<exists>t'. remove_potential n s = Some (s\<lparr>POTENTIAL := t'\<rparr>) \<and> peer_ok (s\<lparr>POTENTIAL := t'\<rparr>) \<and>
    entries t' = filter (\<lambda>e. entry_key e \<noteq> nkey n) (entries (POTENTIAL s))"
proof -
  have t: "trees_ok s" using ok by (simp add: peer_ok_def)
  from remove_potential_trees [OF t n] obtain t' where
    r: "remove_neighbor_aux n (POTENTIAL s) s = Some (t', s)"
      "entries t' = filter (\<lambda>e. entry_key e \<noteq> nkey n) (entries (POTENTIAL s))" "trees_ok (s\<lparr>POTENTIAL := t'\<rparr>)" by blast
  have "remove_potential n s = Some (s\<lparr>POTENTIAL := t'\<rparr>)"
  proof (cases "POTENTIAL s = Null")
    case True
    then have "t' = Null" using r(1) by simp
    then show ?thesis using True by (simp add: remove_potential_def)
  next
    case False
    then show ?thesis using r(1) by (simp add: remove_potential_def)
  qed
  moreover have "peer_ok (s\<lparr>POTENTIAL := t'\<rparr>)"
    using ok r(3) by (auto simp: peer_ok_def floods_ok_def intro: env_ok_cong)
  ultimately show ?thesis using r(2) by blast
qed

section \<open>Selecting neighbours\<close>

lemma distinct_subseq: "subseq xs ys \<Longrightarrow> distinct ys \<Longrightarrow> distinct xs"
proof (induction rule: list_emb.induct)
  case (list_emb_Cons2 x y xs ys)
  then show ?case using list_emb_set [of "(=)" xs ys x] by auto
qed auto

lemma selected_nodes_ok:
  assumes "env_ok w" "distinct (tree_addrs t)" "selected w (entries t) new w'"
  shows "nodes_ok t (next_addr w') new" "\<forall>x\<in>set new. times_sent (snd x) = 0"
proof -
  have "distinct (map entry_ptr (entries t))"
    using assms(2) by (auto simp: tree_addrs_def distinct_map inj_on_def)
  moreover have sub: "subseq (map (sym \<circ> snd) new) (map entry_ptr (entries t))"
    using assms(3) by (simp add: selected_def)
  ultimately have d: "distinct (map (sym \<circ> snd) new)"
    by (metis distinct_subseq)
  have p: "points_to t (sym (snd x))" if "x \<in> set new" for x
    using list_emb_set [OF sub, of "sym (snd x)"] that by (auto simp: points_to_def image_iff)
  have ck: "clock_ok w" "\<And>n. 0 \<le> clock w n \<and> clock w n < 32704"
    using env_okD [OF assms(1)] by blast+
  have w: "1 \<le> wait_until (snd x) \<and> wait_until (snd x) < 32768" if "x \<in> set new" for x
  proof -
    have "1 + clock w (ticks w) \<le> wait_until (snd x) \<and> wait_until (snd x) \<le> 1 + clock w (ticks w')"
      using assms(3) ck(1) that unfolding selected_def by blast
    then show ?thesis using ck(2) [of "ticks w"] ck(2) [of "ticks w'"] by linarith
  qed
  have st: "\<forall>x\<in>set new. fst x < next_addr w' \<and> times_sent (snd x) = 0"
    using assms(3) unfolding selected_def by blast
  moreover have "distinct (map fst new)"
    using assms(3) unfolding selected_def by (simp add: strict_sorted_iff)
  moreover have "sorted (map (wait_until \<circ> snd) new)"
    using assms(3) ck(1) unfolding selected_def by blast
  ultimately show "nodes_ok t (next_addr w') new"
    using d p w unfolding nodes_ok_def by fastforce
  show "\<forall>x\<in>set new. times_sent (snd x) = 0" using st by blast
qed

lemma find_by_ok:
  assumes e: "env_ok s" and "distinct (tree_addrs t)" "reads_clock f"
  shows "\<exists>l na tk. find_by t f s = Some (Some l, s\<lparr>next_addr := na, ticks := tk\<rparr>) \<and>
    next_addr s \<le> na \<and> ticks s \<le> tk \<and> nodes_ok t na (nodes l) \<and> (\<forall>x\<in>set (nodes l). times_sent (snd x) = 0)"
proof -
  let ?s1 = "s\<lparr>next_addr := Suc (next_addr s)\<rparr>"
  obtain new l s' where r: "find_by_aux t f init_list ?s1 = Some (l, s')" "selected ?s1 (entries t) new s'"
    "nodes l = nodes init_list @ new"
    using find_by_aux_spec [OF assms(3), of t init_list ?s1] by blast
  have "env_ok ?s1" using e by (auto intro: env_ok_cong)
  note n = selected_nodes_ok [OF this assms(2) r(2)]
  have "s' = ?s1\<lparr>next_addr := next_addr s', ticks := ticks s'\<rparr>" "next_addr ?s1 \<le> next_addr s'" "ticks ?s1 \<le> ticks s'"
    using r(2) by (simp_all add: selected_def)
  then have "s' = s\<lparr>next_addr := next_addr s', ticks := ticks s'\<rparr>" "next_addr s \<le> next_addr s'" "ticks s \<le> ticks s'" by simp_all
  moreover have "find_by t f s = Some (Some l, s')"
    using r(1) by (simp add: find_by_def env_malloc [OF e])
  moreover have "nodes l = new" using r(3) by (simp add: init_list_def)
  ultimately show ?thesis using n by metis
qed

text \<open>Who is found, when the readings of the clock during the search all gave \<open>c\<close>.\<close>

abbreviation symmetric :: "int \<Rightarrow> addr \<times> neighbor \<times> ident \<Rightarrow> bool" where
  "symmetric c \<equiv> \<lambda>(a, k, v). c - last_hello_long v < 120"

lemma find_by_exact:
  assumes e: "env_ok s" and f: "reads_clock f"
    "\<And>v u. clock u = clock s \<Longrightarrow> ticks s \<le> ticks u \<Longrightarrow> ticks u < ticks s1 \<Longrightarrow> fst (f v u) = P v"
    and r: "find_by t f s = Some (Some l, s1)"
  shows "map sym (contents l) = map entry_ptr (filter (\<lambda>(a, k, v). P v) (entries t))"
proof -
  obtain p w1 where m: "malloc s = (Some p, w1)" "clock w1 = clock s" "malloc_ok w1" "ticks w1 = ticks s"
    using env_okD(1) [OF e] by (simp add: malloc_def malloc_ok_def)
  have "find_by_aux t f init_list w1 = Some (l, s1)" using r m(1) by (auto simp: find_by_def split: bind_splits)
  from find_by_aux_filter [OF f(1) f(2) m(3) this] m(2,4) show ?thesis by simp
qed

lemma find_symmetrical:
  assumes e: "env_ok s" and r: "find_by t issymmetrical s = Some (Some l, s1)" and c: "clock_reads c s s1"
  shows "map sym (contents l) = map entry_ptr (filter (symmetric c) (entries t))"
proof (rule find_by_exact [OF e reads_clock_issymmetrical _ r])
  fix v and u :: "'a world_scheme"
  assume u: "clock u = clock s" "ticks s \<le> ticks u" "ticks u < ticks s1"
  have "clock s (ticks u) = c" by (rule clock_reads_at [OF c u(2,3)])
  moreover from this have "to_int c = c" using env_okD(4,5) [OF e, of "ticks u"] by (simp add: to_int_small)
  ultimately show "fst (issymmetrical v u) = (c - last_hello_long v < 120)" using u(1) by (simp add: issymmetrical_def get_seconds_def)
qed

lemma find_old:
  assumes e: "env_ok s" and r: "find_by t is_old s = Some (Some l, s1)" and c: "clock_reads c s s1"
  shows "map sym (contents l) = map entry_ptr (filter (\<lambda>(a, k, v). c - last_hello v > 120) (entries t))"
proof (rule find_by_exact [OF e reads_clock_is_old _ r])
  fix v and u :: "'a world_scheme"
  assume u: "clock u = clock s" "ticks s \<le> ticks u" "ticks u < ticks s1"
  have "clock s (ticks u) = c" by (rule clock_reads_at [OF c u(2,3)])
  moreover from this have "to_int c = c" using env_okD(4,5) [OF e, of "ticks u"] by (simp add: to_int_small)
  ultimately show "fst (is_old v u) = (c - last_hello v > 120)" using u(1) by (simp add: is_old_def get_seconds_def)
qed

end
