(* ===== verification/Flood_Steps.thy ===== *)
theory Flood_Steps
  imports Flood_Laws
begin

text \<open>
  The two operations that drive flooding, under the invariant: filing a new datum
  (\<open>add_message_to_flood\<close>) and transmitting a datum to the neighbours that are due
  (\<open>flood_message_to_neighbours\<close>), with the termination of its loop.
\<close>

section \<open>Filing a datum\<close>

lemma add_limited_alloc:
  assumes "malloc w = (Some p, w1)" "wf_clist l" "length (contents l) \<le> n" "0 < n" "n < 2 ^ 31"
  obtains (room) l' where "add_limited l x (int n) w = (None, l', w1)" "contents l' = contents l @ [x]"
      "wf_clist l'" "length (contents l') \<le> n"
  | (full) l' y ys where "add_limited l x (int n) w = (Some y, l', w1)" "contents l = y # ys"
      "contents l' = ys @ [x]" "wf_clist l'" "length (contents l') \<le> n" "length (contents l) = n"
proof -
  have a: "addLast l x w = (1, l\<lparr>list_length := list_length l + 1, nodes := nodes l @ [(p, x)]\<rparr>, w1)"
    using assms(1) by (simp add: addLast_def)
  obtain c l' w' where r: "add_limited l x (int n) w = (c, l', w')" by (metis prod_cases3)
  have w': "w' = w1" using r a by (auto simp: add_limited_def split: if_splits prod.splits)
  note k = add_limited_cases [OF assms(2,3,5) r]
  show thesis
  proof (cases c)
    case None
    then have "contents l' = contents l @ [x]"
      using r a by (auto simp: add_limited_def contents_def remove_first_def split: if_splits prod.splits list.splits)
    then show ?thesis using room r k None w' by blast
  next
    case (Some y)
    then have y: "contents l @ [x] = y # contents l'" "length (contents l') = n" using k by auto
    then obtain ys where "contents l = y # ys" using assms(4) by (cases "contents l") auto
    then have c: "contents l' = ys @ [x]" using y(1) by simp
    then have "length (contents l) = n" using y(2) \<open>contents l = y # ys\<close> by simp
    moreover have "add_limited l x (int n) w = (Some y, l', w1)" using r Some w' by simp
    ultimately show ?thesis using full \<open>contents l = y # ys\<close> k c by blast
  qed
qed

lemma queue_ok_push:
  assumes "malloc w = (Some p, w1)" "queue_ok d A" "a \<notin> A"
  obtains (room) d' where "add_limited d (Some a) NBDATA w = (None, d', w1)" "queue_ok d' (insert a A)"
      "contents d' = contents d @ [Some a]"
  | (full) d' b where "add_limited d (Some a) NBDATA w = (Some (Some b), d', w1)" "b \<in> A" "queue_ok d' (insert a A - {b})"
      "contents d @ [Some a] = Some b # contents d'" "length (contents d) = 100"
proof -
  obtain as where as: "contents d = map Some as" "distinct as" "set as = A" "wf_clist d" "length (contents d) \<le> 100"
    using assms(2) by (auto simp: queue_ok_def)
  have n: "(0::nat) < 100" "(100::nat) < 2 ^ 31" by simp_all
  have NB: "NBDATA = int 100" by (simp add: NBDATA_def)
  from assms(1) as(4,5) n show thesis
  proof (cases rule: add_limited_alloc [where x = "Some a"])
    case (room l')
    then have "queue_ok l' (insert a A)"
      using as assms(3) unfolding queue_ok_def by (intro conjI exI [of _ "as @ [a]"]) auto
    then show ?thesis using that(1) room NB by simp
  next
    case (full l' y ys)
    then obtain b bs where b: "y = Some b" "as = b # bs" "ys = map Some bs" using as(1) by (cases as) auto
    have "queue_ok l' (insert a A - {b})"
      using as assms(3) full b unfolding queue_ok_def by (intro conjI exI [of _ "bs @ [a]"]) auto
    moreover have "b \<in> A" using as(3) b(2) by auto
    moreover have "contents d @ [Some a] = Some b # contents l'" using full b by simp
    moreover have "add_limited d (Some a) NBDATA w = (Some (Some b), l', w1)" using full(1) b(1) NB by simp
    ultimately show ?thesis using that(2) full(6) by blast
  qed
qed

lemma table_ok_insert:
  assumes "table_ok t na F" "flood_ok t na f" "a < na" "\<And>b g. F b = Some g \<Longrightarrow> flood_index g \<noteq> flood_index f"
  shows "table_ok t na (F(a \<mapsto> f))"
  unfolding table_ok_def
proof (intro conjI allI impI)
  fix b g assume "(F(a \<mapsto> f)) b = Some g"
  then show "b < na" "flood_ok t na g"
    using assms(2,3) table_okD(1,2) [OF assms(1)] by (auto split: if_splits)
next
  fix b c g h assume "(F(a \<mapsto> f)) b = Some g" "(F(a \<mapsto> f)) c = Some h" "flood_index g = flood_index h"
  then show "b = c"
    using assms(4) [of b g] assms(4) [of c h] table_okD(3) [OF assms(1), of b g c h] by (auto split: if_splits)
qed

lemma table_ok_delete: "table_ok t na F \<Longrightarrow> table_ok t na (F(b := None))"
  unfolding table_ok_def by (auto split: if_splits)

lemma init_flood_ok:
  assumes "env_ok s" "length d = FLOOD_DATA_SIZE" "unat (d ! 1) \<le> 128"
  shows "init_flood ix d l s =
    Some (Some (next_addr s), s\<lparr>next_addr := next_addr s + 2, floods := (floods s)(next_addr s \<mapsto>
      \<lparr>flood_index = ix, flood_data = take (unat (d ! 1) + 2) d @ drop (unat (d ! 1) + 2) (map (junk s) [0..<FLOOD_DATA_SIZE]),
       sym_neighbors = l\<rparr>)\<rparr>)"
proof -
  have "env_ok (s\<lparr>next_addr := Suc (next_addr s)\<rparr>)" using assms(1) by (auto intro: env_ok_cong)
  then show ?thesis
    using assms(2,3)
    by (simp add: init_flood_def env_malloc [OF assms(1)] env_malloc FLOOD_DATA_SIZE_def peek1_def peek_def poke_def PMTU_def)
qed

text \<open>The datum a data TLV carries: its index and the bytes under which it is stored.\<close>

definition data_ix :: "u8 list \<Rightarrow> data_index" where
  "data_ix d = \<lparr>index_id = le_word (take 8 d), nonce = le_word (take 4 (drop 8 d))\<rparr>"

text \<open>The neighbours it is to reach: the symmetric ones at time \<open>c\<close>, without the one it came from.\<close>

definition recipients :: "int \<Rightarrow> nkey option \<Rightarrow> tree \<Rightarrow> nptr list" where
  "recipients c from t = map entry_ptr (filter (\<lambda>e. symmetric c e \<and> Some (entry_key e) \<noteq> from) (entries t))"

definition filed :: "u8 list \<Rightarrow> u8 \<Rightarrow> nkey option \<Rightarrow> 'z peer_scheme \<Rightarrow> 'z peer_scheme \<Rightarrow> bool" where
  "filed d n from s s' \<longleftrightarrow>
     (\<exists>na tk. s' = s\<lparr>next_addr := na, ticks := tk, floods := floods s', DATAF := DATAF s'\<rparr>) \<and>
     (\<exists>a f. floods s a = None \<and> floods s' a = Some f \<and> flood_index f = data_ix d \<and>
        take (unat n + 2) (flood_data f) = 4 # n # take (unat n) d \<and>
        (\<forall>x\<in>set (contents (sym_neighbors f)). Some (pkey (sym x)) \<noteq> from \<and> times_sent x = 0) \<and>
        (\<forall>c. clock_reads c s s' \<longrightarrow> map sym (contents (sym_neighbors f)) = recipients c from (NEIGHBORS s)) \<and>
        (contents (DATAF s') = contents (DATAF s) @ [Some a] \<and> floods s' = (floods s)(a \<mapsto> f) \<or>
         (\<exists>b. contents (DATAF s) @ [Some a] = Some b # contents (DATAF s') \<and> length (contents (DATAF s)) = 100 \<and>
            floods s' = (floods s)(a \<mapsto> f, b := None))))"

lemma filedI:
  assumes "s' = s\<lparr>next_addr := na, ticks := tk, floods := F, DATAF := D\<rparr>"
    and "floods s a = None" "F a = Some f" "flood_index f = data_ix d"
    and "take (unat n + 2) (flood_data f) = 4 # n # take (unat n) d"
    and "\<forall>x\<in>set (contents (sym_neighbors f)). Some (pkey (sym x)) \<noteq> from \<and> times_sent x = 0"
    and "\<forall>c. clock_reads c s s' \<longrightarrow> map sym (contents (sym_neighbors f)) = recipients c from (NEIGHBORS s)"
    and "D = D' \<and> contents D' = contents (DATAF s) @ [Some a] \<and> F = (floods s)(a \<mapsto> f) \<or>
      contents (DATAF s) @ [Some a] = Some b # contents D \<and> length (contents (DATAF s)) = 100 \<and>
            F = (floods s)(a \<mapsto> f, b := None)"
  shows "filed d n from s s'"
proof -
  have p: "floods s' = F" "DATAF s' = D" using assms(1) by simp_all
  have "s' = s\<lparr>next_addr := na, ticks := tk, floods := floods s', DATAF := DATAF s'\<rparr>"
    unfolding p by (rule assms(1))
  then show ?thesis
    unfolding filed_def p using assms(2-8) by blast
qed

lemma stored_tlv_data:
  assumes "length j = FLOOD_DATA_SIZE" "13 \<le> unat n" "unat n < 128" "unat n \<le> length d"
    and "e = 4 # n # take (unat n) d @ drop (unat n + 2) j"
  shows "stored_tlv (data_ix d) e" "take (unat n + 2) e = 4 # n # take (unat n) d"
proof -
  have "take 8 (take (unat n) d) = take 8 d" "take 4 (drop 8 (take (unat n) d)) = take 4 (drop 8 d)"
    using assms(2,4) by (simp_all add: min_def drop_take)
  moreover have "drop 2 e = take (unat n) d @ drop (unat n + 2) j" using assms(5) by simp
  moreover have "drop 10 e = drop 8 (drop 2 e)" by simp
  ultimately have "take 8 (drop 2 e) = take 8 d" "take 4 (drop 10 e) = take 4 (drop 8 d)"
    using assms(2,4) by simp_all
  then show "stored_tlv (data_ix d) e"
    using assms by (simp add: stored_tlv_def data_ix_def FLOOD_DATA_SIZE_def)
  show "take (unat n + 2) e = 4 # n # take (unat n) d"
    using assms(4,5) by simp
qed

lemma add_message_to_flood_spec:
  assumes ok: "peer_ok s" and n: "13 \<le> unat n" "unat n < 128" "unat n \<le> length d"
    and to: "to = None \<or> to = Some (Local k) \<and> wf_neighbor k"
    and fresh: "\<And>a f. floods s a = Some f \<Longrightarrow> flood_index f \<noteq> data_ix d"
  shows "\<exists>s'. add_message_to_flood d n to s = Some s' \<and> peer_ok s' \<and> filed d n (map_option pkey to) s s'"
proof -
  have e: "env_ok s" and t: "trees_ok s" and f: "floods_ok s" using ok by (simp_all add: peer_ok_def)
  have b: "bst (NEIGHBORS s)" "distinct (tree_addrs (NEIGHBORS s))" using t by (auto simp: trees_ok_def)
  have fn: "floods s a = None" if "next_addr s \<le> a" for a
    using f that by (cases "floods s a") (auto simp: floods_ok_def dest: table_okD(1))
  obtain l0 na tk where l0: "find_by (NEIGHBORS s) issymmetrical s = Some (Some l0, s\<lparr>next_addr := na, ticks := tk\<rparr>)"
    "next_addr s \<le> na" "nodes_ok (NEIGHBORS s) na (nodes l0)" "\<forall>x\<in>set (nodes l0). times_sent (snd x) = 0"
    using find_by_ok [OF e b(2) reads_clock_issymmetrical] by blast
  let ?s1 = "s\<lparr>next_addr := na, ticks := tk\<rparr>"
  have lv: "live ?s1 = live s" by (simp add: live_def fun_eq_iff)
  obtain l1 where l1: "(case to of None \<Rightarrow> Some l0 | Some p \<Rightarrow>
        do { (_, l1) \<leftarrow> remove_elem (compare_n_s (live ?s1)) l0 (search_entry p); Some l1 }) = Some l1"
    "nodes_ok (NEIGHBORS s) na (nodes l1)"
    "\<forall>x\<in>set (nodes l1). Some (pkey (sym (snd x))) \<noteq> map_option pkey to \<and> times_sent (snd x) = 0"
    "nodes l1 = filter (\<lambda>x. Some (pkey (sym (snd x))) \<noteq> map_option pkey to) (nodes l0)"
  proof (cases to)
    case None
    then show thesis using that [of l0] l0 by simp
  next
    case (Some p)
    then have p: "p = Local k" "wf_neighbor k" using to by auto
    have "alive (live ?s1) (NEIGHBORS s)" by (simp add: lv)
    from remove_elem_neighbor [OF b(1) this l0(3), of "search_entry p" k] p obtain c l' where
      "remove_elem (compare_n_s (live ?s1)) l0 (search_entry p) = Some (c, l')"
      "nodes l' = filter (\<lambda>x. pkey (sym (snd x)) \<noteq> nkey k) (nodes l0)"
      by (auto simp: search_entry_def)
    then show thesis using that [of l'] Some p l0(3,4) by (auto intro: nodes_ok_filter)
  qed
  let ?j = "map (junk ?s1) [0..<FLOOD_DATA_SIZE]"
  let ?m = "4 # n # take (unat n) d @ drop (unat n + 2) ?j"
  have m: "poke 0 (4 # n # take (unat n) d) ?j = Some ?m" "length ?m = FLOOD_DATA_SIZE"
    using n by (simp_all add: poke_def FLOOD_DATA_SIZE_def)
  have e1: "env_ok ?s1" using e by (auto intro: env_ok_cong)
  have ix: "peek d 0 8 = Some (take 8 d)" "peek d 8 4 = Some (take 4 (drop 8 d))" "peek d 0 (unat n) = Some (take (unat n) d)"
    using n by (simp_all add: peek_def)
  let ?e = "take (unat n + 2) ?m @ drop (unat n + 2) ?j"
  let ?f = "\<lparr>flood_index = data_ix d, flood_data = ?e, sym_neighbors = l1\<rparr>"
  let ?s2 = "?s1\<lparr>next_addr := na + 2, floods := (floods s)(na \<mapsto> ?f)\<rparr>"
  have init: "init_flood (data_ix d) ?m l1 ?s1 = Some (Some na, ?s2)"
    using init_flood_ok [OF e1 m(2), of "data_ix d" l1] n(2) by simp
  have "?e = 4 # n # take (unat n) d @ drop (unat n + 2) ?j" using n(3) by simp
  from stored_tlv_data [OF _ n this] have st: "stored_tlv (data_ix d) ?e" "take (unat n + 2) ?e = 4 # n # take (unat n) d"
    by simp_all
  have fo: "flood_ok (NEIGHBORS s) (na + 3) ?f"
    using st(1) nodes_ok_mono [OF l1(2), of "na + 3"] by (simp add: flood_ok_def)
  have "table_ok (NEIGHBORS s) (na + 3) (floods s)"
    using f l0(2) by (auto simp: floods_ok_def intro: table_ok_mono)
  from table_ok_insert [OF this fo] fresh have tab: "table_ok (NEIGHBORS s) (na + 3) ((floods s)(na \<mapsto> ?f))" by simp
  have e2: "env_ok ?s2" using e by (auto intro: env_ok_cong)
  have q: "queue_ok (DATAF s) (dom (floods s))" "na \<notin> dom (floods s)"
    using f fn [OF l0(2)] by (auto simp: floods_ok_def)
  have run: "add_message_to_flood d n to s =
     (let (must_free, dd, s3) = add_limited (DATAF s) (Some na) NBDATA ?s2; s4 = s3\<lparr>DATAF := dd\<rparr>
      in case must_free of Some (Some a) \<Rightarrow> free_flood a s4 | _ \<Rightarrow> Some s4)"
    unfolding add_message_to_flood_def ix bind.bind_lunit Let_def get_symmetrical_def l0(1) split option.case l1(1)
      m(1) data_ix_def [symmetric] init by simp
  have ok': "peer_ok (?s2\<lparr>next_addr := na + 3, DATAF := dd, floods := F\<rparr>)"
    if "queue_ok dd (dom F)" "table_ok (NEIGHBORS s) (na + 3) F" for dd F
  proof -
    let ?s' = "?s2\<lparr>next_addr := na + 3, DATAF := dd, floods := F\<rparr>"
    have "live ?s' = live s" by (simp add: live_def fun_eq_iff)
    moreover have "\<forall>a. live s a \<longrightarrow> a < na + 3" "\<forall>b m. msgs s b = Some m \<longrightarrow> b < na + 3 \<and> good_msg m"
      using t l0(2) unfolding trees_ok_def by (meson less_le_trans trans_less_add1)+
    ultimately have "trees_ok ?s'" using t unfolding trees_ok_def by simp
    moreover have "env_ok ?s'" using e by (auto intro: env_ok_cong)
    ultimately show ?thesis using that ok by (simp add: peer_ok_def floods_ok_def)
  qed
  have al: "malloc ?s2 = (Some (na + 2), ?s2\<lparr>next_addr := na + 3\<rparr>)" using env_malloc [OF e2] by simp
  have reach: "map sym (contents l1) = recipients c (map_option pkey to) (NEIGHBORS s)" if c: "clock_reads c s ?s1" for c
  proof -
    have "map sym (contents l1) = filter (\<lambda>p. Some (pkey p) \<noteq> map_option pkey to) (map sym (contents l0))"
      by (simp add: contents_def l1(4) filter_map comp_def)
    also have "\<dots> = recipients c (map_option pkey to) (NEIGHBORS s)"
      unfolding find_symmetrical [OF e l0(1) c] recipients_def by (simp add: filter_map comp_def split_def conj_commute)
    finally show ?thesis .
  qed
  have syms: "\<forall>x\<in>set (contents l1). Some (pkey (sym x)) \<noteq> map_option pkey to \<and> times_sent x = 0"
    using l1(3) by (auto simp: contents_def)
  from al q show ?thesis
  proof (cases rule: queue_ok_push)
    case (room d')
    let ?s' = "?s2\<lparr>next_addr := na + 3, DATAF := d'\<rparr>"
    have "queue_ok d' (dom ((floods s)(na \<mapsto> ?f)))" using room(2) by simp
    from ok' [OF this tab] have "peer_ok ?s'" by (rule peer_ok_cong) simp_all
    moreover have "add_message_to_flood d n to s = Some ?s'" unfolding run room(1) by simp
    moreover have "filed d n (map_option pkey to) s ?s'"
    proof (rule filedI [where a = na and f = ?f and F = "(floods s)(na \<mapsto> ?f)" and D = d' and D' = d'])
      show "?s' = s\<lparr>next_addr := na + 3, ticks := tk, floods := (floods s)(na \<mapsto> ?f), DATAF := d'\<rparr>" by simp
      show "floods s na = None" using fn [OF l0(2)] .
      show "take (unat n + 2) (flood_data ?f) = 4 # n # take (unat n) d" using st(2) by (simp only: flood_entry.simps)
      show "\<forall>x\<in>set (contents (sym_neighbors ?f)). Some (pkey (sym x)) \<noteq> map_option pkey to \<and> times_sent x = 0"
        using syms by (simp only: flood_entry.simps)
      show "\<forall>c. clock_reads c s ?s' \<longrightarrow> map sym (contents (sym_neighbors ?f)) = recipients c (map_option pkey to) (NEIGHBORS s)"
        using reach by (simp add: clock_reads_def)
    qed (use room(3) in simp_all)
    ultimately show ?thesis by blast
  next
    case (full d' b)
    let ?F = "(floods s)(na \<mapsto> ?f, b := None)"
    let ?s' = "?s2\<lparr>next_addr := na + 3, DATAF := d', floods := ?F\<rparr>"
    have "b \<noteq> na" using full(2) q(2) by auto
    then have d: "dom ?F = insert na (dom (floods s)) - {b}" "((floods s)(na \<mapsto> ?f)) b \<noteq> None"
      using full(2) by auto
    have "peer_ok ?s'" using ok' [of d' ?F] full(3) table_ok_delete [OF tab] unfolding d(1) by blast
    moreover have "add_message_to_flood d n to s = Some ?s'"
      unfolding run full(1) using d(2) by (auto simp: free_flood_def)
    moreover have "length (contents (DATAF s)) = 100"
      by (rule full(5))
    moreover have "filed d n (map_option pkey to) s ?s'"
    proof (rule filedI [where a = na and f = ?f and F = ?F and D = d' and b = b])
      show "?s' = s\<lparr>next_addr := na + 3, ticks := tk, floods := ?F, DATAF := d'\<rparr>" by (cases s) simp
      show "floods s na = None" using fn [OF l0(2)] .
      show "take (unat n + 2) (flood_data ?f) = 4 # n # take (unat n) d" using st(2) by (simp only: flood_entry.simps)
      show "\<forall>x\<in>set (contents (sym_neighbors ?f)). Some (pkey (sym x)) \<noteq> map_option pkey to \<and> times_sent x = 0"
        using syms by (simp only: flood_entry.simps)
      show "\<forall>c. clock_reads c s ?s' \<longrightarrow> map sym (contents (sym_neighbors ?f)) = recipients c (map_option pkey to) (NEIGHBORS s)"
        using reach by (simp add: clock_reads_def)
    qed (use full(4) \<open>b \<noteq> na\<close> calculation(3) in simp_all)
    ultimately show ?thesis by blast
  qed
qed

end
