(* ===== verification/Flood_Pass.thy ===== *)
theory Flood_Pass
  imports Flood_Steps
begin

text \<open>
  One pass of \<open>flood_message_to_neighbours\<close> over a datum: the loop ends, keeps the
  invariant, and advances exactly the entries that are due.
\<close>

section \<open>Single steps\<close>

text \<open>What a pass may change.\<close>

definition flood_frame :: "'z peer_scheme \<Rightarrow> 'z peer_scheme \<Rightarrow> bool" where
  "flood_frame s s' \<longleftrightarrow>
     s\<lparr>next_addr := next_addr s', rnds := rnds s', msgs := msgs s', sent := sent s',
       NEIGHBORS := NEIGHBORS s', floods := floods s', NEXTTIME := NEXTTIME s'\<rparr> = s' \<and>
     dom (floods s') = dom (floods s)"

lemma flood_frame_refl [simp]: "flood_frame s s"
  by (simp add: flood_frame_def)

lemma flood_frame_trans:
  assumes "flood_frame s s1" "flood_frame s1 s2"
  shows "flood_frame s s2"
proof -
  let ?u = "\<lambda>s s'. s\<lparr>next_addr := next_addr s', rnds := rnds s', msgs := msgs s', sent := sent s',
       NEIGHBORS := NEIGHBORS s', floods := floods s', NEXTTIME := NEXTTIME s'\<rparr>"
  have "?u (?u s s1) s2 = s2" using assms by (simp only: flood_frame_def)
  then have "?u s s2 = s2" by simp
  then show ?thesis using assms by (simp add: flood_frame_def)
qed

lemma flood_frame_net:
  assumes "net_step s s'" shows "flood_frame s s'"
proof -
  from net_step_eq [OF assms] obtain M S where "s' = s\<lparr>msgs := M, sent := S\<rparr>" by blast
  then show ?thesis by (simp add: flood_frame_def)
qed

lemma flood_frame_removed:
  assumes "removed_everywhere nk s s'" shows "flood_frame s s'"
proof -
  have d: "dom (floods s') = dom (floods s)" using assms by (simp add: removed_everywhere_def)
  have "s' = s\<lparr>floods := floods s', msgs := msgs s', NEIGHBORS := NEIGHBORS s'\<rparr>"
    using assms by (simp add: removed_everywhere_def)
  then obtain F M N where "s' = s\<lparr>floods := F, msgs := M, NEIGHBORS := N\<rparr>" by blast
  then show ?thesis using d by (cases s) (simp add: flood_frame_def)
qed

lemma signed_char_eq: "signed_char b = (if unat b < 128 then int (unat b) else int (unat b) - 256)"
proof -
  have "sint b = (uint b + 128) mod 256 - 128"
    by (simp add: sint_uint signed_take_bit_eq_take_bit_shift take_bit_eq_mod)
  moreover have "0 \<le> uint b" "uint b < 256" using uint_lt2p [of b] by simp_all
  moreover have i: "int (unat b) = uint b" by simp
  moreover from i have "unat b < 128 \<longleftrightarrow> uint b < 128" by linarith
  moreover have "0 \<le> u \<Longrightarrow> u < 256 \<Longrightarrow> (u + 128) mod 256 - 128 = (if u < 128 then u else u - 256)" for u :: int
  proof (cases "u < 128")
    case False
    assume "0 \<le> u" "u < 256"
    then have "(u - 128 + 256) mod 256 = u - 128" using False by (simp only: mod_add_self2) simp
    moreover have "u - 128 + 256 = u + 128" by simp
    ultimately have "(u + 128) mod 256 = u - 128" by (simp only:)
    then show ?thesis using False by (simp only: if_False)
  qed simp
  ultimately show ?thesis unfolding signed_char_def by auto
qed

text \<open>\<open>send_data\<close> with a datum whose length byte is below 128.\<close>

lemma send_data_spec:
  assumes d: "stored_tlv ix d" and n: "deref (live s) p = Some n"
  shows "\<exists>b. good_msg (compose s b (int (unat (d ! 1)) + 2)) \<and>
    body_size (compose s b (int (unat (d ! 1)) + 2)) = unat (d ! 1) + 2 \<and>
    pending (compose s b (int (unat (d ! 1)) + 2)) = take (unat (d ! 1) + 2) d \<and>
    send_data d p s = send_message (compose s b (int (unat (d ! 1)) + 2)) (unat (d ! 1) + 6) n s"
proof -
  let ?n = "unat (d ! 1)"
  let ?bs = "take (?n + 2) d"
  have l: "length d = 260" "13 \<le> ?n" "?n < 128" "d ! 0 = 4"
    using d by (auto simp: stored_tlv_def FLOOD_DATA_SIZE_def)
  have "d = d ! 0 # d ! 1 # drop 2 d" using l(1) by (cases d; cases "tl d") auto
  then have "?bs = d ! 0 # d ! 1 # take ?n (drop 2 d)" by (metis add_2_eq_Suc' take_Suc_Cons)
  then have e: "?bs = encode_tlv 4 (take ?n (drop 2 d))"
    using l by (simp add: encode_tlv_def)
  have lb: "length ?bs = ?n + 2" using l by simp
  have "complete ?bs" unfolding e using l by simp
  moreover have "length ?bs + 4 \<le> PMTU" using l by (simp add: PMTU_def)
  ultimately obtain b where b: "poke 0 ?bs (fresh_body s) = Some b"
    "good_msg (compose s b (int (length ?bs)))"
    "body_size (compose s b (int (length ?bs))) = length ?bs" "pending (compose s b (int (length ?bs))) = ?bs"
    by (rule composedE)
  have sc: "signed_char (d ! 1) = int ?n"
    using l(3) by (simp add: signed_char_eq)
  have ml: "unat (word_of_int (int ?n + 6) :: u16) = ?n + 6"
  proof -
    have "(word_of_int (int ?n + 6) :: u16) = of_nat (?n + 6)" by simp
    then show ?thesis using l(3) unat_of_nat_u16 [of "?n + 6"] by simp
  qed
  have "send_data d p s = send_message (compose s b (int ?n + 2)) (unat (word_of_int (int ?n + 6) :: u16)) n s"
  proof -
    have h: "nat (int ?n + 2) = ?n + 2" "int ?n + 2 + 4 = int ?n + 6" "\<not> int ?n + 2 < 0" by linarith+
    have p: "peek1 d 1 = Some (d ! 1)" "peek d 0 (?n + 2) = Some ?bs" using l by (simp_all add: peek1_def peek_def)
    show ?thesis unfolding send_data_def p bind.bind_lunit Let_def sc h(1,2) b(1) n
      by (rule if_not_P) (rule h(3))
  qed
  then show ?thesis using b lb ml by (intro exI [of _ b]) (simp add: add.commute)
qed

section \<open>Putting an entry back\<close>

text \<open>The transmitted entry \<open>x\<close> goes back in front of the first entry that waits at least as long.\<close>

definition put_back :: "addr \<Rightarrow> ngb_entry \<Rightarrow> (addr \<times> ngb_entry) list \<Rightarrow> (addr \<times> ngb_entry) list" where
  "put_back p x ns = takeWhile (\<lambda>y. wait_until (snd y) < wait_until x) ns @ (p, x) #
     dropWhile (\<lambda>y. wait_until (snd y) < wait_until x) ns"

lemma set_put_back [simp]: "set (put_back p x ns) = insert (p, x) (set ns)"
proof -
  have "set ns = set (takeWhile P ns) \<union> set (dropWhile P ns)" for P
    by (metis set_append takeWhile_dropWhile_id)
  then show ?thesis by (auto simp: put_back_def)
qed

lemma distinct_put_back:
  assumes "distinct (map f ns)" "f (p, x) \<notin> f ` set ns"
  shows "distinct (map f (put_back p x ns))"
proof -
  let ?P = "\<lambda>y. wait_until (snd y) < wait_until x"
  have "distinct (map f (takeWhile ?P ns @ dropWhile ?P ns))" using assms(1) by simp
  moreover have "set (takeWhile ?P ns) \<subseteq> set ns" "set (dropWhile ?P ns) \<subseteq> set ns"
    by (auto dest: set_takeWhileD set_dropWhileD)
  then have "f (p, x) \<notin> f ` set (takeWhile ?P ns)" "f (p, x) \<notin> f ` set (dropWhile ?P ns)"
    using assms(2) by blast+
  ultimately show ?thesis unfolding put_back_def map_append distinct_append by auto
qed

lemma sorted_put_back:
  assumes "sorted (map (wait_until \<circ> snd) ns)"
  shows "sorted (map (wait_until \<circ> snd) (put_back p x ns))"
proof -
  let ?P = "\<lambda>y. wait_until (snd y) < wait_until x"
  have le: "wait_until x \<le> wait_until (snd y)" if "y \<in> set (dropWhile ?P ns)" for y
    using that assms
  proof (induction ns)
    case (Cons n ns)
    then show ?case by (auto split: if_splits)
  qed simp
  have lt: "wait_until (snd y) < wait_until x" if "y \<in> set (takeWhile ?P ns)" for y
    using set_takeWhileD [OF that] by simp
  have "sorted (map (wait_until \<circ> snd) (takeWhile ?P ns @ dropWhile ?P ns))" using assms by simp
  then show ?thesis
    unfolding put_back_def map_append sorted_append using le lt by (fastforce simp: less_imp_le)
qed

lemma nodes_ok_put_back:
  assumes "nodes_ok t na ns" "sym x \<notin> (sym \<circ> snd) ` set ns" "points_to t (sym x)"
    and "0 \<le> times_sent x" "times_sent x \<le> 5" "1 \<le> wait_until x" "wait_until x < 32768"
  shows "nodes_ok t (Suc na) (put_back na x ns)"
proof -
  have "na \<notin> fst ` set ns" using assms(1) by (force simp: nodes_ok_def)
  then have "distinct (map fst (put_back na x ns))"
    using assms(1) by (intro distinct_put_back) (auto simp: nodes_ok_def)
  moreover have "distinct (map (sym \<circ> snd) (put_back na x ns))"
    using assms(1,2) by (intro distinct_put_back) (auto simp: nodes_ok_def)
  moreover have "sorted (map (wait_until \<circ> snd) (put_back na x ns))"
    using assms(1) by (intro sorted_put_back) (auto simp: nodes_ok_def)
  ultimately show ?thesis using assms unfolding nodes_ok_def by fastforce
qed

lemma add_elem_put_back:
  assumes t: "bst t" "alive lv t" "nodes_ok t na (nodes l)" and m: "malloc w = (Some p, w1)"
    and x: "points_to t (sym x)" "pkey (sym x) \<notin> (pkey \<circ> sym \<circ> snd) ` set (nodes l)" "1 \<le> wait_until x" "wait_until x < 32768"
  shows "\<exists>l'. add_elem (compare_n_s lv) l x w = Some (1, l', w1) \<and> nodes l' = put_back p x (nodes l)"
proof -
  let ?f = "\<lambda>y. if wait_until y = wait_until x then 1 else wait_until y - wait_until x"
  obtain k where k: "deref lv (sym x) = Some k" "wf_neighbor k" "pkey (sym x) = nkey k"
    using points_to_deref [OF t(2,1) x(1)] by blast
  have cmp: "compare_n_s lv y x = Some (?f y)" if y: "(q, y) \<in> set (nodes l)" for q y
  proof -
    have b: "points_to t (sym y)" "1 \<le> wait_until y" "wait_until y < 32768"
      using t(3) y by (auto simp: nodes_ok_def)
    obtain j where j: "deref lv (sym y) = Some j" "wf_neighbor j" "pkey (sym y) = nkey j"
      using points_to_deref [OF t(2,1) b(1)] by blast
    have "pkey (sym y) \<noteq> pkey (sym x)" using x(2) y by (force simp: image_iff)
    then show ?thesis using compare_n_s_value [OF j(1) k(1) j(2) k(2)] b x(3,4) j k by simp
  qed
  have P: "(\<lambda>(a, c). ?f c < 0) = (\<lambda>y. wait_until (snd y) < wait_until x)" by (auto simp: fun_eq_iff)
  have nz: "?f y \<noteq> 0" for y by simp
  have "add_loop (compare_n_s lv) (nodes l) x w = Some (1, put_back p x (nodes l), w1)"
    using add_loop_total [of "nodes l" "compare_n_s lv" x ?f w, OF cmp] nz m
    unfolding P put_back_def by (simp add: Let_def)
  then show ?thesis by (simp add: add_elem_def)
qed

section \<open>The relation between the lists before and after a pass at time \<open>c\<close>\<close>

definition advanced :: "int \<Rightarrow> ngb_entry \<Rightarrow> ngb_entry \<Rightarrow> bool" where
  "advanced c x x' \<longleftrightarrow> x' = x \<or>
     sym x' = sym x \<and> wait_until x \<le> c \<and> times_sent x < 5 \<and> times_sent x' = times_sent x + 1 \<and>
     c + 2 ^ nat (times_sent x) \<le> wait_until x' \<and> wait_until x' < c + 2 * 2 ^ nat (times_sent x)"

definition gave_up :: "int \<Rightarrow> ngb_entry \<Rightarrow> bool" where
  "gave_up c x \<longleftrightarrow> times_sent x = 5 \<or> times_sent x = 4 \<and> wait_until x \<le> c"

definition pass :: "int \<Rightarrow> ngb_entry set \<Rightarrow> ngb_entry set \<Rightarrow> bool" where
  "pass c A B \<longleftrightarrow> (\<forall>x'\<in>B. \<exists>x\<in>A. advanced c x x') \<and> (\<forall>x\<in>A. (\<exists>x'\<in>B. advanced c x x') \<or> gave_up c x)"

lemma advanced_later:
  assumes "advanced c x x'" "x' \<noteq> x"
  shows "c < wait_until x'" "times_sent x' = times_sent x + 1" "wait_until x \<le> c"
proof -
  have "(0::int) < 2 ^ nat (times_sent x)" by simp
  then show "c < wait_until x'" "times_sent x' = times_sent x + 1" "wait_until x \<le> c"
    using assms unfolding advanced_def by linarith+
qed

lemma advanced_trans: "advanced c x y \<Longrightarrow> advanced c y z \<Longrightarrow> advanced c x z"
  by (metis advanced_later(1,3) not_le)

lemma gave_up_back: "advanced c x y \<Longrightarrow> gave_up c y \<Longrightarrow> gave_up c x"
  using advanced_later [of c x y] by (cases "y = x") (auto simp: gave_up_def)

lemma pass_refl [simp]: "pass c A A"
  by (auto simp: pass_def advanced_def)

lemma pass_trans:
  assumes "pass c A B" "pass c B C"
  shows "pass c A C"
  unfolding pass_def
proof (intro conjI ballI)
  fix z assume "z \<in> C"
  then obtain y where "y \<in> B" "advanced c y z" using assms(2) by (auto simp: pass_def)
  moreover from this obtain x where "x \<in> A" "advanced c x y" using assms(1) by (auto simp: pass_def)
  ultimately show "\<exists>x\<in>A. advanced c x z" using advanced_trans by blast
next
  fix x assume "x \<in> A"
  then consider y where "y \<in> B" "advanced c x y" | "gave_up c x" using assms(1) by (auto simp: pass_def)
  then show "(\<exists>z\<in>C. advanced c x z) \<or> gave_up c x"
  proof cases
    case 1
    then consider z where "z \<in> C" "advanced c y z" | "gave_up c y" using assms(2) by (auto simp: pass_def)
    then show ?thesis using 1 advanced_trans gave_up_back by cases blast+
  qed simp
qed

section \<open>The measure of the loop\<close>

definition transmissions :: "(addr \<times> ngb_entry) list \<Rightarrow> nat" where
  "transmissions ns = (\<Sum>x\<leftarrow>ns. nat (6 - times_sent (snd x)))"

lemma transmissions_append: "transmissions (A @ B) = transmissions A + transmissions B"
  by (simp add: transmissions_def)

lemma transmissions_put_back: "transmissions (put_back p x ns) = nat (6 - times_sent x) + transmissions ns"
proof -
  have "transmissions ns = transmissions (takeWhile P ns) + transmissions (dropWhile P ns)" for P
    by (metis transmissions_append takeWhile_dropWhile_id)
  then show ?thesis by (simp add: put_back_def transmissions_append) (simp add: transmissions_def)
qed

section \<open>Walking the chain\<close>

lemma next_of_split:
  "a \<notin> fst ` set A \<Longrightarrow> next_of a (A @ (a, x) # B) = (case B of [] \<Rightarrow> None | (d, _) # _ \<Rightarrow> Some d)"
  by (induction A) (auto split: list.splits)

lemma entry_at_split:
  "a \<notin> fst ` set A \<Longrightarrow> nodes l = A @ (a, x) # B \<Longrightarrow> entry_at l a = Some x"
proof -
  assume "a \<notin> fst ` set A" "nodes l = A @ (a, x) # B"
  moreover from this have "map_of A a = None" by (simp add: map_of_eq_None_iff)
  ultimately show ?thesis by (simp add: entry_at_def map_add_def)
qed

text \<open>The entries in front of the current one.\<close>

definition before :: "ptr \<Rightarrow> (addr \<times> ngb_entry) list \<Rightarrow> (addr \<times> ngb_entry) list" where
  "before p ns = takeWhile (\<lambda>x. Some (fst x) \<noteq> p) ns"

lemma before_None [simp]: "before None ns = ns"
  by (simp add: before_def)

lemma before_split: "a \<notin> fst ` set A \<Longrightarrow> before (Some a) (A @ (a, x) # B) = A"
  unfolding before_def by (subst takeWhile_append2) auto

lemma before_put_back:
  assumes "q \<noteq> d" "d \<notin> fst ` set A"
  shows "set (before (Some d) (put_back q x (A @ (d, y) # B))) \<subseteq> insert (q, x) (set A)"
proof -
  let ?W = "\<lambda>z. wait_until (snd z) < wait_until x" and ?Q = "\<lambda>z. Some (fst z) \<noteq> Some d"
  let ?ns = "A @ (d, y) # B"
  let ?pre = "takeWhile ?W ?ns" and ?post = "dropWhile ?W ?ns"
  have id: "takeWhile ?Q (?pre @ ?post) = A"
    using before_split [OF assms(2), of y B] by (simp add: before_def)
  show ?thesis
  proof (cases "\<forall>z\<in>set ?pre. ?Q z")
    case True
    then have "takeWhile ?Q (?pre @ rest) = ?pre @ takeWhile ?Q rest" for rest
      by (intro takeWhile_append2) blast
    note tw = this
    have "set A = set (?pre @ takeWhile ?Q ?post)" by (rule arg_cong [OF trans [OF id [symmetric] tw]])
    moreover have "before (Some d) (put_back q x ?ns) = ?pre @ (q, x) # takeWhile ?Q ?post"
      unfolding before_def put_back_def tw using assms(1) by (simp only: takeWhile.simps fst_conv option.inject if_True simp_thms)
    then have "set (before (Some d) (put_back q x ?ns)) = set (?pre @ (q, x) # takeWhile ?Q ?post)" by (rule arg_cong)
    ultimately show ?thesis by (simp only: set_append list.set) blast
  next
    case False
    then obtain z where z: "z \<in> set ?pre" "\<not> ?Q z" by blast
    have tw: "takeWhile ?Q (?pre @ rest) = takeWhile ?Q ?pre" for rest
      by (rule takeWhile_append1 [where x = z]) (use z in blast)+
    have "before (Some d) (put_back q x ?ns) = takeWhile ?Q ?pre"
      unfolding before_def put_back_def by (rule tw)
    moreover have "takeWhile ?Q (?pre @ ?post) = takeWhile ?Q ?pre" by (rule tw)
    ultimately show ?thesis using id by auto
  qed
qed

section \<open>The loop\<close>

lemma handle_inactive_spec:
  assumes ok: "peer_ok s" and p: "points_to (NEIGHBORS s) p" "deref (live s) p = Some n"
  shows "\<exists>s1 s2. handle_inactive p s = Some s2 \<and> peer_ok s2 \<and> net_step s s1 \<and> removed_everywhere (nkey n) s1 s2"
proof -
  have b: "bst (NEIGHBORS s)" using ok by (simp add: peer_ok_def trees_ok_def)
  have n: "wf_neighbor n" using p points_to_deref [OF alive_live b p(1)] by auto
  obtain g where g: "tlv_goaway (fresh_body s) 0 body_room 2 inactive_text 24 = Some (27, g)"
    "good_msg (compose s g 27)" "body_size (compose s g 27) = 27"
    by (rule goaway_message [of 24 inactive_text s 2]) (simp_all add: inactive_text_def)
  obtain s1 where s1: "send_message (compose s g 27) 31 n s = Some (1, s1)" "net_step s s1"
    using send_message_step [OF g(2), of 31 s n] g(3) peer_ok_sendable(3) [OF ok p] by auto
  have lv: "live s1 = live s" by (rule net_step_peer(6) [OF s1(2)])
  from remove_neighbor_everywhere_spec [OF peer_ok_net_step [OF ok s1(2)], of p n] p(2) n lv obtain s2 where
    s2: "remove_neighbor_everywhere p s1 = Some (1, s2)" "peer_ok s2" "removed_everywhere (nkey n) s1 s2" by auto
  have "handle_inactive p s = Some s2"
    using g(1) p(2) s1(1) s2(1) by (simp add: handle_inactive_def del: body_room_eq)
  then show ?thesis using s1(2) s2 by blast
qed

text \<open>The state after one datum's list was replaced.\<close>

lemma peer_ok_flood_update:
  assumes ok: "peer_ok s" and f: "floods s a = Some f" "flood_ok (NEIGHBORS s) na (f\<lparr>sym_neighbors := l\<rparr>)" "next_addr s \<le> na"
  shows "peer_ok (s\<lparr>rnds := rn, next_addr := na, floods := (floods s)(a \<mapsto> f\<lparr>sym_neighbors := l\<rparr>)\<rparr>)"
    (is "peer_ok ?s'")
proof -
  have t: "table_ok (NEIGHBORS s) na (floods s)"
    using ok f(3) by (auto simp: peer_ok_def floods_ok_def intro: table_ok_mono)
  have "table_ok (NEIGHBORS s) na ((floods s)(a \<mapsto> f\<lparr>sym_neighbors := l\<rparr>))"
  proof (rule table_ok_weaken [OF t])
    fix b g assume g: "((floods s)(a \<mapsto> f\<lparr>sym_neighbors := l\<rparr>)) b = Some g"
    show "\<exists>f. floods s b = Some f \<and> flood_index g = flood_index f \<and> flood_ok (NEIGHBORS s) na g"
      using g f table_okD(2) [OF t] by (cases "b = a") auto
  qed
  moreover have "dom ((floods s)(a \<mapsto> f\<lparr>sym_neighbors := l\<rparr>)) = dom (floods s)" using f(1) by auto
  ultimately have "floods_ok ?s'" using ok by (simp add: peer_ok_def floods_ok_def)
  moreover have "live ?s' = live s" by (simp add: live_def fun_eq_iff)
  moreover have "\<forall>a. live s a \<longrightarrow> a < na" "\<forall>b m. msgs s b = Some m \<longrightarrow> b < na \<and> good_msg m"
    using ok f(3) unfolding peer_ok_def trees_ok_def by (meson less_le_trans)+
  ultimately have "floods_ok ?s'" "trees_ok ?s'" using ok unfolding peer_ok_def trees_ok_def by simp_all
  moreover have "env_ok ?s'" using ok by (auto simp: peer_ok_def intro: env_ok_cong)
  ultimately show ?thesis using ok by (simp add: peer_ok_def)
qed

lemma filter_split:
  assumes "distinct (map g (A @ x # B))"
  shows "filter (\<lambda>y. g y \<noteq> g x) (A @ x # B) = A @ B"
proof -
  have "\<forall>y\<in>set (A @ B). g y \<noteq> g x" using assms by (force simp: image_iff)
  then have "filter (\<lambda>y. g y \<noteq> g x) A = A" "filter (\<lambda>y. g y \<noteq> g x) B = B" by (auto intro: filter_True)
  then show ?thesis by simp
qed

lemma find_split:
  assumes "distinct (map g (A @ x # B))"
  shows "find (\<lambda>y. g y = g x) (A @ x # B) = Some x"
proof -
  have "find (\<lambda>y. g y = g x) A = None" using assms by (force simp: find_None_iff image_iff)
  then show ?thesis by (induction A) (auto split: if_splits)
qed

text \<open>The transmission of one due entry, from the list \<open>A @ (a, nw) # B\<close>.\<close>

lemma transmit:
  assumes ok: "peer_ok s" and f: "floods s fl = Some f" "nodes (sym_neighbors f) = A @ (a, nw) # B"
    and c: "0 \<le> c" "c < 32704" and due: "times_sent nw \<noteq> 5"
  shows "\<exists>s1 l1 t s2 l2 n1.
    send_data (flood_data f) (sym nw) s = Some (1, s1) \<and> floods s1 fl = Some f \<and>
    remove_elem (compare_n_s (live s1)) (sym_neighbors f) nw = Some (Some nw, l1) \<and>
    wait_time (times_sent nw + 1) s1 = Some (t, s2) \<and>
    n1 = nw\<lparr>times_sent := times_sent nw + 1, wait_until := t + c\<rparr> \<and>
    2 ^ nat (times_sent nw) \<le> t \<and> t < 2 * 2 ^ nat (times_sent nw) \<and>
    add_elem (compare_n_s (live s2)) l1 n1 s2 = Some (1, l2, s2\<lparr>next_addr := Suc (next_addr s2)\<rparr>) \<and>
    nodes l2 = put_back (next_addr s) n1 (A @ B) \<and>
    s2 = s1\<lparr>rnds := Suc (rnds s1)\<rparr> \<and> net_step s s1 \<and>
    peer_ok (s2\<lparr>next_addr := Suc (next_addr s2), floods := (floods s2)(fl \<mapsto> f\<lparr>sym_neighbors := l2\<rparr>)\<rparr>)"
proof -
  have e: "env_ok s" and b: "bst (NEIGHBORS s)" using ok by (simp_all add: peer_ok_def trees_ok_def)
  have fo: "flood_ok (NEIGHBORS s) (next_addr s) f" using ok f(1) by (auto simp: peer_ok_def floods_ok_def dest: table_okD(2))
  then have ns: "nodes_ok (NEIGHBORS s) (next_addr s) (A @ (a, nw) # B)" and st: "stored_tlv (flood_index f) (flood_data f)"
    by (simp_all add: flood_ok_def f(2))
  have nw: "points_to (NEIGHBORS s) (sym nw)" "0 \<le> times_sent nw" "times_sent nw < 5" "1 \<le> wait_until nw" "wait_until nw < 32768"
    using ns due by (auto simp: nodes_ok_def)
  obtain n where n: "deref (live s) (sym nw) = Some n" "wf_neighbor n" "pkey (sym nw) = nkey n"
    using points_to_deref [OF alive_live b nw(1)] by blast
  let ?d = "flood_data f"
  obtain bb where sd: "good_msg (compose s bb (int (unat (?d ! 1)) + 2))"
    "body_size (compose s bb (int (unat (?d ! 1)) + 2)) = unat (?d ! 1) + 2"
    "send_data ?d (sym nw) s = send_message (compose s bb (int (unat (?d ! 1)) + 2)) (unat (?d ! 1) + 6) n s"
    using send_data_spec [OF st n(1)] by blast
  obtain s1 where s1: "send_data ?d (sym nw) s = Some (1, s1)" "net_step s s1"
    using send_message_step [OF sd(1), of "unat (?d ! 1) + 6" s n] sd(2,3) peer_ok_sendable(3) [OF ok nw(1) n(1)] by auto
  note eq = net_step_peer [OF s1(2)]
  have ok1: "peer_ok s1" by (rule peer_ok_net_step [OF ok s1(2)])
  have key: "distinct (map (pkey \<circ> sym \<circ> snd) (A @ (a, nw) # B))" by (rule nodes_ok_keys [OF b ns])
  have al: "alive (live s1) (NEIGHBORS s)" using eq(6) by simp
  obtain l1 where l1: "remove_elem (compare_n_s (live s1)) (sym_neighbors f) nw = Some (Some nw, l1)" "nodes l1 = A @ B"
    using remove_elem_neighbor [OF b al, of "next_addr s" "sym_neighbors f" nw n] ns n nw(4,5) eq(6)
      filter_split [OF key] find_split [OF key] by (auto simp: f(2))
  have "rand_ok s1" using env_okD(2) [OF e] eq by (simp add: rand_ok_def)
  then obtain t where t: "wait_time (times_sent nw + 1) s1 = Some (t, s1\<lparr>rnds := Suc (rnds s1)\<rparr>)"
    "2 ^ nat (times_sent nw) \<le> t" "t < 2 ^ nat (times_sent nw + 1)"
    using nw(2,3) by (elim wait_time_ok [where t = "times_sent nw + 1"]) auto
  have n2: "(2::int) ^ nat (times_sent nw + 1) = 2 * 2 ^ nat (times_sent nw)"
    using nw(2) by (simp add: nat_add_distrib)
  have t32: "t < 64"
  proof -
    have "(2::int) ^ nat (times_sent nw + 1) \<le> 2 ^ 6" using nw(3) by (intro power_increasing) auto
    then show ?thesis using t(3) by simp
  qed
  have t1: "1 \<le> t" using t(2) by (smt (verit) zero_less_power)
  let ?s2 = "s1\<lparr>rnds := Suc (rnds s1)\<rparr>"
  let ?n1 = "nw\<lparr>times_sent := times_sent nw + 1, wait_until := t + c\<rparr>"
  have lv2: "live ?s2 = live s" using eq(6) by (simp add: live_def fun_eq_iff)
  have ns1: "nodes_ok (NEIGHBORS s) (next_addr s) (nodes l1)"
    using nodes_ok_filter [OF ns, of "\<lambda>x. (pkey \<circ> sym \<circ> snd) x \<noteq> (pkey \<circ> sym \<circ> snd) (a, nw)"] filter_split [OF key] l1(2) by simp
  have out: "pkey (sym ?n1) \<notin> (pkey \<circ> sym \<circ> snd) ` set (nodes l1)" using key l1(2) by auto
  have e2: "env_ok ?s2" using e eq by (auto intro: env_ok_cong)
  have m: "malloc ?s2 = (Some (next_addr s), ?s2\<lparr>next_addr := Suc (next_addr s)\<rparr>)"
    using env_malloc [OF e2] eq(12) by simp
  have al2: "alive (live ?s2) (NEIGHBORS s)" using lv2 by simp
  from add_elem_put_back [OF b al2 ns1 m, of ?n1] nw(1) out t1 t32 c obtain l2 where
    l2: "add_elem (compare_n_s (live ?s2)) l1 ?n1 ?s2 = Some (1, l2, ?s2\<lparr>next_addr := Suc (next_addr s)\<rparr>)"
      "nodes l2 = put_back (next_addr s) ?n1 (nodes l1)" by auto
  have "sym ?n1 \<notin> (sym \<circ> snd) ` set (nodes l1)" using out by force
  then have "nodes_ok (NEIGHBORS s) (Suc (next_addr s)) (nodes l2)"
    unfolding l2(2) using nw t1 t32 c by (intro nodes_ok_put_back [OF ns1]) auto
  then have "flood_ok (NEIGHBORS s1) (Suc (next_addr s1)) (f\<lparr>sym_neighbors := l2\<rparr>)"
    using st eq by (simp add: flood_ok_def)
  from peer_ok_flood_update [OF ok1 _ this, of fl "Suc (rnds s1)"] f(1) eq(4)
  have "peer_ok (?s2\<lparr>next_addr := Suc (next_addr ?s2), floods := (floods ?s2)(fl \<mapsto> f\<lparr>sym_neighbors := l2\<rparr>)\<rparr>)"
    by simp
  then show ?thesis using s1 l1 t n2 l2 f(1) eq(4,12)
    by (intro exI [of _ s1] exI [of _ l1] exI [of _ t] exI [of _ ?s2] exI [of _ l2] exI [of _ ?n1]) simp
qed

text \<open>The current node, seen as a split of the list.\<close>

lemma at_node:
  assumes "distinct (map fst ns)" "a \<in> fst ` set ns"
  obtains A nw B where "ns = A @ (a, nw) # B" "a \<notin> fst ` set A" "a \<notin> fst ` set B"
proof -
  from assms(2) obtain nw where "(a, nw) \<in> set ns" by auto
  from split_list [OF this] obtain A B where "ns = A @ (a, nw) # B" by blast
  then show thesis using that assms(1) by (auto simp: image_iff)
qed

definition on_list :: "ptr \<Rightarrow> (addr \<times> ngb_entry) list \<Rightarrow> bool" where
  "on_list tmp ns \<longleftrightarrow> (\<forall>a. tmp = Some a \<longrightarrow> a \<in> fst ` set ns)"

abbreviation listed :: "flood_entry \<Rightarrow> ngb_entry set" where
  "listed f \<equiv> set (contents (sym_neighbors f))"

lemma listed_nodes: "listed f = snd ` set (nodes (sym_neighbors f))"
  by (simp add: contents_def)

text \<open>
  Across a pass every listed neighbour can be followed: it is still listed with the same datum or
  it is not a neighbour any more; and the other data can only lose entries.
\<close>

definition followed :: "'z peer_scheme \<Rightarrow> 'z peer_scheme \<Rightarrow> bool" where
  "followed s s' \<longleftrightarrow> set (tree_keys (NEIGHBORS s')) \<subseteq> set (tree_keys (NEIGHBORS s)) \<and>
     (\<forall>a f y. floods s a = Some f \<longrightarrow> y \<in> listed f \<longrightarrow> pkey (sym y) \<in> set (tree_keys (NEIGHBORS s')) \<longrightarrow>
        (\<exists>f'. floods s' a = Some f' \<and> (\<exists>x\<in>listed f'. sym x = sym y)))"

definition shrinks :: "addr set \<Rightarrow> 'z peer_scheme \<Rightarrow> 'z peer_scheme \<Rightarrow> bool" where
  "shrinks A s s' \<longleftrightarrow>
     (\<forall>b g'. b \<notin> A \<longrightarrow> floods s' b = Some g' \<longrightarrow> (\<exists>g. floods s b = Some g \<and> listed g' \<subseteq> listed g))"

lemma followedD:
  assumes "followed s s'" "floods s a = Some f" "y \<in> listed f" "pkey (sym y) \<in> set (tree_keys (NEIGHBORS s'))"
  shows "\<exists>f' x. floods s' a = Some f' \<and> x \<in> listed f' \<and> sym x = sym y"
  using assms unfolding followed_def by blast

lemma followed_refl [simp]: "followed s s" "shrinks A s s"
  by (auto simp: followed_def shrinks_def)

lemma followed_same:
  assumes "NEIGHBORS s' = NEIGHBORS s" "floods s' = floods s"
  shows "followed s s'" "shrinks A s s'"
  using assms by (auto simp: followed_def shrinks_def)

lemma followed_trans:
  assumes "followed s s1" "followed s1 s2"
  shows "followed s s2"
proof -
  have k: "set (tree_keys (NEIGHBORS s2)) \<subseteq> set (tree_keys (NEIGHBORS s1))" using assms(2) by (simp add: followed_def)
  have "\<exists>f2. floods s2 a = Some f2 \<and> (\<exists>x\<in>listed f2. sym x = sym y)"
    if y: "floods s a = Some f" "y \<in> listed f" "pkey (sym y) \<in> set (tree_keys (NEIGHBORS s2))" for a f y
  proof -
    have "pkey (sym y) \<in> set (tree_keys (NEIGHBORS s1))" using y(3) k by blast
    from followedD [OF assms(1) y(1,2) this] obtain f1 x where x: "floods s1 a = Some f1" "x \<in> listed f1" "sym x = sym y"
      by blast
    have "pkey (sym x) \<in> set (tree_keys (NEIGHBORS s2))" using x(3) y(3) by simp
    from followedD [OF assms(2) x(1,2) this] show ?thesis unfolding x(3) by blast
  qed
  then show ?thesis using assms(1) k unfolding followed_def by blast
qed

lemma shrinks_trans:
  assumes "shrinks A s s1" "shrinks B s1 s2"
  shows "shrinks (A \<union> B) s s2"
  using assms unfolding shrinks_def by (meson UnCI subset_trans)

lemma followed_removed:
  assumes "removed_everywhere nk s s'"
  shows "followed s s'" "shrinks A s s'"
proof -
  have d: "dom (floods s') = dom (floods s)"
    and n: "entries (NEIGHBORS s') = filter (\<lambda>e. entry_key e \<noteq> nk) (entries (NEIGHBORS s))"
    and st: "\<And>a f'. floods s' a = Some f' \<Longrightarrow> \<exists>f. floods s a = Some f \<and> stripped nk f f'"
    using assms by (auto simp: removed_everywhere_def)
  have l: "listed f' = {x \<in> listed f. pkey (sym x) \<noteq> nk}" if "stripped nk f f'" for f f'
    using that by (auto simp: stripped_def contents_def)
  show "shrinks A s s'" unfolding shrinks_def using st l by blast
  have k: "nk \<notin> set (tree_keys (NEIGHBORS s'))" "set (tree_keys (NEIGHBORS s')) \<subseteq> set (tree_keys (NEIGHBORS s))"
    by (auto simp: tree_keys_def n)
  have "\<exists>f'. floods s' a = Some f' \<and> (\<exists>x\<in>listed f'. sym x = sym y)"
    if y: "floods s a = Some f" "y \<in> listed f" "pkey (sym y) \<in> set (tree_keys (NEIGHBORS s'))" for a f y
  proof -
    obtain f' where f': "floods s' a = Some f'" using d y(1) by blast
    then have "stripped nk f f'" using st y(1) by fastforce
    then have "y \<in> listed f'" using l y k(1) by auto
    then show ?thesis using f' by blast
  qed
  then show "followed s s'" using k(2) unfolding followed_def by blast
qed

lemma followed_update:
  assumes "NEIGHBORS s' = NEIGHBORS s" "floods s' = (floods s)(fl \<mapsto> f')" "floods s fl = Some f" "sym ` listed f \<subseteq> sym ` listed f'"
  shows "followed s s'" "shrinks {fl} s s'"
proof -
  have "\<exists>x\<in>listed f'. sym x = sym y" if "y \<in> listed f" for y using assms(4) that by (auto simp: image_iff subset_iff) metis
  then show "followed s s'" using assms(1-3) by (auto simp: followed_def)
  show "shrinks {fl} s s'" using assms(2) by (auto simp: shrinks_def)
qed

definition pass_result :: "addr \<Rightarrow> int \<Rightarrow> 'z peer_scheme \<Rightarrow> flood_entry \<Rightarrow> 'z peer_scheme \<Rightarrow> bool" where
  "pass_result fl c s f s' \<longleftrightarrow> peer_ok s' \<and> flood_frame s s' \<and> followed s s' \<and> shrinks {fl} s s' \<and>
     (\<exists>f'. floods s' fl = Some f' \<and> flood_index f' = flood_index f \<and> flood_data f' = flood_data f \<and>
        pass c (listed f) (listed f') \<and> (\<forall>x\<in>listed f'. c < wait_until x))"

lemma pass_result_step:
  assumes "flood_frame s s1" "flood_index f1 = flood_index f" "flood_data f1 = flood_data f"
    and "pass c (listed f) (listed f1)" "followed s s1" "shrinks {fl} s s1" "pass_result fl c s1 f1 s'"
  shows "pass_result fl c s f s'"
proof -
  obtain f' where f': "floods s' fl = Some f'" "flood_index f' = flood_index f1" "flood_data f' = flood_data f1"
    "pass c (listed f1) (listed f')" "\<forall>x\<in>listed f'. c < wait_until x" and
    r: "peer_ok s'" "flood_frame s1 s'" "followed s1 s'" "shrinks {fl} s1 s'"
    using assms(7) unfolding pass_result_def by blast
  have "shrinks {fl} s s'" using shrinks_trans [OF assms(6) r(4)] by simp
  then show ?thesis
    unfolding pass_result_def
    using r(1) f'(1,5) flood_frame_trans [OF assms(1) r(2)] followed_trans [OF assms(5) r(3)] pass_trans [OF assms(4) f'(4)]
    by (simp add: f'(2,3) assms(2,3))
qed

text \<open>The two ways the loop goes on.\<close>

lemma loop_inactive:
  assumes ok: "peer_ok s" and f: "floods s fl = Some f" "nodes (sym_neighbors f) = A @ (a, nw) # B"
    and a: "a \<notin> fst ` set A" and t: "times_sent nw = 5"
  obtains s1 f1 where "flood_loop fl (Some a) c s = flood_loop fl (case B of [] \<Rightarrow> None | (d, _) # _ \<Rightarrow> Some d) c s1"
    "peer_ok s1" "flood_frame s s1" "floods s1 fl = Some f1" "flood_index f1 = flood_index f" "flood_data f1 = flood_data f"
    "nodes (sym_neighbors f1) = A @ B" "pass c (listed f) (listed f1)" "followed s s1" "shrinks {fl} s s1"
    "pkey (sym nw) \<notin> set (tree_keys (NEIGHBORS s1))"
proof -
  have b: "bst (NEIGHBORS s)" using ok by (simp add: peer_ok_def trees_ok_def)
  have "flood_ok (NEIGHBORS s) (next_addr s) f" using ok f(1) by (auto simp: peer_ok_def floods_ok_def dest: table_okD(2))
  then have ns: "nodes_ok (NEIGHBORS s) (next_addr s) (A @ (a, nw) # B)" by (simp add: flood_ok_def f(2))
  then have p: "points_to (NEIGHBORS s) (sym nw)" by (auto simp: nodes_ok_def)
  obtain n where n: "deref (live s) (sym nw) = Some n" "pkey (sym nw) = nkey n"
    using points_to_deref [OF alive_live b p] by blast
  obtain s0 s1 where s1: "handle_inactive (sym nw) s = Some s1" "peer_ok s1" "net_step s s0" "removed_everywhere (nkey n) s0 s1"
    using handle_inactive_spec [OF ok p n(1)] by blast
  have fr: "flood_frame s s1" by (rule flood_frame_trans [OF flood_frame_net [OF s1(3)] flood_frame_removed [OF s1(4)]])
  then have "floods s1 fl \<noteq> None" using f(1) by (auto simp: flood_frame_def)
  then obtain f1 where f0: "floods s1 fl = Some f1" by blast
  then have "\<exists>g. floods s0 fl = Some g \<and> stripped (nkey n) g f1"
    using s1(4) unfolding removed_everywhere_def by blast
  then have f1: "floods s1 fl = Some f1" "stripped (nkey n) f f1"
    using f0 f(1) net_step_peer(4) [OF s1(3)] by simp_all
  have "nodes (sym_neighbors f1) = A @ B"
    using f1(2) f(2) n(2) filter_split [OF nodes_ok_keys [OF b ns]] by (simp add: stripped_def)
  moreover from this have "pass c (listed f) (listed f1)"
    using t by (auto simp: pass_def listed_nodes f(2) gave_up_def advanced_def)
  moreover have "flood_loop fl (Some a) c s = flood_loop fl (case B of [] \<Rightarrow> None | (d, _) # _ \<Rightarrow> Some d) c s1"
    by (subst flood_loop.simps)
       (simp add: f(1) entry_at_split [OF a f(2)] t s1(1) f(2) next_of_split [OF a])
  moreover have "followed s s1" "shrinks {fl} s s1"
    using followed_same [of s0 s] net_step_peer [OF s1(3)] followed_removed [OF s1(4)] followed_trans [of s s0 s1]
      shrinks_trans [of "{fl}" s s0 "{fl}" s1] by simp_all
  moreover have "pkey (sym nw) \<notin> set (tree_keys (NEIGHBORS s1))"
    using s1(4) n(2) by (auto simp: removed_everywhere_def tree_keys_def)
  ultimately show thesis using that f1 s1(2) fr by (simp add: stripped_def)
qed

lemma loop_due:
  assumes ok: "peer_ok s" and f: "floods s fl = Some f" "nodes (sym_neighbors f) = A @ (a, nw) # B"
    and a: "a \<notin> fst ` set A" and t: "times_sent nw \<noteq> 5" "wait_until nw \<le> c" and c: "0 \<le> c" "c < 32704"
  obtains s1 f1 n1 where "flood_loop fl (Some a) c s = flood_loop fl (case B of [] \<Rightarrow> None | (d, _) # _ \<Rightarrow> Some d) c s1"
    "peer_ok s1" "flood_frame s s1" "floods s1 fl = Some f1" "flood_index f1 = flood_index f" "flood_data f1 = flood_data f"
    "nodes (sym_neighbors f1) = put_back (next_addr s) n1 (A @ B)" "c < wait_until n1"
    "times_sent n1 = times_sent nw + 1" "pass c (listed f) (listed f1)" "followed s s1" "shrinks {fl} s s1"
proof -
  from transmit [OF ok f c t(1)] obtain s1 l1 r s2 l2 n1 where
    tr: "send_data (flood_data f) (sym nw) s = Some (1, s1)" "floods s1 fl = Some f"
      "remove_elem (compare_n_s (live s1)) (sym_neighbors f) nw = Some (Some nw, l1)"
      "wait_time (times_sent nw + 1) s1 = Some (r, s2)"
    and n1: "n1 = nw\<lparr>times_sent := times_sent nw + 1, wait_until := r + c\<rparr>"
      "2 ^ nat (times_sent nw) \<le> r" "r < 2 * 2 ^ nat (times_sent nw)"
    and l2: "add_elem (compare_n_s (live s2)) l1 n1 s2 = Some (1, l2, s2\<lparr>next_addr := Suc (next_addr s2)\<rparr>)"
      "nodes l2 = put_back (next_addr s) n1 (A @ B)"
    and s2: "s2 = s1\<lparr>rnds := Suc (rnds s1)\<rparr>" "net_step s s1"
      "peer_ok (s2\<lparr>next_addr := Suc (next_addr s2), floods := (floods s2)(fl \<mapsto> f\<lparr>sym_neighbors := l2\<rparr>)\<rparr>)" by metis
  let ?s4 = "s2\<lparr>next_addr := Suc (next_addr s2), floods := (floods s2)(fl \<mapsto> f\<lparr>sym_neighbors := l2\<rparr>)\<rparr>"
  let ?f1 = "f\<lparr>sym_neighbors := l2\<rparr>"
  have le: "times_sent nw < 5"
  proof -
    have "flood_ok (NEIGHBORS s) (next_addr s) f" using ok f(1) by (auto simp: peer_ok_def floods_ok_def dest: table_okD(2))
    then show ?thesis using t(1) by (auto simp: flood_ok_def f(2) nodes_ok_def)
  qed
  have adv: "advanced c nw n1" using n1 t(2) le by (simp add: advanced_def)
  have "times_sent n1 \<noteq> times_sent nw" using n1(1) by simp
  then have "n1 \<noteq> nw" by blast
  then have w: "c < wait_until n1" by (rule advanced_later(1) [OF adv])
  have cont: "listed ?f1 = insert n1 (snd ` set (A @ B))" by (auto simp: contents_def l2(2))
  have "pass c (listed f) (listed ?f1)"
    unfolding cont using adv by (auto simp: pass_def listed_nodes f(2) advanced_def)
  moreover have "flood_frame s ?s4"
  proof -
    obtain M S where "s1 = s\<lparr>msgs := M, sent := S\<rparr>" using net_step_eq [OF s2(2)] by blast
    then show ?thesis using s2(1) f(1) by (cases s) (auto simp: flood_frame_def)
  qed
  moreover have "followed s ?s4" "shrinks {fl} s ?s4"
  proof -
    have "sym ` listed f \<subseteq> sym ` listed ?f1" unfolding cont using n1(1) by (auto simp: listed_nodes f(2))
    moreover have "NEIGHBORS ?s4 = NEIGHBORS s" "floods ?s4 = (floods s)(fl \<mapsto> ?f1)"
      using s2(1) net_step_peer [OF s2(2)] by simp_all
    ultimately show "followed s ?s4" "shrinks {fl} s ?s4" using followed_update [OF _ _ f(1)] by blast+
  qed
  moreover have "flood_loop fl (Some a) c s = flood_loop fl (case B of [] \<Rightarrow> None | (d, _) # _ \<Rightarrow> Some d) c ?s4"
    by (subst flood_loop.simps)
       (simp add: f(1) entry_at_split [OF a f(2)] t tr n1(1) [symmetric] l2(1) f(2) next_of_split [OF a])
  ultimately show thesis using that [of ?s4 ?f1 n1] s2(3) l2(2) w n1(1) by simp
qed

lemma flood_loop_spec:
  assumes "peer_ok s" "floods s fl = Some f" "on_list tmp (nodes (sym_neighbors f))"
    and "\<forall>x\<in>set (before tmp (nodes (sym_neighbors f))). c < wait_until (snd x)" "0 \<le> c" "c < 32704"
  shows "\<exists>s'. flood_loop fl tmp c s = Some s' \<and> pass_result fl c s f s'"
  using assms(1-4)
proof (induction "transmissions (nodes (sym_neighbors f))" arbitrary: s f tmp rule: less_induct)
  case less
  show ?case
  proof (cases tmp)
    case None
    then have "\<forall>x\<in>listed f. c < wait_until x" using less.prems(4) by (auto simp: contents_def)
    moreover have "flood_loop fl tmp c s = Some s" by (subst flood_loop.simps) (simp add: None)
    ultimately show ?thesis using less.prems(1,2) by (auto simp: pass_result_def)
  next
    case (Some a)
    have "flood_ok (NEIGHBORS s) (next_addr s) f"
      using less.prems(1,2) by (auto simp: peer_ok_def floods_ok_def dest: table_okD(2))
    then have ns: "nodes_ok (NEIGHBORS s) (next_addr s) (nodes (sym_neighbors f))" by (simp add: flood_ok_def)
    have "distinct (map fst (nodes (sym_neighbors f)))" "a \<in> fst ` set (nodes (sym_neighbors f))"
      using ns less.prems(3) Some by (auto simp: nodes_ok_def on_list_def)
    from at_node [OF this] obtain A nw B where sp: "nodes (sym_neighbors f) = A @ (a, nw) # B"
      "a \<notin> fst ` set A" "a \<notin> fst ` set B" .
    have A: "\<forall>x\<in>set A. c < wait_until (snd x)" using less.prems(4) by (simp add: Some sp(1) before_split [OF sp(2)])
    have dA: "d \<notin> fst ` set A" if "B = (d, y) # B'" for d y B'
      using ns that by (auto simp: nodes_ok_def sp(1))
    let ?next = "case B of [] \<Rightarrow> None | (d, _) # _ \<Rightarrow> Some d"
    have tr: "transmissions (nodes (sym_neighbors f)) = transmissions (A @ B) + nat (6 - times_sent nw)"
      by (simp add: sp(1) transmissions_append) (simp add: transmissions_def)
    have t5: "times_sent nw \<le> 5" using ns by (auto simp: nodes_ok_def sp(1))
    consider (inactive) "times_sent nw = 5" | (due) "times_sent nw \<noteq> 5" "wait_until nw \<le> c"
      | (wait) "times_sent nw \<noteq> 5" "c < wait_until nw" by linarith
    then show ?thesis
    proof cases
      case inactive
      from loop_inactive [OF less.prems(1,2) sp(1,2) inactive] obtain s1 f1 where
        1: "flood_loop fl (Some a) c s = flood_loop fl ?next c s1" "peer_ok s1" "flood_frame s s1" "floods s1 fl = Some f1"
          "flood_index f1 = flood_index f" "flood_data f1 = flood_data f"
          "nodes (sym_neighbors f1) = A @ B" "pass c (listed f) (listed f1)" "followed s s1" "shrinks {fl} s s1" by metis
      have "transmissions (nodes (sym_neighbors f1)) < transmissions (nodes (sym_neighbors f))"
        using tr inactive 1(7) by simp
      moreover have "on_list ?next (nodes (sym_neighbors f1))" by (auto simp: on_list_def 1(7) split: list.splits)
      moreover have "\<forall>x\<in>set (before ?next (nodes (sym_neighbors f1))). c < wait_until (snd x)"
        using A dA before_split by (cases B) (auto simp: 1(7))
      ultimately obtain s' where "flood_loop fl ?next c s1 = Some s'" "pass_result fl c s1 f1 s'"
        using less.hyps [OF _ 1(2,4)] by blast
      then show ?thesis using pass_result_step [OF 1(3,5,6,8-10)] 1(1) Some by metis
    next
      case due
      from loop_due [OF less.prems(1,2) sp(1,2) due assms(5,6)] obtain s1 f1 n1 where
        1: "flood_loop fl (Some a) c s = flood_loop fl ?next c s1" "peer_ok s1" "flood_frame s s1" "floods s1 fl = Some f1"
          "flood_index f1 = flood_index f" "flood_data f1 = flood_data f"
          "nodes (sym_neighbors f1) = put_back (next_addr s) n1 (A @ B)" "c < wait_until n1"
          "times_sent n1 = times_sent nw + 1" "pass c (listed f) (listed f1)" "followed s s1" "shrinks {fl} s s1" by metis
      have "transmissions (nodes (sym_neighbors f1)) < transmissions (nodes (sym_neighbors f))"
        using tr due t5 1(7,9) by (simp add: transmissions_put_back)
      moreover have "on_list ?next (nodes (sym_neighbors f1))" by (auto simp: on_list_def 1(7) split: list.splits)
      moreover have "\<forall>x\<in>set (before ?next (nodes (sym_neighbors f1))). c < wait_until (snd x)"
      proof (cases B)
        case Nil
        then show ?thesis using A 1(7,8) by auto
      next
        case (Cons b B')
        obtain d y where b: "b = (d, y)" by (cases b)
        have "d \<noteq> next_addr s" using ns by (auto simp: nodes_ok_def sp(1) Cons b)
        then have "set (before (Some d) (nodes (sym_neighbors f1))) \<subseteq> insert (next_addr s, n1) (set A)"
          unfolding 1(7) Cons b by (intro before_put_back) (use dA Cons b in auto)
        then show ?thesis using A 1(8) Cons b by auto
      qed
      ultimately obtain s' where "flood_loop fl ?next c s1 = Some s'" "pass_result fl c s1 f1 s'"
        using less.hyps [OF _ 1(2,4)] by blast
      then show ?thesis using pass_result_step [OF 1(3,5,6,10-12)] 1(1) Some by metis
    next
      case wait
      let ?s' = "s\<lparr>NEXTTIME := word_of_int (min_c (to_int (uint (NEXTTIME s))) (wait_until nw))\<rparr>"
      have "\<not> wait_until nw \<le> c" using wait(2) by simp
      then have run: "flood_loop fl tmp c s = Some ?s'"
        by (subst flood_loop.simps) (simp add: Some less.prems(2) entry_at_split [OF sp(2,1)] wait)
      have "\<forall>x\<in>set B. wait_until nw \<le> wait_until (snd x)"
        using ns by (auto simp: nodes_ok_def sp(1) sorted_append)
      then have "\<forall>x\<in>listed f. c < wait_until x"
        using A wait(2) by (fastforce simp: contents_def sp(1))
      moreover have "peer_ok ?s'" by (rule peer_ok_cong [OF less.prems(1)]) simp_all
      moreover have "flood_frame s ?s'" by (simp add: flood_frame_def)
      moreover have "followed s ?s'" "shrinks {fl} s ?s'" by (rule followed_same; simp)+
      ultimately have "pass_result fl c s f ?s'" using less.prems(2) by (simp add: pass_result_def)
      then show ?thesis using run by blast
    qed
  qed
qed

lemma flood_message_to_neighbours_spec:
  assumes ok: "peer_ok s" and f: "floods s fl = Some f"
  shows "\<exists>s'. flood_message_to_neighbours (Some fl) s = Some s' \<and>
    pass_result fl (clock s (ticks s)) (s\<lparr>ticks := Suc (ticks s)\<rparr>) f s'"
proof -
  let ?s1 = "s\<lparr>ticks := Suc (ticks s)\<rparr>"
  let ?c = "clock s (ticks s)"
  let ?tmp = "case nodes (sym_neighbors f) of [] \<Rightarrow> None | (a, _) # _ \<Rightarrow> Some a"
  have e: "env_ok s" using ok by (simp add: peer_ok_def)
  have "peer_ok ?s1" by (rule peer_ok_cong [OF ok]) simp_all
  moreover have "floods ?s1 fl = Some f" using f by simp
  moreover have "on_list ?tmp (nodes (sym_neighbors f))" by (auto simp: on_list_def split: list.splits)
  moreover have "\<forall>x\<in>set (before ?tmp (nodes (sym_neighbors f))). ?c < wait_until (snd x)"
    by (auto simp: before_def split: list.splits)
  moreover have "0 \<le> ?c" "?c < 32704" by (rule env_okD [OF e])+
  ultimately obtain s' where "flood_loop fl ?tmp ?c ?s1 = Some s'" "pass_result fl ?c ?s1 f s'"
    using flood_loop_spec by blast
  moreover have "flood_message_to_neighbours (Some fl) s = flood_loop fl ?tmp ?c ?s1"
    by (simp add: flood_message_to_neighbours_def env_get_seconds [OF e] f)
  ultimately show ?thesis by auto
qed

end
