(* ===== verification/Rounds.thy ===== *)
theory Rounds
  imports Flood_Pass
begin

text \<open>
  The periodic work under the invariant: a flooding round over all recent data, the batches
  of neighbour TLVs, and the removal of neighbours that went silent.
\<close>

section \<open>A flooding round\<close>

lemma flood_messages_loop_spec:
  assumes "peer_ok s" "set as \<subseteq> dom (floods s)"
  shows "\<exists>s'. flood_messages_loop (map Some as) s = Some s' \<and> peer_ok s' \<and> dom (floods s') = dom (floods s) \<and> DATAF s' = DATAF s"
  using assms
proof (induction as arbitrary: s)
  case (Cons a as)
  then obtain f where f: "floods s a = Some f" by auto
  obtain s1 where s1: "flood_message_to_neighbours (Some a) s = Some s1"
    "pass_result a (clock s (ticks s)) (s\<lparr>ticks := Suc (ticks s)\<rparr>) f s1"
    using flood_message_to_neighbours_spec [OF Cons.prems(1) f] by blast
  have fr: "flood_frame (s\<lparr>ticks := Suc (ticks s)\<rparr>) s1" and ok: "peer_ok s1"
    using s1(2) by (auto simp: pass_result_def)
  have d: "dom (floods s1) = dom (floods s)" using fr by (simp add: flood_frame_def)
  have "DATAF (s\<lparr>ticks := Suc (ticks s),
        next_addr := next_addr s1, rnds := rnds s1, msgs := msgs s1, sent := sent s1,
       NEIGHBORS := NEIGHBORS s1, floods := floods s1, NEXTTIME := NEXTTIME s1\<rparr>) = DATAF s1"
    using fr by (simp only: flood_frame_def)
  then have q: "DATAF s1 = DATAF s" by simp
  show ?case using Cons.IH [OF ok] Cons.prems(2) d q s1(1) by auto
qed simp

lemma flood_messages_spec:
  assumes ok: "peer_ok s"
  shows "\<exists>s'. flood_messages s = Some s' \<and> peer_ok s'"
proof -
  obtain as where "contents (DATAF s) = map Some as" "set as = dom (floods s)"
    using ok by (auto simp: peer_ok_def floods_ok_def queue_ok_def)
  then show ?thesis using flood_messages_loop_spec [OF ok, of as] by (auto simp: flood_messages_def)
qed

section \<open>Neighbour TLVs\<close>

lemma pointing_nodes:
  assumes "bst t" "alive lv t" "nodes_ok t na (nodes l)"
  shows "pointing lv (contents l)"
  unfolding pointing_def
proof
  fix e assume "e \<in> set (contents l)"
  then have "points_to t (sym e)" using assms(3) by (auto simp: nodes_ok_def contents_def)
  from points_to_deref [OF assms(2,1) this] show "\<exists>n. deref lv (sym e) = Some n \<and> wf_neighbor n" by blast
qed

text \<open>The neighbour TLVs go out in good messages, some before and the rest after the count is stored.\<close>

definition announced :: "tree \<Rightarrow> 'z peer_scheme \<Rightarrow> 'z peer_scheme \<Rightarrow> ngb_entry list \<Rightarrow> bool" where
  "announced t s s' es \<longleftrightarrow> (\<exists>ms ms2 u. (\<forall>x\<in>set (ms @ ms2). good_msg x) \<and> net_step s u \<and>
     concat (map pending (ms @ ms2)) = concat (map (announcement \<circ> target \<circ> sym) es) \<and>
     send_batches ms t s = Some u \<and> send_batches ms2 t (u\<lparr>NB_SYMETRICAL := int (length es)\<rparr>) = Some s')"

lemma send_symetrical_everyone_spec:
  assumes ok: "peer_ok s" and t: "all_sendable s t"
  shows "\<exists>rc s' l s1 n tk. send_symetrical_everyone t s = Some (rc, s') \<and> peer_ok s' \<and>
    get_symmetrical (NEIGHBORS s) s = Some (Some l, s1) \<and> s1 = s\<lparr>next_addr := n, ticks := tk\<rparr> \<and> ticks s \<le> tk \<and>
    NB_SYMETRICAL s' = int (length (contents l)) \<and> net_step (s1\<lparr>NB_SYMETRICAL := int (length (contents l))\<rparr>) s' \<and>
    announced t s1 s' (contents l)"
proof -
  have e: "env_ok s" and b: "bst (NEIGHBORS s)" "distinct (tree_addrs (NEIGHBORS s))"
    using ok by (auto simp: peer_ok_def trees_ok_def)
  obtain l na tk where l: "find_by (NEIGHBORS s) issymmetrical s = Some (Some l, s\<lparr>next_addr := na, ticks := tk\<rparr>)"
    "next_addr s \<le> na" "nodes_ok (NEIGHBORS s) na (nodes l)" "ticks s \<le> tk"
    using find_by_ok [OF e b(2) reads_clock_issymmetrical] by blast
  let ?s1 = "s\<lparr>next_addr := na, ticks := tk\<rparr>"
  let ?m = "\<lparr>magic = 93, version = 2, body_length = 0, body = replicate MAX_SIZE 0\<rparr>"
  have lv: "live ?s1 = live s" by (simp add: live_def fun_eq_iff)
  have ok1: "peer_ok ?s1" by (rule peer_ok_cong [OF ok]) (use l(2) in simp_all)
  have "all_sendable ?s1 t" using t by (auto simp: all_sendable_def sendable_def)
  moreover have "pointing (live ?s1) (contents l)" by (rule pointing_nodes [OF b(1) _ l(3)]) (simp add: lv)
  moreover have "batch ?m 0" by (simp add: batch_def)
  ultimately obtain m sz res s2 ms where
    r: "symetrical_loop (contents l) ?m 0 0 0 t ?s1 = Some (m, sz, res, int (length (contents l)), s2)" "batch m sz" "net_step ?s1 s2"
      "\<forall>x\<in>set ms. good_msg x" "send_batches ms t ?s1 = Some s2"
      "concat (map pending ms) @ take (unat sz) (body m) = concat (map (announcement \<circ> target \<circ> sym) (contents l))"
    using symetrical_loop_step [of ?m 0 ?s1 "contents l" t 0 0] by fastforce
  let ?s3 = "s2\<lparr>NB_SYMETRICAL := int (length (contents l))\<rparr>"
  have n3: "net_step (?s1\<lparr>NB_SYMETRICAL := int (length (contents l))\<rparr>) ?s3"
  proof -
    obtain M S where "s2 = ?s1\<lparr>msgs := M, sent := S\<rparr>" using net_step_eq [OF r(3)] by blast
    then show ?thesis using r(3) unfolding net_step_def by (cases s) simp
  qed
  have "peer_ok (?s1\<lparr>NB_SYMETRICAL := int (length (contents l))\<rparr>)" by (rule peer_ok_cong [OF ok1]) simp_all
  then have ok3: "peer_ok ?s3" using n3 by (rule peer_ok_net_step)
  have t3: "all_sendable ?s3 t"
    using all_sendable_step [OF r(3)] t by (auto simp: all_sendable_def sendable_def)
  let ?f = "m\<lparr>body_length := htons (ucast sz)\<rparr>"
  note g = batch_good [OF r(2)]
  have "\<exists>rc s'. send_symetrical_everyone t s = Some (rc, s') \<and> net_step ?s3 s' \<and> announced t ?s1 s' (contents l)"
  proof (cases "sz > 0")
    case True
    from send_to_everyone_step [OF g(1) g(2) [symmetric] t3]
    obtain s' where sd: "send_to_everyone (m\<lparr>body_length := htons (ucast sz)\<rparr>) (unat (sz + 4)) t ?s3 = Some (number_of_neighbors t, s')"
      "net_step ?s3 s'" by blast
    have "pending ?f = take (unat sz) (body m)" using g(2) r(2) by (simp add: pending_def batch_size)
    then have "concat (map pending (ms @ [?f])) = concat (map (announcement \<circ> target \<circ> sym) (contents l))" using r(6) by simp
    moreover have "send_batches [?f] t ?s3 = Some s'" unfolding send_batches.simps g(2) sd(1) by simp
    moreover have "\<forall>x\<in>set (ms @ [?f]). good_msg x" using r(4) g(1) by simp
    ultimately have "announced t ?s1 s' (contents l)" using r(3,5) unfolding announced_def by blast
    then show ?thesis using True l(1) r(1) sd by (simp add: send_symetrical_everyone_def get_symmetrical_def Let_def)
  next
    case False
    then have "sz = 0" by (simp add: word_gt_0)
    then have "concat (map pending (ms @ [])) = concat (map (announcement \<circ> target \<circ> sym) (contents l))" using r(6) by simp
    moreover have "send_batches [] t ?s3 = Some ?s3" by simp
    moreover have "\<forall>x\<in>set (ms @ []). good_msg x" using r(4) by simp
    ultimately have "announced t ?s1 ?s3 (contents l)" using r(3,5) unfolding announced_def by blast
    then show ?thesis using False l(1) r(1) by (simp add: send_symetrical_everyone_def get_symmetrical_def Let_def)
  qed
  then obtain rc s' where s': "send_symetrical_everyone t s = Some (rc, s')" "net_step ?s3 s'" "announced t ?s1 s' (contents l)" by blast
  have "NB_SYMETRICAL s' = int (length (contents l))" using net_step_peer(8) [OF s'(2)] by simp
  then show ?thesis
    using s' l(1,4) net_step_trans [OF n3 s'(2)] peer_ok_net_step [OF ok3 s'(2)]
    unfolding get_symmetrical_def by blast
qed

section \<open>Silent neighbours\<close>

text \<open>A list of entries that still point into the tree, to distinct neighbours.\<close>

definition pending_removal :: "tree \<Rightarrow> ngb_entry list \<Rightarrow> bool" where
  "pending_removal t es \<longleftrightarrow> distinct (map (pkey \<circ> sym) es) \<and> (\<forall>e\<in>set es. points_to t (sym e))"

lemma pending_removal_nodes:
  assumes "bst t" "nodes_ok t na (nodes l)"
  shows "pending_removal t (contents l)"
proof -
  have "map (pkey \<circ> sym) (contents l) = map (pkey \<circ> sym \<circ> snd) (nodes l)" by (simp add: contents_def)
  then have "distinct (map (pkey \<circ> sym) (contents l))" using nodes_ok_keys [OF assms] by metis
  then show ?thesis using assms(2) by (auto simp: pending_removal_def contents_def nodes_ok_def)
qed

lemma pending_removal_step:
  assumes "pending_removal t (e # es)" "entries t' = filter (\<lambda>x. entry_key x \<noteq> pkey (sym e)) (entries t)"
  shows "pending_removal t' es"
  unfolding pending_removal_def
proof (intro conjI ballI)
  show "distinct (map (pkey \<circ> sym) es)" using assms(1) by (simp add: pending_removal_def)
  fix x assume x: "x \<in> set es"
  then have "points_to t (sym x)" "pkey (sym x) \<noteq> pkey (sym e)"
    using assms(1) by (auto simp: pending_removal_def image_iff)
  then show "points_to t' (sym x)" by (rule points_to_removed [OF _ _ assms(2)])
qed

definition others_kept :: "'z peer_scheme \<Rightarrow> 'z peer_scheme \<Rightarrow> bool" where
  "others_kept s s' \<longleftrightarrow> POTENTIAL s' = POTENTIAL s \<and> clock s' = clock s \<and> NB_SYMETRICAL s' = NB_SYMETRICAL s \<and> ID s' = ID s \<and>
     ticks s \<le> ticks s'"

lemma goaway_loop_spec:
  assumes "peer_ok s" "pending_removal (NEIGHBORS s) es" "good_msg m" "n = body_size m + 4"
  shows "\<exists>c s'. goaway_loop es m n k s = Some (c, s') \<and> peer_ok s' \<and> others_kept s s' \<and>
    entries (NEIGHBORS s') = filter (\<lambda>x. entry_key x \<notin> (pkey \<circ> sym) ` set es) (entries (NEIGHBORS s))"
  using assms(1,2)
proof (induction es arbitrary: s k)
  case Nil
  then show ?case by (simp add: others_kept_def)
next
  case (Cons e es)
  have b: "bst (NEIGHBORS s)" using Cons.prems(1) by (simp add: peer_ok_def trees_ok_def)
  have p: "points_to (NEIGHBORS s) (sym e)" using Cons.prems(2) by (simp add: pending_removal_def)
  obtain x where x: "deref (live s) (sym e) = Some x" "wf_neighbor x" "pkey (sym e) = nkey x"
    using points_to_deref [OF alive_live b p] by blast
  obtain s1 where s1: "send_message m n x s = Some (1, s1)" "net_step s s1"
    using send_message_step [OF assms(3,4) peer_ok_sendable(3) [OF Cons.prems(1) p x(1)]] by blast
  note eq = net_step_peer [OF s1(2)]
  obtain s2 where s2: "remove_neighbor_everywhere (sym e) s1 = Some (1, s2)" "peer_ok s2" "removed_everywhere (nkey x) s1 s2"
    using remove_neighbor_everywhere_spec [OF peer_ok_net_step [OF Cons.prems(1) s1(2)], of "sym e" x] x eq by auto
  have en: "entries (NEIGHBORS s2) = filter (\<lambda>y. entry_key y \<noteq> pkey (sym e)) (entries (NEIGHBORS s))"
    using s2(3) eq x(3) by (simp add: removed_everywhere_def)
  obtain F M N where "s2 = s1\<lparr>floods := F, msgs := M, NEIGHBORS := N\<rparr>"
    using s2(3) unfolding removed_everywhere_def by blast
  then have k2: "others_kept s s2" using eq by (simp add: others_kept_def)
  obtain c s' where "goaway_loop es m n (k + 1) s2 = Some (c, s')" "peer_ok s'" "others_kept s2 s'"
    "entries (NEIGHBORS s') = filter (\<lambda>x. entry_key x \<notin> (pkey \<circ> sym) ` set es) (entries (NEIGHBORS s2))"
    using Cons.IH [OF s2(2) pending_removal_step [OF Cons.prems(2) en]] by blast
  then show ?case using x(1) s1(1) s2(1) en k2 by (auto simp: others_kept_def intro: filter_cong)
qed

text \<open>Who was heard of in the last two minutes, at time \<open>c\<close>.\<close>

abbreviation recent :: "int \<Rightarrow> addr \<times> neighbor \<times> ident \<Rightarrow> bool" where
  "recent c \<equiv> \<lambda>(a, k, v). c - last_hello v \<le> 120"

lemma keep_recent:
  assumes b: "bst t" and m: "map sym es = map entry_ptr (filter (\<lambda>(a, k, v). c - last_hello v > 120) (entries t))"
  shows "filter (\<lambda>x. entry_key x \<notin> (pkey \<circ> sym) ` set es) (entries t) = filter (recent c) (entries t)"
proof (rule filter_cong [OF refl])
  fix x assume x: "x \<in> set (entries t)"
  have "(pkey \<circ> sym) ` set es = pkey ` set (map sym es)" by (simp add: image_comp)
  also have "\<dots> = entry_key ` {y \<in> set (entries t). \<not> recent c y}" unfolding m by (force simp: image_iff)
  finally have "(pkey \<circ> sym) ` set es = entry_key ` {y \<in> set (entries t). \<not> recent c y}" .
  moreover have "inj_on entry_key (set (entries t))" 
    using bst_distinct_keys [OF b] by (simp add: tree_keys_def distinct_map)
  ultimately show "(entry_key x \<notin> (pkey \<circ> sym) ` set es) = recent c x" using x by (auto dest: inj_onD)
qed

text \<open>Neighbours that are not in the tree any more; who stays is decided by \<open>is_old\<close>.\<close>

lemma send_goaway_asymetrical_spec:
  assumes ok: "peer_ok s"
  shows "\<exists>n s'. send_goaway_asymetrical s = Some (n, s') \<and> peer_ok s' \<and> others_kept s s' \<and>
    (\<forall>c. clock_reads c s s' \<longrightarrow> entries (NEIGHBORS s') = filter (recent c) (entries (NEIGHBORS s)))"
proof (cases "NEIGHBORS s = Null")
  case True
  then show ?thesis using ok by (simp add: send_goaway_asymetrical_def others_kept_def)
next
  case False
  have e: "env_ok s" and b: "bst (NEIGHBORS s)" "distinct (tree_addrs (NEIGHBORS s))"
    using ok by (auto simp: peer_ok_def trees_ok_def)
  obtain l na tk where l: "find_by (NEIGHBORS s) is_old s = Some (Some l, s\<lparr>next_addr := na, ticks := tk\<rparr>)"
    "next_addr s \<le> na" "nodes_ok (NEIGHBORS s) na (nodes l)" "ticks s \<le> tk"
    using find_by_ok [OF e b(2) reads_clock_is_old] by blast
  let ?s1 = "s\<lparr>next_addr := na, ticks := tk\<rparr>"
  have ok1: "peer_ok ?s1" by (rule peer_ok_cong [OF ok]) (use l(2) in simp_all)
  obtain g where g: "tlv_goaway (fresh_body ?s1) 0 body_room 2 [] 0 = Some (3, g)"
    "good_msg (compose ?s1 g 3)" "body_size (compose ?s1 g 3) = 3"
    by (rule goaway_message [of 0 "[]" ?s1 2]) simp_all
  have "pending_removal (NEIGHBORS ?s1) (contents l)" using pending_removal_nodes [OF b(1) l(3)] by simp
  from goaway_loop_spec [OF ok1 this g(2), of 7 0] g(3) obtain c s' where
    r: "goaway_loop (contents l) (compose ?s1 g 3) 7 0 ?s1 = Some (c, s')" "peer_ok s'" "others_kept ?s1 s'"
    "entries (NEIGHBORS s') = filter (\<lambda>x. entry_key x \<notin> (pkey \<circ> sym) ` set (contents l)) (entries (NEIGHBORS s))" by auto
  have le: "tk \<le> ticks s'" using r(3) by (simp add: others_kept_def)
  have "entries (NEIGHBORS s') = filter (recent c) (entries (NEIGHBORS s))" if c: "clock_reads c s s'" for c
    unfolding r(4) by (rule keep_recent [OF b(1)], rule find_old [OF e l(1) clock_reads_part [OF c]]) (simp_all add: le)
  moreover have "others_kept s s'" using r(3) l(4) by (simp add: others_kept_def)
  moreover have "send_goaway_asymetrical s = Some (c, s')"
    using False l(1) g(1) r(1) by (simp add: send_goaway_asymetrical_def Let_def del: body_room_eq)
  ultimately show ?thesis using r(2) by blast
qed

lemma old_potential_loop_spec:
  assumes "peer_ok s" "pending_removal (POTENTIAL s) es"
  shows "\<exists>s'. old_potential_loop es s = Some s' \<and> peer_ok s' \<and>
    NEIGHBORS s' = NEIGHBORS s \<and> NB_SYMETRICAL s' = NB_SYMETRICAL s \<and> ID s' = ID s \<and> ticks s' = ticks s \<and>
    entries (POTENTIAL s') = filter (\<lambda>x. entry_key x \<notin> (pkey \<circ> sym) ` set es) (entries (POTENTIAL s))"
  using assms
proof (induction es arbitrary: s)
  case Nil
  then show ?case by simp
next
  case (Cons e es)
  have b: "bst (POTENTIAL s)" using Cons.prems(1) by (simp add: peer_ok_def trees_ok_def)
  have al: "alive (live s) (POTENTIAL s)" by (simp add: alive_def live_def)
  have p: "points_to (POTENTIAL s) (sym e)" using Cons.prems(2) by (simp add: pending_removal_def)
  obtain x where x: "deref (live s) (sym e) = Some x" "wf_neighbor x" "pkey (sym e) = nkey x"
    using points_to_deref [OF al b p] by blast
  obtain t' where t': "remove_potential x s = Some (s\<lparr>POTENTIAL := t'\<rparr>)" "peer_ok (s\<lparr>POTENTIAL := t'\<rparr>)"
    "entries t' = filter (\<lambda>e. entry_key e \<noteq> nkey x) (entries (POTENTIAL s))"
    using remove_potential_spec [OF Cons.prems(1) x(2)] by blast
  have "pending_removal (POTENTIAL (s\<lparr>POTENTIAL := t'\<rparr>)) es"
    using pending_removal_step [OF Cons.prems(2), of t'] t'(3) x(3) by simp
  from Cons.IH [OF t'(2) this] obtain s' where "old_potential_loop es (s\<lparr>POTENTIAL := t'\<rparr>) = Some s'" "peer_ok s'"
    "NEIGHBORS s' = NEIGHBORS s" "NB_SYMETRICAL s' = NB_SYMETRICAL s" "ID s' = ID s" "ticks s' = ticks s"
    "entries (POTENTIAL s') = filter (\<lambda>x. entry_key x \<notin> (pkey \<circ> sym) ` set es) (entries t')" by auto
  then show ?case using x t'(1,3) by (auto intro: filter_cong)
qed

lemma remove_old_potential_spec:
  assumes ok: "peer_ok s"
  shows "\<exists>s'. remove_old_potential s = Some s' \<and> peer_ok s' \<and> NEIGHBORS s' = NEIGHBORS s \<and> NB_SYMETRICAL s' = NB_SYMETRICAL s \<and> ID s' = ID s \<and> ticks s \<le> ticks s' \<and>
    (\<forall>c. clock_reads c s s' \<longrightarrow> entries (POTENTIAL s') = filter (recent c) (entries (POTENTIAL s)))"
proof (cases "POTENTIAL s = Null")
  case True
  then show ?thesis using ok by (simp add: remove_old_potential_def)
next
  case False
  have e: "env_ok s" and b: "bst (POTENTIAL s)" "distinct (tree_addrs (POTENTIAL s))"
    using ok by (auto simp: peer_ok_def trees_ok_def)
  obtain l na tk where l: "find_by (POTENTIAL s) is_old s = Some (Some l, s\<lparr>next_addr := na, ticks := tk\<rparr>)"
    "next_addr s \<le> na" "nodes_ok (POTENTIAL s) na (nodes l)" "ticks s \<le> tk"
    using find_by_ok [OF e b(2) reads_clock_is_old] by blast
  let ?s1 = "s\<lparr>next_addr := na, ticks := tk\<rparr>"
  have ok1: "peer_ok ?s1" by (rule peer_ok_cong [OF ok]) (use l(2) in simp_all)
  have "pending_removal (POTENTIAL ?s1) (contents l)" using pending_removal_nodes [OF b(1) l(3)] by simp
  from old_potential_loop_spec [OF ok1 this] obtain s' where
    r: "old_potential_loop (contents l) ?s1 = Some s'" "peer_ok s'" "NEIGHBORS s' = NEIGHBORS s" "NB_SYMETRICAL s' = NB_SYMETRICAL s" "ID s' = ID s" "ticks s' = tk"
    "entries (POTENTIAL s') = filter (\<lambda>x. entry_key x \<notin> (pkey \<circ> sym) ` set (contents l)) (entries (POTENTIAL s))" by auto
  have "entries (POTENTIAL s') = filter (recent c) (entries (POTENTIAL s))" if c: "clock_reads c s s'" for c
    unfolding r(7) by (rule keep_recent [OF b(1)], rule find_old [OF e l(1) clock_reads_part [OF c]]) (simp_all add: r(6))
  moreover have "ticks s \<le> ticks s'" unfolding r(6) by (rule l(4))
  moreover have "remove_old_potential s = Some s'" using False l(1) r(1) by (simp add: remove_old_potential_def)
  ultimately show ?thesis using r(2-5) by blast
qed

end
