(* ===== verification/Main_Laws.thy ===== *)
theory Main_Laws
  imports Peer_Loop Handlers_Laws
begin

text \<open>
  The main loop under the invariant: every part of an iteration returns and keeps it, given
  what the environment is assumed to deliver (\<open>admissible\<close>), so every reachable state has it.
\<close>

section \<open>Receiving\<close>

definition recv_ok :: "(u8 list \<times> sockaddr_in6) option \<Rightarrow> main_locals \<Rightarrow> bool" where
  "recv_ok r l \<longleftrightarrow> (\<forall>bs sa. r = Some (bs, sa) \<longrightarrow> length (sin6_addr sa) = 16) \<and>
     message_ok (rbuf (snd (receive r l)))"

definition locals_ok :: "main_locals \<Rightarrow> bool" where
  "locals_ok l \<longleftrightarrow> length (body (rbuf l)) = MAX_SIZE \<and> length (sin6_addr (client l)) = 16"

definition main_ok :: "main_state \<Rightarrow> bool" where
  "main_ok st \<longleftrightarrow> locals_ok (fst st) \<and> peer_ok (snd st)"

lemma receive_ok:
  assumes "locals_ok l" "recv_ok r l"
  shows "locals_ok (snd (receive r l))"
proof (cases r)
  case (Some p)
  obtain bs sa where p: "p = (bs, sa)" by (cases p)
  then show ?thesis using assms Some by (auto simp: receive_def locals_ok_def recv_ok_def Let_def bytes_message_def)
qed (use assms in \<open>simp add: receive_def\<close>)

lemma on_socket_spec:
  assumes "main_ok (l, s)" "recv_ok (received e) l"
  shows "\<exists>st'. on_socket e (l, s) = Some st' \<and> main_ok st'"
proof -
  obtain n l1 where r: "receive (received e) l = (n, l1)" by fastforce
  have l1: "locals_ok l1" "message_ok (rbuf l1)"
    using receive_ok [OF _ assms(2)] assms r by (auto simp: main_ok_def recv_ok_def)
  have "sender (sockaddr6_to_neighbor (client l1))" using l1(1) by (intro sender_conv) (simp add: locals_ok_def)
  moreover have "peer_ok s" "length (body (rbuf l1)) = MAX_SIZE" using assms(1) l1(1) by (simp_all add: main_ok_def locals_ok_def)
  ultimately obtain s1 where "handle_message_h (rbuf l1) (size_of_int n) (sockaddr6_to_neighbor (client l1)) s = Some s1" "peer_ok s1"
    using handle_message_h_spec l1(2) by blast
  then show ?thesis using r l1(1) by (auto simp: on_socket_def main_ok_def)
qed

section \<open>Typed text\<close>

definition strip_last :: "u8 \<Rightarrow> u8 list \<Rightarrow> u8 list" where
  "strip_last c bs = (if bs \<noteq> [] \<and> last bs = c then butlast bs else bs)"

text \<open>What is left of the bytes read from the browser: at most 242, less one NUL and one newline.\<close>

definition gui_text :: "u8 list \<Rightarrow> u8 list" where
  "gui_text bs = strip_last 10 (strip_last 0 (take 242 bs))"

definition gui_ok :: "io \<Rightarrow> peer \<Rightarrow> bool" where
  "gui_ok e s \<longleftrightarrow> (\<exists>bs. typed e = Some bs \<and> gui_text bs \<noteq> [] \<and> length (gui_text bs) \<le> 114) \<and>
     (\<forall>a f. floods s a = Some f \<longrightarrow>
        flood_index f \<noteq> \<lparr>index_id = ID s, nonce = le_word (fst (random_on_octets 4 s))\<rparr>)"

lemma strip_step:
  assumes "0 < n" "n \<le> length buf" "n < 256"
  shows "before_end buf (of_nat n) = Some (buf ! (n - 1))"
    "strip_last c (take n buf) = take (if buf ! (n - 1) = c then n - 1 else n) buf"
    "(if buf ! (n - 1) = c then of_nat n - 1 else of_nat n :: u8) = of_nat (if buf ! (n - 1) = c then n - 1 else n)"
proof -
  have "unat (of_nat n :: u8) = n" using assms(3) by (rule unat_of_nat_u8)
  moreover have "(of_nat n :: u8) \<noteq> 0" using assms(1) calculation by (metis unat_0 less_irrefl)
  ultimately show "before_end buf (of_nat n) = Some (buf ! (n - 1))"
    using assms by (simp add: before_end_def peek1_def)
  have ne: "take n buf \<noteq> []" "min (length buf) n = n" using assms by auto
  have "last (take n buf) = buf ! (n - 1)" using assms by (simp add: last_conv_nth [OF ne(1)] ne(2))
  moreover have "butlast (take n buf) = take (n - 1) buf" using assms by (simp add: butlast_take)
  ultimately have "take n buf \<noteq> []" "last (take n buf) = buf ! (n - 1)" "butlast (take n buf) = take (n - 1) buf"
    using ne(1) by auto
  then show "strip_last c (take n buf) = take (if buf ! (n - 1) = c then n - 1 else n) buf"
    by (simp add: strip_last_def)
  show "(if buf ! (n - 1) = c then of_nat n - 1 else of_nat n :: u8) = of_nat (if buf ! (n - 1) = c then n - 1 else n)"
    using assms(1) by (simp add: of_nat_diff)
qed

lemma on_gui_spec:
  assumes ok: "peer_ok s" and g: "gui_ok e s" and bs: "typed e = Some bs"
  shows "\<exists>s' s2 d non t. on_gui e s = Some s' \<and> peer_ok s' \<and>
    filed d (of_nat (13 + length (gui_text bs))) None (s\<lparr>rnds := rnds s + 4\<rparr>) s2 \<and> s' = s2\<lparr>tty := tty s', gui := gui s'\<rparr> \<and>
    take (13 + length (gui_text bs)) d = le_bytes 8 (ID s) @ non @ 0 # gui_text bs \<and> length non = 4 \<and>
    tty s' = tty s @ [gui_text bs] @ t \<and> set t \<subseteq> {[10]}"
proof -
  let ?d = "take 242 bs"
  let ?buf = "?d @ replicate (257 - length ?d) 0"
  let ?n = "length ?d"
  have tx: "gui_text bs \<noteq> []" "length (gui_text bs) \<le> 114" using g bs by (auto simp: gui_ok_def)
  then have n: "0 < ?n" "?n \<le> length ?buf" "?n < 256" by (auto simp: gui_text_def strip_last_def)
  have tk: "take ?n ?buf = ?d" by (rule append_eq_conv_conj [THEN iffD1, THEN conjunct1, OF refl, symmetric])
  define n1 where "n1 = (if ?buf ! (?n - 1) = 0 then ?n - 1 else ?n)"
  note s0 = strip_step(1) [OF n] strip_step(2) [OF n, where c = 0, unfolded tk, folded n1_def]
    strip_step(3) [OF n, where c = 0, folded n1_def]
  have n1: "0 < n1" "n1 \<le> length ?buf" "n1 < 256"
  proof -
    have "strip_last 0 ?d \<noteq> []" using tx(1) by (auto simp: gui_text_def strip_last_def)
    then show "0 < n1" using s0(2) by (cases "n1 = 0") auto
    show "n1 \<le> length ?buf" "n1 < 256" using n by (auto simp: n1_def)
  qed
  define n2 where "n2 = (if ?buf ! (n1 - 1) = 10 then n1 - 1 else n1)"
  note s1 = strip_step(1) [OF n1] strip_step(2) [OF n1, where c = 10, folded n2_def]
    strip_step(3) [OF n1, where c = 10, folded n2_def]
  have gt: "gui_text bs = take n2 ?buf" unfolding gui_text_def s0(2) s1(2) ..
  have n2l: "n2 \<le> length ?buf" using n1 by (auto simp: n2_def)
  then have len: "length (gui_text bs) = n2" unfolding gt by simp
  have n2: "0 < n2" "n2 \<le> 114" using tx len by auto
  have poke0: "poke 0 ?d (replicate (2 ^ 8 + 1) 0) = Some ?buf" by (simp add: poke_def)
  obtain non where r: "random_on_octets 4 s = (non, s\<lparr>rnds := rnds s + 4\<rparr>)"
    by (metis random_on_octets_world surj_pair)
  have ln: "length non = 4" by (rule length_random_on_octets [OF r])
  let ?s1 = "s\<lparr>rnds := rnds s + 4\<rparr>"
  have u2: "unat (of_nat n2 :: u8) = n2" using n2(2) by (intro unat_of_nat_u8) simp
  have u13: "unat (13 + of_nat n2 :: u8) = 13 + n2" using n2(2) u2 by (simp add: unat_8_add)
  have w13: "13 + of_nat n2 = (of_nat (13 + n2) :: u8)" by simp
  let ?j = "map (junk s) [0..<2 ^ 8 + 4]"
  let ?tlv = "4 # (13 + of_nat n2) # le_bytes 8 (ID s) @ non @ 0 # gui_text bs"
  let ?m = "?tlv @ drop (n2 + 15) ?j"
  have pk: "poke 0 ?tlv ?j = Some ?m" using ln len n2(2) by (simp add: poke_def add.commute)
  have "tlv_data ?j 0 (2 ^ 8 + 4) (ID s) 0 ?buf (of_nat n2) s = Some (int n2 + 15, ?m, ?s1)"
    using tlv_data_eq [OF _ r, of "of_nat n2" ?buf ?j 0 "2 ^ 8 + 4" "ID s" 0] n2l n2(2) pk
    by (simp add: u2 u13 gt)
  note run1 = this
  let ?d2 = "drop 2 ?m"
  have d2: "?d2 = le_bytes 8 (ID s) @ non @ 0 # gui_text bs @ drop (n2 + 15) ?j" by simp
  have ix: "data_ix ?d2 = \<lparr>index_id = ID s, nonce = le_word non\<rparr>"
    unfolding d2 data_ix_def using ln by (simp add: le_word_le_bytes)
  have ok1: "peer_ok ?s1" by (rule peer_ok_cong [OF ok]) simp_all
  have fresh: "flood_index f \<noteq> data_ix ?d2" if "floods ?s1 a = Some f" for a f
    using g that r unfolding gui_ok_def ix by simp
  have l2: "length ?d2 = 258" using ln len n2(2) by simp
  obtain s2 where s2: "add_message_to_flood ?d2 (13 + of_nat n2) None ?s1 = Some s2" "peer_ok s2"
    "filed ?d2 (13 + of_nat n2) None ?s1 s2"
    using add_message_to_flood_spec [OF ok1, of "13 + of_nat n2" ?d2 None] fresh n2 l2 by (auto simp: u13)
  have uc: "unat (ucast (of_nat n2 :: u8) :: size_t) = n2" using u2 n2(2) by (simp add: unsigned_ucast_eq take_bit_nat_eq_self_iff)
  obtain t where t: "print_on_screen ?buf 0 (ucast (of_nat n2 :: u8)) s2 =
      Some (s2\<lparr>tty := tty s2 @ [gui_text bs] @ t, gui := gui s2 @ [[0], gui_text bs]\<rparr>)" "set t \<subseteq> {[10]}"
    using print_ok [of 0 "ucast (of_nat n2 :: u8)" ?buf s2] n2(1) n2l unfolding uc gt by auto
  let ?s3 = "s2\<lparr>tty := tty s2 @ [gui_text bs] @ t, gui := gui s2 @ [[0], gui_text bs]\<rparr>"
  have wn: "(word_of_int (int ?n) :: u8) = of_nat ?n" by simp
  have m1: "peek1 ?m 1 = Some (13 + of_nat n2)" by (simp add: peek1_def)
  have d8: "take (2 ^ 8 - 14) bs = ?d" by simp
  have run: "on_gui e s = Some ?s3"
    unfolding on_gui_def line_length_def bs option.case d8 Let_def poke0 bind.bind_lunit wn s0(1) s0(3) s1(1) s1(3) run1 split m1 s2(1)
    by (rule t(1))
  have ok3: "peer_ok ?s3" by (rule peer_ok_cong [OF s2(2)]) simp_all
  obtain na tk F D where "s2 = ?s1\<lparr>next_addr := na, ticks := tk, floods := F, DATAF := D\<rparr>"
    using s2(3) unfolding filed_def by blast
  then have t2: "tty s2 = tty s" by simp
  have tk13: "take (13 + n2) ?d2 = le_bytes 8 (ID s) @ non @ 0 # gui_text bs"
    unfolding d2 using ln len by simp
  have fl: "filed ?d2 (of_nat (13 + n2)) None ?s1 s2" using s2(3) unfolding w13 .
  have eq: "?s3 = s2\<lparr>tty := tty ?s3, gui := gui ?s3\<rparr>" "tty ?s3 = tty s @ [gui_text bs] @ t"
    using t2 by simp_all
  show ?thesis
    unfolding len
    by (intro exI conjI, rule run, rule ok3, rule fl, rule eq(1), rule tk13, rule ln, rule eq(2), rule t(2))
qed

section \<open>The periodic work\<close>

lemma peer_ok_seconds:
  assumes "peer_ok s"
  shows "get_seconds s = (clock s (ticks s), s\<lparr>ticks := Suc (ticks s)\<rparr>)" "peer_ok (s\<lparr>ticks := Suc (ticks s)\<rparr>)"
    "0 \<le> clock s (ticks s)" "clock s (ticks s) < 32704"
proof -
  have e: "env_ok s" using assms by (rule peer_ok_parts)
  show "peer_ok (s\<lparr>ticks := Suc (ticks s)\<rparr>)" by (rule peer_ok_cong [OF assms]) simp_all
qed (use peer_ok_parts(1) [OF assms] env_okD(4,5) env_get_seconds in blast)+

lemma send_to_everyone_direct:
  assumes "good_msg m" "n = body_size m + 4" "\<forall>e\<in>set (entries t). msg (fst (snd e)) = None"
  shows "\<exists>ps. send_to_everyone m n t w = Some (number_of_neighbors t, w\<lparr>sent := sent w @ ps\<rparr>) \<and>
    set ps = (\<lambda>e. (neighbor_to_sockaddr6 (fst (snd e)), packet (pending m))) ` set (entries t)"
  using assms(3)
proof (induction t arbitrary: w)
  case (Tree a k v l r)
  let ?p = "(neighbor_to_sockaddr6 k, packet (pending m))"
  have k: "msg k = None" using Tree.prems by simp
  note d = send_message_direct [OF assms(1,2) k, of w]
  obtain ps where 1: "send_to_everyone m n l (w\<lparr>sent := sent w @ [?p]\<rparr>) =
      Some (number_of_neighbors l, w\<lparr>sent := (sent w @ [?p]) @ ps\<rparr>)"
    "set ps = (\<lambda>e. (neighbor_to_sockaddr6 (fst (snd e)), packet (pending m))) ` set (entries l)"
    using Tree.IH(1) [of "w\<lparr>sent := sent w @ [?p]\<rparr>"] Tree.prems by auto
  obtain qs where 2: "send_to_everyone m n r (w\<lparr>sent := (sent w @ [?p]) @ ps\<rparr>) =
      Some (number_of_neighbors r, w\<lparr>sent := ((sent w @ [?p]) @ ps) @ qs\<rparr>)"
    "set qs = (\<lambda>e. (neighbor_to_sockaddr6 (fst (snd e)), packet (pending m))) ` set (entries r)"
    using Tree.IH(2) [of "w\<lparr>sent := (sent w @ [?p]) @ ps\<rparr>"] Tree.prems by auto
  have "send_to_everyone m n (Tree a k v l r) w =
      Some (number_of_neighbors (Tree a k v l r), w\<lparr>sent := sent w @ ?p # ps @ qs\<rparr>)"
    using d 1(1) 2(1) by simp
  then show ?case
    by (intro exI [of _ "?p # ps @ qs"] conjI) (simp_all add: 1(2) 2(2) image_Un)
qed simp

definition greeted :: "peer \<Rightarrow> bool" where
  "greeted s \<longleftrightarrow> (\<forall>(a, k, v)\<in>set (entries (POTENTIAL s)).
     (neighbor_to_sockaddr6 k, packet (encode_tlv 2 (le_bytes 8 (ID s)))) \<in> set (sent s))"

lemma send_shorthello_greets:
  assumes ok: "peer_ok s" and r: "send_shorthello_everyone t s = Some (rc, s')"
  shows "greeted s'"
proof -
  obtain b where b: "tlv_short_hello (fresh_body s) 0 body_room (ID s) = Some (10, b)"
    "good_msg (compose s b 10)" "body_size (compose s b 10) = 10" "pending (compose s b 10) = encode_tlv 2 (le_bytes 8 (ID s))"
    by (rule short_hello_message)
  have "buffers (POTENTIAL s) = []" using ok by (simp add: peer_ok_def trees_ok_def)
  then have "\<forall>e\<in>set (entries (POTENTIAL s)). msg (fst (snd e)) = None"
    by (metis empty_iff empty_set in_buffers not_None_eq)
  from send_to_everyone_direct [OF b(2) _ this, of 14 s] b(3) obtain ps where
    "send_to_everyone (compose s b 10) 14 (POTENTIAL s) s = Some (number_of_neighbors (POTENTIAL s), s\<lparr>sent := sent s @ ps\<rparr>)"
    "set ps = (\<lambda>e. (neighbor_to_sockaddr6 (fst (snd e)), packet (encode_tlv 2 (le_bytes 8 (ID s))))) ` set (entries (POTENTIAL s))"
    unfolding b(4) by auto
  then show ?thesis
    using r b(1) by (force simp: send_shorthello_everyone_def greeted_def simp del: body_room_eq)
qed

text \<open>What the periodic work leaves, when the clock stands at \<open>c\<close>.\<close>

definition maintained :: "int \<Rightarrow> peer \<Rightarrow> peer \<Rightarrow> bool" where
  "maintained c s s' \<longleftrightarrow>
     entries (NEIGHBORS s') = filter (recent c) (entries (NEIGHBORS s)) \<and>
     entries (POTENTIAL s') = filter (recent c) (entries (POTENTIAL s)) \<and>
     NB_SYMETRICAL s' = int (length (filter (\<lambda>(a, k, v). c - last_hello_long v < 120) (entries (NEIGHBORS s)))) \<and>
     (NB_SYMETRICAL s' \<le> 10 \<longrightarrow> greeted s')"

lemma periodic_spec:
  assumes ok: "peer_ok s"
  shows "\<exists>s' t. periodic (l, s) = Some (l\<lparr>NEXTHELLO := t + TIMEHELLO\<rparr>, s') \<and> peer_ok s' \<and> 0 \<le> t \<and> t < 32704 \<and>
    (\<forall>c. clock_reads c s s' \<longrightarrow> t = c \<and> maintained c s s')"
proof -
  obtain s1 where 1: "send_hello_everyone (NEIGHBORS s) s = Some (number_of_neighbors (NEIGHBORS s), s1)" "net_step s s1"
    using send_hello_everyone_step peer_ok_sendable(1) [OF ok] by blast
  note ok1 = peer_ok_net_step [OF ok 1(2)] and eq1 = net_step_peer [OF 1(2)]
  obtain rc s2 syms u na tk where 2: "send_symetrical_everyone (NEIGHBORS s1) s1 = Some (rc, s2)" "peer_ok s2"
    "get_symmetrical (NEIGHBORS s1) s1 = Some (Some syms, u)" "u = s1\<lparr>next_addr := na, ticks := tk\<rparr>" "ticks s1 \<le> tk"
    "NB_SYMETRICAL s2 = int (length (contents syms))" "net_step (u\<lparr>NB_SYMETRICAL := int (length (contents syms))\<rparr>) s2"
    using send_symetrical_everyone_spec [OF ok1 peer_ok_sendable(1) [OF ok1]] by blast
  note eq2 = net_step_peer [OF 2(7), unfolded 2(4)]
  note t = peer_ok_seconds [OF 2(2)]
  let ?s3 = "s2\<lparr>ticks := Suc (ticks s2)\<rparr>"
  obtain c s4 where 4: "send_goaway_asymetrical ?s3 = Some (c, s4)" "peer_ok s4" "others_kept ?s3 s4"
    "\<forall>c. clock_reads c ?s3 s4 \<longrightarrow> entries (NEIGHBORS s4) = filter (recent c) (entries (NEIGHBORS ?s3))"
    using send_goaway_asymetrical_spec [OF t(2)] by blast
  obtain s5 where 5: "remove_old_potential s4 = Some s5" "peer_ok s5" "NEIGHBORS s5 = NEIGHBORS s4"
    "NB_SYMETRICAL s5 = NB_SYMETRICAL s4" "ticks s4 \<le> ticks s5" "\<forall>c. clock_reads c s4 s5 \<longrightarrow> entries (POTENTIAL s5) = filter (recent c) (entries (POTENTIAL s4))"
    using remove_old_potential_spec [OF 4(2)] by blast
  obtain s6 where 6: "send_shorthello_everyone (POTENTIAL s5) s5 = Some (number_of_neighbors (POTENTIAL s5), s6)" "net_step s5 s6"
    using send_shorthello_everyone_step peer_ok_sendable(2) [OF 5(2)] by blast
  note ok6 = peer_ok_net_step [OF 5(2) 6(2)] and eq6 = net_step_peer [OF 6(2)]
  let ?s' = "if NB_SYMETRICAL s5 \<le> MIN_SYM then s6 else s5"
  have run: "periodic (l, s) = Some (l\<lparr>NEXTHELLO := clock s2 (ticks s2) + TIMEHELLO\<rparr>, ?s')"
    by (simp add: periodic_def 1(1) 2(1) t(1) 4(1) 5(1) 6(1) Let_def)
  have trees: "NEIGHBORS ?s' = NEIGHBORS s4" "POTENTIAL ?s' = POTENTIAL s5" "NB_SYMETRICAL ?s' = NB_SYMETRICAL s2"
    using 4(3) 5(3,4) eq6 by (simp_all add: others_kept_def)
  have tks: "ticks s1 = ticks s" "ticks s2 = tk" "tk < ticks s4" "ticks ?s' = ticks s5"
    using eq1 eq2 eq6 4(3) by (simp_all add: others_kept_def Suc_le_eq)
  have clks: "clock s1 = clock s" "clock s2 = clock s" "clock s4 = clock s"
    using eq1 eq2 4(3) by (simp_all add: others_kept_def)
  have "clock s2 (ticks s2) = c \<and> maintained c s ?s'" if c: "clock_reads c s ?s'" for c
  proof -
    have ck: "clock_reads c s1 u" "clock_reads c ?s3 s4" "clock_reads c s4 s5"
      by (rule clock_reads_part [OF c]; use tks clks 2(4,5) 5(5) in simp)+
    have now: "clock s (ticks s2) = c" by (rule clock_reads_at [OF c]) (use tks 2(5) 5(5) in simp_all)
    have n: "entries (NEIGHBORS ?s') = filter (recent c) (entries (NEIGHBORS s))"
      using 4(4) [THEN spec, THEN mp, OF ck(2)] trees(1) eq1(1) eq2(1) by simp
    have p: "entries (POTENTIAL ?s') = filter (recent c) (entries (POTENTIAL s))"
      using 5(6) [THEN spec, THEN mp, OF ck(3)] trees(2) 4(3) eq1(2) eq2(2) by (simp add: others_kept_def)
    have e: "env_ok s1" by (rule peer_ok_parts(1) [OF ok1])
    have sy: "map sym (contents syms) = map entry_ptr (filter (\<lambda>(a, k, v). c - last_hello_long v < 120) (entries (NEIGHBORS s1)))"
      by (rule find_symmetrical [OF e 2(3) [unfolded get_symmetrical_def] ck(1)])
    have "length (contents syms) = length (filter (\<lambda>(a, k, v). c - last_hello_long v < 120) (entries (NEIGHBORS s)))"
      using arg_cong [OF sy, of length] unfolding eq1(1) length_map .
    then have m: "NB_SYMETRICAL ?s' = int (length (filter (\<lambda>(a, k, v). c - last_hello_long v < 120) (entries (NEIGHBORS s))))"
      using trees(3) 2(6) by simp
    have "NB_SYMETRICAL ?s' \<le> 10 \<longrightarrow> greeted ?s'"
      using send_shorthello_greets [OF 5(2) 6(1)] by (auto simp: MIN_SYM_def)
    then show ?thesis using n p m now clks(2) by (simp add: maintained_def)
  qed
  moreover have "peer_ok ?s'" using 5(2) ok6 by simp
  ultimately show ?thesis using run t(3,4) by blast
qed

text \<open>The tree of neighbours is less than 40 deep when \<open>on_timer\<close> prints it.\<close>

definition printable :: "main_state \<Rightarrow> bool" where
  "printable st \<longleftrightarrow> (\<forall>st'. periodic st = Some st' \<longrightarrow> depth (NEIGHBORS (snd st')) < 40)"

lemma on_timer_spec:
  assumes ok: "peer_ok s" and pr: "printable (l, s)"
  shows "\<exists>s' t. on_timer (l, s) = Some (l\<lparr>NEXTHELLO := t + TIMEHELLO\<rparr>, s') \<and> peer_ok s' \<and> 0 \<le> t \<and> t < 32704"
proof -
  obtain s' t where p: "periodic (l, s) = Some (l\<lparr>NEXTHELLO := t + TIMEHELLO\<rparr>, s')" "peer_ok s'" "0 \<le> t" "t < 32704"
    using periodic_spec [OF ok] by blast
  then have "print_tree (\<lambda>_. []) (NEIGHBORS s') \<noteq> None"
    using pr by (auto simp: printable_def print_tree_None)
  then show ?thesis using p by (auto simp: on_timer_def)
qed

lemma main_select_spec:
  assumes "peer_ok s"
  shows "\<exists>s' t. main_select (l, s) = (l\<lparr>timeout := t\<rparr>, s') \<and> peer_ok s' \<and> 0 \<le> t \<and>
    NEXTTIME s' = word_of_int (NEXTHELLO l)"
proof -
  let ?s1 = "s\<lparr>NEXTTIME := if NEXTTIME s < word_of_int (NEXTHELLO l) then NEXTTIME s else word_of_int (NEXTHELLO l)\<rparr>"
  have ok1: "peer_ok ?s1" by (rule peer_ok_cong [OF assms]) simp_all
  note t = peer_ok_seconds [OF ok1]
  have "peer_ok (?s1\<lparr>ticks := Suc (ticks ?s1), NEXTTIME := word_of_int (NEXTHELLO l)\<rparr>)"
    by (rule peer_ok_cong [OF assms]) simp_all
  then show ?thesis unfolding main_select_def Let_def split t(1) by (auto simp: max_c_def)
qed

lemma main_flush_spec:
  assumes ok: "peer_ok s"
  shows "\<exists>s'. main_flush (l, s) = Some (l, s') \<and> peer_ok s'"
proof -
  obtain s1 where 1: "flood_messages s = Some s1" "peer_ok s1" using flood_messages_spec [OF ok] by blast
  obtain rc s2 where 2: "send_to_everyone_now (NEIGHBORS s1) s1 = Some (rc, s2)" "net_step s1 s2"
    using send_to_everyone_now_step peer_ok_sendable(1) [OF 1(2)] by blast
  show ?thesis using peer_ok_net_step [OF 1(2) 2(2)] by (simp add: main_flush_def 1(1) 2(1))
qed

definition tick_ok :: "main_state \<Rightarrow> bool" where
  "tick_ok = (\<lambda>(l, s). let (now, s1) = get_seconds s in NEXTHELLO l \<le> now \<longrightarrow> printable (l, s1))"

lemma main_tick_spec:
  assumes ok: "peer_ok s" and pr: "tick_ok (l, s)"
  shows "\<exists>l' s'. main_tick (l, s) = Some (l', s') \<and> peer_ok s' \<and> (locals_ok l \<longrightarrow> locals_ok l')"
proof -
  note t = peer_ok_seconds [OF ok]
  show ?thesis
    using on_timer_spec [OF t(2), of l] t(2) pr by (auto simp: main_tick_def t(1) locals_ok_def tick_ok_def)
qed

section \<open>Iterations\<close>

text \<open>
  What an iteration is assumed to be given: a received datagram has a 16-byte source address
  and the data TLVs the loop reaches have from 13 to 127 bytes; the line typed is neither empty nor
  over 114 bytes, and the nonce drawn for it is new; the tree of neighbours, if it is printed,
  is less than 40 deep.
\<close>

definition admissible :: "io \<Rightarrow> main_state \<Rightarrow> bool" where
  "admissible e st \<longleftrightarrow>
     (let st0 = main_select st in
      (sel e \<and> soc_ready e \<longrightarrow> recv_ok (received e) (fst st0)) \<and>
      (sel e \<and> gui_ready e \<longrightarrow> (\<forall>st1. main_recv e st0 = Some st1 \<longrightarrow> gui_ok e (snd st1))) \<and>
      (\<forall>st1 st2. main_recv e st0 = Some st1 \<longrightarrow> main_read e st1 = Some st2 \<longrightarrow> tick_ok st2))"

lemma main_iter_spec:
  assumes ok: "main_ok st" and adm: "admissible e st"
  shows "\<exists>st'. main_iter e st = Some st' \<and> main_ok st'"
proof -
  obtain l s where st: "st = (l, s)" by (cases st)
  obtain s0 t where 0: "main_select (l, s) = (l\<lparr>timeout := t\<rparr>, s0)" "peer_ok s0"
    using main_select_spec ok unfolding main_ok_def st by fastforce
  let ?st0 = "(l\<lparr>timeout := t\<rparr>, s0)"
  have ok0: "main_ok ?st0" using ok 0(2) by (simp add: main_ok_def locals_ok_def st)
  obtain l1 s1 where 1: "main_recv e ?st0 = Some (l1, s1)" "main_ok (l1, s1)"
  proof (cases "sel e \<and> soc_ready e")
    case True
    then have r: "recv_ok (received e) (l\<lparr>timeout := t\<rparr>)" using adm unfolding admissible_def st 0(1) by (simp add: Let_def)
    obtain st1 where "on_socket e ?st0 = Some st1" "main_ok st1" using on_socket_spec [OF ok0 r] by blast
    then show ?thesis using that True by (cases st1) (simp add: main_recv_def)
  next
    case False
    show ?thesis by (rule that [of "l\<lparr>timeout := t\<rparr>" s0]) (use False ok0 in \<open>auto simp: main_recv_def\<close>)
  qed
  have ok1: "locals_ok l1" "peer_ok s1" using 1(2) by (simp_all add: main_ok_def)
  obtain s2 where 2: "main_read e (l1, s1) = Some (l1, s2)" "peer_ok s2"
  proof (cases "sel e \<and> gui_ready e")
    case True
    then have g: "gui_ok e s1" using adm 1(1) unfolding admissible_def st 0(1) by (simp add: Let_def)
    then obtain bs where bs: "typed e = Some bs" by (auto simp: gui_ok_def)
    obtain s2 where "on_gui e s1 = Some s2" "peer_ok s2"
      using on_gui_spec [OF ok1(2) g bs] by blast
    then show ?thesis using that True by (simp add: main_read_def)
  next
    case False
    show ?thesis by (rule that [of s1]) (use False ok1 in \<open>auto simp: main_read_def\<close>)
  qed
  have tk: "tick_ok (l1, s2)" using adm 1(1) 2(1) unfolding admissible_def st 0(1) by (simp add: Let_def)
  obtain l3 s3 where 3: "main_tick (l1, s2) = Some (l3, s3)" "peer_ok s3" "locals_ok l3"
    using main_tick_spec [OF 2(2) tk] ok1(1) by blast
  obtain s4 where 4: "main_flush (l3, s3) = Some (l3, s4)" "peer_ok s4"
    using main_flush_spec [OF 3(2)] by blast
  show ?thesis
    using 3(3) 4(2) by (simp add: main_iter_def st 0(1) 1(1) 2(1) 3(1) 4(1) main_ok_def)
qed

section \<open>Initialisation\<close>

lemma first_loop_spec:
  assumes "14 \<le> length bs"
  shows "\<exists>n. first_loop ps bs nb w = Some (n, w\<lparr>sent := sent w @ map (\<lambda>p. (p, take 14 bs)) ps\<rparr>)"
proof (induction ps arbitrary: nb w)
  case (Cons p ps)
  have "peek bs 0 14 = Some (take 14 bs)" using assms by (simp add: peek_def)
  moreover obtain n where "first_loop ps bs (if send_rc w (length (sent w)) > 0 then nb + 1 else nb)
      (w\<lparr>sent := sent w @ [(p, take 14 bs)]\<rparr>) =
    Some (n, w\<lparr>sent := sent w @ (p, take 14 bs) # map (\<lambda>p. (p, take 14 bs)) ps\<rparr>)"
    using Cons.IH [of "if send_rc w (length (sent w)) > 0 then nb + 1 else nb" "w\<lparr>sent := sent w @ [(p, take 14 bs)]\<rparr>"]
    by auto
  ultimately show ?case by (simp del: if_split)
qed simp

lemma main_init_run:
  assumes z: "zero_globals s" and e: "env_ok s" and l: "locals_ok l"
  shows "\<exists>l' s'. main_init rc addrs (l, s) = Some (l', s') \<and> main_ok (l', s') \<and> NEIGHBORS s' = Null \<and> DATAF s' = init_list \<and>
    clock s' = clock s \<and> sent s' = (if rc < 0 then [] else map (\<lambda>p. (p, packet (encode_tlv 2 (le_bytes 8 (ID s'))))) addrs)"
proof -
  obtain bs where r: "random_on_octets 8 s = (bs, s\<lparr>rnds := rnds s + 8\<rparr>)"
    by (metis random_on_octets_world surj_pair)
  let ?s1 = "s\<lparr>rnds := rnds s + 8, ID := le_word bs\<rparr>"
  let ?t = "2 # 8 # le_bytes 8 (le_word bs :: u64)"
  let ?m = "\<lparr>magic = 93, version = 2, body_length = htons 10, body = ?t @ replicate (MAX_SIZE - 10) 0\<rparr>"
  have m: "first_message ?s1 = Some ?m"
    by (simp add: first_message_def tlv_short_hello_eq poke_def MAX_SIZE_def)
  have t: "?t = encode_tlv 2 (le_bytes 8 (le_word bs :: u64))" by (simp add: encode_tlv_def)
  have p: "pending ?m = ?t" by (simp add: pending_def)
  have c: "complete ?t" unfolding t by simp
  have gm: "good_msg ?m" unfolding good_msg_def p using c by (simp add: MAX_SIZE_def PMTU_def)
  have "peek (message_bytes ?m) 0 14 = Some (packet ?t)"
    using peek_message [OF gm, of 14] p by simp
  then have bs14: "14 \<le> length (message_bytes ?m)" "take 14 (message_bytes ?m) = packet ?t"
    by (auto simp: peek_def split: if_splits)
  have gp: "good_packet (packet ?t)" using good_packet_pending [OF gm] unfolding p .
  let ?new = "if rc < 0 then [] else map (\<lambda>p. (p, packet ?t)) addrs"
  obtain n where n: "first_loop addrs (message_bytes ?m) 0 ?s1 =
      Some (n, ?s1\<lparr>sent := sent ?s1 @ map (\<lambda>p. (p, packet ?t)) addrs\<rparr>)"
    using first_loop_spec [OF bs14(1), of addrs 0 ?s1] unfolding bs14(2) by blast
  have "send_first_message rc addrs ?s1 = Some (if rc < 0 then -1 else n, ?s1\<lparr>sent := sent s @ ?new\<rparr>)"
    using n by (simp add: send_first_message_def m)
  then obtain n' where fm: "send_first_message rc addrs ?s1 = Some (n', ?s1\<lparr>sent := sent s @ ?new\<rparr>)" by blast
  let ?s2 = "?s1\<lparr>sent := sent s @ ?new, NEXTTIME := 0, DATAF := init_list\<rparr>"
  have run: "main_init rc addrs (l, s) = Some (l\<lparr>NEXTHELLO := 0\<rparr>, ?s2)"
    using r fm by (simp add: main_init_def)
  have "env_ok ?s2" by (rule env_ok_cong [OF _ _ _ e]) simp_all
  moreover have "trees_ok ?s2"
    using z by (simp add: zero_globals_def trees_ok_def bst_def tree_keys_def tree_addrs_def live_def)
  moreover have "floods_ok ?s2"
    using z by (simp add: zero_globals_def floods_ok_def queue_ok_def table_ok_def init_list_def wf_clist_def contents_def)
  moreover have "\<forall>p\<in>set (sent ?s2). good_packet (snd p)"
    using z gp by (auto simp: zero_globals_def)
  ultimately have "peer_ok ?s2" unfolding peer_ok_def by blast
  then show ?thesis using run l z t by (auto simp: main_ok_def locals_ok_def zero_globals_def)
qed

lemma main_init_spec:
  assumes "zero_globals s" "env_ok s" "locals_ok l"
  shows "\<exists>st. main_init rc addrs (l, s) = Some st \<and> main_ok st"
  using main_init_run [OF assms, of rc addrs] by blast

lemma first_loop_trees:
  "first_loop ps bs nb s = Some (n, s') \<Longrightarrow> NEIGHBORS s' = NEIGHBORS s \<and> POTENTIAL s' = POTENTIAL s"
  for s :: "'z peer_scheme"
  by (induction ps arbitrary: nb s) (auto simp: Let_def split: bind_splits)

lemma main_init_trees:
  assumes "main_init rc addrs (l, s) = Some st"
  shows "NEIGHBORS (snd st) = NEIGHBORS s" "POTENTIAL (snd st) = POTENTIAL s"
proof -
  obtain idb where r: "random_on_octets 8 s = (idb, s\<lparr>rnds := rnds s + 8\<rparr>)"
    by (metis random_on_octets_world surj_pair)
  show "NEIGHBORS (snd st) = NEIGHBORS s" "POTENTIAL (snd st) = POTENTIAL s"
    using assms
    by (auto simp: main_init_def r send_first_message_def Let_def dest!: first_loop_trees split: bind_splits if_split_asm)
qed

section \<open>Reachable states\<close>

text \<open>
  The states the loop of \<open>main\<close> goes through when every iteration is admissible.
\<close>

inductive peer_step :: "main_state \<Rightarrow> main_state \<Rightarrow> bool" where
  iterate: "admissible e st \<Longrightarrow> main_iter e st = Some st' \<Longrightarrow> peer_step st st'"

inductive_cases peer_stepE: "peer_step st st'"

inductive reachable :: "main_state \<Rightarrow> bool" where
  start: "zero_globals s \<Longrightarrow> env_ok s \<Longrightarrow> locals_ok l \<Longrightarrow> main_init rc addrs (l, s) = Some st \<Longrightarrow> reachable st"
| onward: "reachable st \<Longrightarrow> peer_step st st' \<Longrightarrow> reachable st'"

lemma peer_step_ok:
  assumes "peer_step st st'" "main_ok st"
  shows "main_ok st'"
  using assms main_iter_spec by (fastforce elim: peer_stepE)

lemma reachable_ok: "reachable st \<Longrightarrow> main_ok st"
proof (induction rule: reachable.induct)
  case (start s l rc addrs st)
  then show ?case using main_init_spec [of s l rc addrs] by auto
next
  case (onward st st')
  then show ?case by (blast intro: peer_step_ok)
qed

section \<open>Leaving\<close>

lemma disconnect_spec:
  assumes ok: "peer_ok s"
  shows "\<exists>s'. disconnect s = Some s' \<and> net_step s s'"
proof -
  obtain b where b: "tlv_goaway (fresh_body s) 0 body_room 1 disconnect_text 20 = Some (23, b)"
    "good_msg (compose s b 23)" "body_size (compose s b 23) = 23"
    using goaway_message [of 20 disconnect_text s 1] by (auto simp: disconnect_text_def simp del: body_room_eq)
  obtain s1 where 1: "send_to_everyone (compose s b 23) 27 (NEIGHBORS s) s = Some (number_of_neighbors (NEIGHBORS s), s1)" "net_step s s1"
    using send_to_everyone_step [OF b(2), of 27 s "NEIGHBORS s"] peer_ok_sendable(1) [OF ok] b(3) by auto
  have ok1: "peer_ok s1" by (rule peer_ok_net_step [OF ok 1(2)])
  obtain rc s2 where 2: "send_to_everyone_now (NEIGHBORS s1) s1 = Some (rc, s2)" "net_step s1 s2"
    using send_to_everyone_now_step peer_ok_sendable(1) [OF ok1] by blast
  have "unat (word_of_int 23 :: u16) + 4 = 27" by simp
  then show ?thesis using b(1) 1(1) 2(1) net_step_trans [OF 1(2) 2(2)] by (auto simp: disconnect_def Let_def)
qed

end
