(* ===== verification/Delivery.thy ===== *)
theory Delivery
  imports Peer_Inv "HOL-Library.Multiset"
begin

text \<open>
  What the buffering of messages promises: the bytes a neighbour is sent, read as one stream of
  TLVs, are the bodies of the messages composed for it, in order, none lost and none twice.
\<close>

section \<open>The stream to a neighbour\<close>

definition delivered :: "neighbor \<Rightarrow> 'z world_scheme \<Rightarrow> u8 list" where
  "delivered n w = concat (map (drop 4 \<circ> snd) (filter (\<lambda>p. fst p = neighbor_to_sockaddr6 n) (sent w)))"

definition waiting :: "neighbor \<Rightarrow> 'z world_scheme \<Rightarrow> u8 list" where
  "waiting n w = (case msg n of None \<Rightarrow> [] | Some b \<Rightarrow> pending (the (msgs w b)))"

definition stream :: "neighbor \<Rightarrow> 'z world_scheme \<Rightarrow> u8 list" where
  "stream n w = delivered n w @ waiting n w"

lemma sockaddr_inj: "neighbor_to_sockaddr6 a = neighbor_to_sockaddr6 b \<longleftrightarrow> nkey a = nkey b"
  unfolding neighbor_to_sockaddr6_def nkey_eq_iff by (auto dest: arg_cong [where f = ntohs])

lemma delivered_append:
  "sent w' = sent w @ ps \<Longrightarrow> delivered n w' =
     delivered n w @ concat (map (drop 4 \<circ> snd) (filter (\<lambda>p. fst p = neighbor_to_sockaddr6 n) ps))"
  by (simp add: delivered_def)

text \<open>\<open>send_message\<close> appends the message to the stream of its recipient and leaves the others.\<close>

lemma send_message_stream:
  assumes "good_msg buf" "n = body_size buf + 4" "sendable w rcpt"
  shows "\<exists>w'. send_message buf n rcpt w = Some (1, w') \<and> stream rcpt w' = stream rcpt w @ pending buf \<and>
    (\<forall>k. nkey k \<noteq> nkey rcpt \<longrightarrow> msg k = None \<or> msg k \<noteq> msg rcpt \<longrightarrow> stream k w' = stream k w)"
proof (cases "msg rcpt")
  case None
  let ?w' = "w\<lparr>sent := sent w @ [(neighbor_to_sockaddr6 rcpt, packet (pending buf))]\<rparr>"
  have "stream k ?w' = stream k w" if "nkey k \<noteq> nkey rcpt" for k
    using that by (auto simp: stream_def waiting_def delivered_def sockaddr_inj split: option.splits)
  moreover have "stream rcpt ?w' = stream rcpt w @ pending buf"
    using None by (simp add: stream_def waiting_def delivered_def)
  ultimately show ?thesis using send_message_direct [OF assms(1,2) None] by auto
next
  case (Some b)
  obtain m where m: "msgs w b = Some m" "good_msg m" using assms(3) Some by (auto simp: sendable_def)
  obtain m' w' where r: "send_message buf n rcpt w = Some (1, w')" "msgs w' = (msgs w)(b \<mapsto> m')"
    "if body_size m + body_size buf + 4 \<le> PMTU
     then pending m' = pending m @ pending buf \<and> sent w' = sent w
     else pending m' = pending buf \<and> sent w' = sent w @ [(neighbor_to_sockaddr6 rcpt, packet (pending m))]"
    using send_message_buffered [OF assms(1) Some m(1,2)] by blast
  have "stream rcpt w' = stream rcpt w @ pending buf"
    using r(2,3) Some m(1) by (auto simp: stream_def waiting_def delivered_def split: if_splits)
  moreover have "stream k w' = stream k w" if "nkey k \<noteq> nkey rcpt" "msg k = None \<or> msg k \<noteq> msg rcpt" for k
    using r(2,3) Some that
    by (auto simp: stream_def waiting_def delivered_def sockaddr_inj split: if_splits option.splits)
  ultimately show ?thesis using r(1) by blast
qed

section \<open>Flushing the buffers\<close>

fun preorder :: "tree \<Rightarrow> neighbor list" where
  "preorder Null = []"
| "preorder (Tree a k v l r) = k # preorder l @ preorder r"

text \<open>The datagram that empties the buffer of a neighbour, if there is anything in it.\<close>

definition flush :: "'z world_scheme \<Rightarrow> neighbor \<Rightarrow> (sockaddr_in6 \<times> u8 list) list" where
  "flush w k = (if waiting k w = [] then [] else [(neighbor_to_sockaddr6 k, packet (waiting k w))])"

definition emptied :: "message_h option \<Rightarrow> message_h option" where
  "emptied = map_option (\<lambda>m. m\<lparr>body_length := 0\<rparr>)"

lemma pending_nil: "good_msg m \<Longrightarrow> pending m = [] \<longleftrightarrow> body_length m = 0"
proof -
  assume "good_msg m"
  then have "pending m = [] \<longleftrightarrow> body_size m = 0" using length_pending [of m] by (metis length_0_conv)
  also have "\<dots> \<longleftrightarrow> body_length m = 0"
    unfolding unat_eq_zero by (metis htons_ntohs ntohs_zero)
  finally show ?thesis .
qed

lemma pending_emptied [simp]: "pending (m\<lparr>body_length := 0\<rparr>) = []"
  by (simp add: pending_def)


text \<open>The step of \<open>send_to_everyone_now\<close> at one node.\<close>

lemma flush_node:
  assumes "sendable w k"
  shows "\<exists>rc w1. (case msg k of
               None \<Rightarrow> Some (0 :: int, w)
             | Some b \<Rightarrow>
                 do { m \<leftarrow> msgs w b;
                      if body_length m \<noteq> 0 then
                        do { (rc, w1) \<leftarrow> send_message_now (message_bytes m)
                               (unat (ntohs (body_length m)) + 4) k w;
                             Some (if rc > 0 then 1 else 0,
                               w1\<lparr>msgs := (msgs w1)(b \<mapsto> m\<lparr>body_length := 0\<rparr>)\<rparr>) }
                      else Some (0, w) }) = Some (rc, w1) \<and>
    sent w1 = sent w @ flush w k \<and>
    msgs w1 = (\<lambda>b. if msg k = Some b then emptied (msgs w b) else msgs w b)"
proof (cases "msg k")
  case None
  then show ?thesis by (auto simp: flush_def waiting_def)
next
  case (Some b)
  then obtain m where m: "msgs w b = Some m" "good_msg m"
    using assms by (auto simp: sendable_def)
  have wt: "waiting k w = pending m" by (simp add: waiting_def Some m)
  have e: "m\<lparr>body_length := 0\<rparr> = m" if "body_length m = 0" using that by simp
  show ?thesis
    using Some m e pending_nil [OF m(2)]
    by (auto simp: send_message_now_def peek_message flush_def wt emptied_def fun_eq_iff)
qed

lemma flush_cong: "msg k = None \<or> (\<exists>b. msg k = Some b \<and> msgs w' b = msgs w b) \<Longrightarrow> flush w' k = flush w k"
  by (auto simp: flush_def waiting_def)

lemma preorder_buffers: "b \<in> set (buffers t) \<longleftrightarrow> (\<exists>k\<in>set (preorder t). msg k = Some b)"
  by (induction t) (auto split: option.splits)

lemma flush_cong_list:
  assumes "\<And>b. b \<in> set (buffers t) \<Longrightarrow> msgs w' b = msgs w b"
  shows "concat (map (flush w') (preorder t)) = concat (map (flush w) (preorder t))"
proof -
  have "flush w' k = flush w k" if "k \<in> set (preorder t)" for k
    using assms that by (intro flush_cong) (cases "msg k"; auto simp: preorder_buffers)
  then show ?thesis by (metis map_cong)
qed

lemma all_sendable_cong:
  assumes "\<And>b. b \<in> set (buffers t) \<Longrightarrow> msgs w' b = msgs w b" "all_sendable w t"
  shows "all_sendable w' t"
  unfolding all_sendable_def
proof (clarify)
  fix a k v
  assume e: "(a, k, v) \<in> set (entries t)"
  have "msgs w' b = msgs w b" if "msg k = Some b" for b
    using e that by (intro assms(1)) (force simp: in_buffers)
  moreover have "sendable w k" using assms(2) e by (auto simp: all_sendable_def)
  ultimately show "sendable w' k" by (simp add: sendable_def)
qed

text \<open>
  \<open>send_to_everyone_now\<close> sends every buffer that is not empty, in the order of the tree's nodes
  (a node before its subtrees), and leaves all of them empty.
\<close>

lemma send_to_everyone_now_flush:
  assumes "all_sendable w t" "distinct (buffers t)"
  shows "\<exists>rc w'. send_to_everyone_now t w = Some (rc, w') \<and>
    sent w' = sent w @ concat (map (flush w) (preorder t)) \<and>
    msgs w' = (\<lambda>b. if b \<in> set (buffers t) then emptied (msgs w b) else msgs w b)"
  using assms
proof (induction t arbitrary: w)
  case (Tree a k v l r)
  obtain rc w1 where 1: "(case msg k of
               None \<Rightarrow> Some (0 :: int, w)
             | Some b \<Rightarrow>
                 do { m \<leftarrow> msgs w b;
                      if body_length m \<noteq> 0 then
                        do { (rc, w1) \<leftarrow> send_message_now (message_bytes m)
                               (unat (ntohs (body_length m)) + 4) k w;
                             Some (if rc > 0 then 1 else 0,
                               w1\<lparr>msgs := (msgs w1)(b \<mapsto> m\<lparr>body_length := 0\<rparr>)\<rparr>) }
                      else Some (0, w) }) = Some (rc, w1)"
    and w1: "sent w1 = sent w @ flush w k" "msgs w1 = (\<lambda>b. if msg k = Some b then emptied (msgs w b) else msgs w b)"
    using flush_node [of w k] Tree.prems(1) by auto
  have dl: "distinct (buffers l)" "distinct (buffers r)" "set (buffers l) \<inter> set (buffers r) = {}"
    and dk: "\<And>b. msg k = Some b \<Longrightarrow> b \<notin> set (buffers l) \<and> b \<notin> set (buffers r)"
    using Tree.prems(2) by (auto split: option.splits)
  have sl: "all_sendable w1 l"
    by (rule all_sendable_cong [of l _ w]) (use Tree.prems(1) dk w1(2) in auto)
  obtain r2 w2 where 2: "send_to_everyone_now l w1 = Some (r2, w2)"
    "sent w2 = sent w1 @ concat (map (flush w1) (preorder l))"
    "msgs w2 = (\<lambda>b. if b \<in> set (buffers l) then emptied (msgs w1 b) else msgs w1 b)"
    using Tree.IH(1) [OF sl dl(1)] by blast
  have sr: "all_sendable w2 r"
    by (rule all_sendable_cong [of r _ w]) (use Tree.prems(1) dk dl(3) w1(2) 2(3) in auto)
  obtain r3 w3 where 3: "send_to_everyone_now r w2 = Some (r3, w3)"
    "sent w3 = sent w2 @ concat (map (flush w2) (preorder r))"
    "msgs w3 = (\<lambda>b. if b \<in> set (buffers r) then emptied (msgs w2 b) else msgs w2 b)"
    using Tree.IH(2) [OF sr dl(2)] by blast
  have "concat (map (flush w1) (preorder l)) = concat (map (flush w) (preorder l))"
    using dk w1(2) by (intro flush_cong_list) auto
  moreover have "concat (map (flush w2) (preorder r)) = concat (map (flush w) (preorder r))"
    using dk dl(3) w1(2) 2(3) by (intro flush_cong_list) auto
  moreover have "send_to_everyone_now (Tree a k v l r) w = Some (rc + r2 + r3, w3)"
    by (simp only: send_to_everyone_now.simps 1 2(1) 3(1) bind.bind_lunit split)
  moreover have "msgs w3 = (\<lambda>b. if b \<in> set (buffers (Tree a k v l r)) then emptied (msgs w b) else msgs w b)"
    unfolding 3(3) 2(3) w1(2) using dk dl(3) by (auto simp: fun_eq_iff emptied_def split: option.splits)
  ultimately show ?case using 2(2) 3(2) w1(1) by simp
qed simp


lemma mset_preorder: "mset (preorder t) = mset (map (fst \<circ> snd) (entries t))"
  by (induction t) simp_all

lemma filter_flush_none:
  "nkey k \<notin> nkey ` set ks \<Longrightarrow> filter (\<lambda>p. fst p = neighbor_to_sockaddr6 k) (concat (map (flush w) ks)) = []"
proof (induction ks)
  case (Cons x ks)
  then have "filter (\<lambda>p. fst p = neighbor_to_sockaddr6 k) (flush w x) = []"
    by (auto simp: flush_def sockaddr_inj)
  then show ?case using Cons by (simp del: filter_empty_conv)
qed simp

lemma filter_flush:
  assumes "distinct (map nkey ks)" "k \<in> set ks"
  shows "filter (\<lambda>p. fst p = neighbor_to_sockaddr6 k) (concat (map (flush w) ks)) = flush w k"
proof -
  obtain A B where ks: "ks = A @ k # B" using assms(2) by (meson split_list)
  have "nkey k \<notin> nkey ` set A" "nkey k \<notin> nkey ` set B" using assms(1) ks by auto
  then have "filter (\<lambda>p. fst p = neighbor_to_sockaddr6 k) (concat (map (flush w) ks)) =
      filter (\<lambda>p. fst p = neighbor_to_sockaddr6 k) (flush w k)"
    using filter_flush_none [of k A w] filter_flush_none [of k B w] by (simp add: ks del: filter_empty_conv filter_concat)
  then show ?thesis by (simp add: flush_def)
qed

lemma flush_delivers:
  assumes s: "all_sendable w t" "distinct (buffers t)" and b: "bst t"
  shows "\<exists>rc w'. send_to_everyone_now t w = Some (rc, w') \<and>
    (\<forall>e\<in>set (entries t). waiting (fst (snd e)) w' = [] \<and> delivered (fst (snd e)) w' = stream (fst (snd e)) w)"
proof -
  obtain rc w' where r: "send_to_everyone_now t w = Some (rc, w')"
    "sent w' = sent w @ concat (map (flush w) (preorder t))"
    "msgs w' = (\<lambda>b. if b \<in> set (buffers t) then emptied (msgs w b) else msgs w b)"
    using send_to_everyone_now_flush [OF s] by blast
  have pre: "set (preorder t) = (fst \<circ> snd) ` set (entries t)"
    using arg_cong [OF mset_preorder [of t], of set_mset] by (simp add: image_image)
  have "mset (map nkey (preorder t)) = mset (map entry_key (entries t))"
    using arg_cong [OF mset_preorder [of t], of "image_mset nkey"] by (simp add: multiset.map_comp comp_def)
  then have d: "distinct (map nkey (preorder t))"
    using b by (metis bst_def distinct_map mset_eq_imp_distinct_iff strict_sorted_iff tree_keys_def)
  have "waiting k w' = [] \<and> delivered k w' = stream k w" if e: "(a, k, v) \<in> set (entries t)" for a k v
  proof
    have k: "k \<in> set (preorder t)" unfolding pre using e by force
    show "waiting k w' = []"
    proof (cases "msg k")
      case (Some c)
      then have c: "c \<in> set (buffers t)" using k by (auto simp: preorder_buffers)
      obtain m where "msgs w c = Some m" using s(1) e Some by (fastforce simp: all_sendable_def sendable_def)
      then show ?thesis using c by (simp add: waiting_def Some r(3) emptied_def)
    qed (simp add: waiting_def)
    have "concat (map (drop 4 \<circ> snd) (flush w k)) = waiting k w" by (simp add: flush_def)
    then show "delivered k w' = stream k w"
      using delivered_append [OF r(2), of k] filter_flush [OF d k, of w] by (simp add: stream_def)
  qed
  then show ?thesis using r(1) by fastforce
qed

section \<open>The interface of an outgoing queue\<close>

text \<open>
  What the senders rely on: a message that is well formed is appended to the stream of a
  recipient that is ready, which stays ready; other recipients do not notice.
\<close>

fun send_all :: "('m \<Rightarrow> 'r \<Rightarrow> 'w \<Rightarrow> 'w option) \<Rightarrow> 'm list \<Rightarrow> 'r \<Rightarrow> 'w \<Rightarrow> 'w option" where
  "send_all snd_op [] r w = Some w"
| "send_all snd_op (m # ms) r w = do { w1 \<leftarrow> snd_op m r w; send_all snd_op ms r w1 }"

locale outbox =
  fixes put :: "'m \<Rightarrow> 'r \<Rightarrow> 'w \<Rightarrow> 'w option"
    and str :: "'r \<Rightarrow> 'w \<Rightarrow> 'b list"
    and content :: "'m \<Rightarrow> 'b list"
    and fine :: "'m \<Rightarrow> bool"
    and ready :: "'r \<Rightarrow> 'w \<Rightarrow> bool"
    and apart :: "'r \<Rightarrow> 'r \<Rightarrow> bool"
  assumes put_ok: "fine m \<Longrightarrow> ready r w \<Longrightarrow>
      \<exists>w'. put m r w = Some w' \<and> ready r w' \<and> str r w' = str r w @ content m \<and>
        (\<forall>k. apart k r \<longrightarrow> str k w' = str k w)"
begin

lemma put_all:
  assumes "\<forall>m\<in>set ms. fine m" "ready r w"
  shows "\<exists>w'. send_all put ms r w = Some w' \<and> ready r w' \<and> str r w' = str r w @ concat (map content ms) \<and>
    (\<forall>k. apart k r \<longrightarrow> str k w' = str k w)"
  using assms
proof (induction ms arbitrary: w)
  case (Cons m ms)
  obtain w1 where 1: "put m r w = Some w1" "ready r w1" "str r w1 = str r w @ content m"
    "\<forall>k. apart k r \<longrightarrow> str k w1 = str k w"
    using put_ok [of m r w] Cons.prems by auto
  obtain w2 where "send_all put ms r w1 = Some w2" "ready r w2" "str r w2 = str r w1 @ concat (map content ms)"
    "\<forall>k. apart k r \<longrightarrow> str k w2 = str k w1"
    using Cons.IH [of w1] Cons.prems(1) 1(2) by auto
  then show ?case using 1 by auto
qed simp

end

text \<open>\<open>send_message\<close> with the size the callers pass.\<close>

definition compose_for :: "message_h \<Rightarrow> neighbor \<Rightarrow> 'z world_scheme \<Rightarrow> 'z world_scheme option" where
  "compose_for m rcpt w = map_option snd (send_message m (body_size m + 4) rcpt w)"

definition apart :: "neighbor \<Rightarrow> neighbor \<Rightarrow> bool" where
  "apart k rcpt \<longleftrightarrow> nkey k \<noteq> nkey rcpt \<and> (msg k = None \<or> msg k \<noteq> msg rcpt)"

interpretation mailbox: outbox compose_for stream pending good_msg "\<lambda>r w. sendable w r" apart
proof
  fix m :: message_h and r :: neighbor and w :: "'z world_scheme"
  assume a: "good_msg m" "sendable w r"
  obtain w' where w: "send_message m (body_size m + 4) r w = Some (1, w')" "stream r w' = stream r w @ pending m"
    "\<forall>k. nkey k \<noteq> nkey r \<longrightarrow> msg k = None \<or> msg k \<noteq> msg r \<longrightarrow> stream k w' = stream k w"
    using send_message_stream [OF a(1) refl a(2)] by blast
  obtain w'' where "send_message m (body_size m + 4) r w = Some (1, w'')" "net_step w w''"
    using send_message_step [OF a(1) refl a(2)] by blast
  then have "sendable w' r" using w(1) sendable_step a(2) by simp
  then show "\<exists>w'. compose_for m r w = Some w' \<and> sendable w' r \<and> stream r w' = stream r w @ pending m \<and>
      (\<forall>k. apart k r \<longrightarrow> stream k w' = stream k w)"
    using w by (auto simp: compose_for_def apart_def)
qed

section \<open>To everyone\<close>

definition apart_from :: "neighbor \<Rightarrow> tree \<Rightarrow> bool" where
  "apart_from k t \<longleftrightarrow> (\<forall>e\<in>set (entries t). apart k (fst (snd e)))"

lemma apart_from_simps [simp]:
  "apart_from k Null"
  "apart_from k (Tree a n v l r) \<longleftrightarrow> apart_from k l \<and> apart k n \<and> apart_from k r"
  by (auto simp: apart_from_def)

lemma apart_nodes:
  assumes "bst t" "distinct (buffers t)" "t = Tree a k v l r"
  shows "apart_from k l" "apart_from k r"
    "e \<in> set (entries l) \<Longrightarrow> apart (fst (snd e)) k \<and> apart_from (fst (snd e)) r"
    "e \<in> set (entries r) \<Longrightarrow> apart (fst (snd e)) k \<and> apart_from (fst (snd e)) l"
proof -
  have d: "distinct (tree_keys t)" using assms(1) by (simp add: bst_def strict_sorted_iff)
  have key: "nkey k \<notin> entry_key ` set (entries l)" "nkey k \<notin> entry_key ` set (entries r)"
    "entry_key ` set (entries l) \<inter> entry_key ` set (entries r) = {}"
    using d assms(3) by (auto simp: tree_keys_def)
  have buf: "msg (fst (snd x)) = None \<or> msg (fst (snd x)) \<noteq> msg k"
    if "x \<in> set (entries l) \<union> set (entries r)" for x
  proof (cases "msg k")
    case (Some b)
    then have "b \<notin> set (buffers l) \<union> set (buffers r)" using assms(2,3) by auto
    then show ?thesis using that Some by (force simp: in_buffers)
  qed auto
  have both: "msg (fst (snd x)) = None \<or> msg (fst (snd x)) \<noteq> msg (fst (snd y))"
    if "x \<in> set (entries l)" "y \<in> set (entries r)" for x y
  proof (cases "msg (fst (snd x))")
    case (Some b)
    then have "b \<in> set (buffers l)" using that(1) by (auto simp: in_buffers)
    then have "b \<notin> set (buffers r)" using assms(2,3) by auto
    then show ?thesis using that(2) Some by (force simp: in_buffers)
  qed simp
  have ak: "apart k (fst (snd x)) \<and> apart (fst (snd x)) k" if x: "x \<in> set (entries l) \<union> set (entries r)" for x
  proof -
    have "entry_key x \<noteq> nkey k" using key(1,2) x by (metis UnE image_eqI)
    then show ?thesis using buf [OF x] unfolding apart_def by metis
  qed
  have lr: "apart (fst (snd x)) (fst (snd y)) \<and> apart (fst (snd y)) (fst (snd x))"
    if x: "x \<in> set (entries l)" and y: "y \<in> set (entries r)" for x y
  proof -
    have "entry_key x \<in> entry_key ` set (entries l)" "entry_key y \<in> entry_key ` set (entries r)"
      using x y by simp_all
    then have "entry_key x \<noteq> entry_key y" using key(3) by (metis IntI empty_iff)
    then show ?thesis using both [OF x y] unfolding apart_def by metis
  qed
  show "apart_from k l" "apart_from k r" using ak by (simp_all add: apart_from_def)
  show "apart (fst (snd e)) k \<and> apart_from (fst (snd e)) r" if "e \<in> set (entries l)"
    using that ak lr by (simp add: apart_from_def)
  show "apart (fst (snd e)) k \<and> apart_from (fst (snd e)) l" if "e \<in> set (entries r)"
    using that ak lr by (simp add: apart_from_def)
qed

text \<open>Every node of the tree gets the message once; nobody else does.\<close>

lemma send_to_everyone_stream:
  assumes buf: "good_msg m" "n = body_size m + 4"
  shows "all_sendable w t \<Longrightarrow> bst t \<Longrightarrow> distinct (buffers t) \<Longrightarrow>
    \<exists>w'. send_to_everyone m n t w = Some (number_of_neighbors t, w') \<and> net_step w w' \<and>
      (\<forall>e\<in>set (entries t). stream (fst (snd e)) w' = stream (fst (snd e)) w @ pending m) \<and>
      (\<forall>k. apart_from k t \<longrightarrow> stream k w' = stream k w)"
proof (induction t arbitrary: w)
  case (Tree a k v l r)
  note ap = apart_nodes [OF Tree.prems(2,3) refl]
  have sub: "bst l" "bst r" "distinct (buffers l)" "distinct (buffers r)"
    using Tree.prems(2,3) by (auto simp: bst_def tree_keys_def sorted_wrt_append)
  obtain w1 where 1: "send_message m n k w = Some (1, w1)" "stream k w1 = stream k w @ pending m"
    "\<And>x. apart x k \<Longrightarrow> stream x w1 = stream x w"
    using send_message_stream [OF buf, of w k] Tree.prems(1) by (auto simp: apart_def)
  have n1: "net_step w w1" using send_message_step [OF buf, of w k] Tree.prems(1) 1(1) by auto
  obtain w2 where 2: "send_to_everyone m n l w1 = Some (number_of_neighbors l, w2)" "net_step w1 w2"
    "\<forall>e\<in>set (entries l). stream (fst (snd e)) w2 = stream (fst (snd e)) w1 @ pending m"
    "\<forall>x. apart_from x l \<longrightarrow> stream x w2 = stream x w1"
    using Tree.IH(1) [of w1] all_sendable_step [OF n1] Tree.prems(1) sub by auto
  obtain w3 where 3: "send_to_everyone m n r w2 = Some (number_of_neighbors r, w3)" "net_step w2 w3"
    "\<forall>e\<in>set (entries r). stream (fst (snd e)) w3 = stream (fst (snd e)) w2 @ pending m"
    "\<forall>x. apart_from x r \<longrightarrow> stream x w3 = stream x w2"
    using Tree.IH(2) [of w2] all_sendable_step [OF net_step_trans [OF n1 2(2)]] Tree.prems(1) sub by auto
  have "stream (fst (snd e)) w3 = stream (fst (snd e)) w @ pending m" if en: "e \<in> set (entries (Tree a k v l r))" for e
  proof -
    consider (node) "e = (a, k, v)" | (left) "e \<in> set (entries l)" | (right) "e \<in> set (entries r)"
      using en by auto
    then show ?thesis
    proof cases
      case node
      then show ?thesis using ap(1,2) 1(2) 2(4) 3(4) by simp
    next
      case left
      then show ?thesis using ap(3) [OF left] 1(3) 2(3) 3(4) by simp
    next
      case right
      then show ?thesis using ap(4) [OF right] 1(3) 2(4) 3(3) by simp
    qed
  qed
  moreover have "stream x w3 = stream x w" if "apart_from x (Tree a k v l r)" for x
    using that 1(3) 2(4) 3(4) by simp
  moreover have "send_to_everyone m n (Tree a k v l r) w = Some (number_of_neighbors (Tree a k v l r), w3)"
    by (simp add: 1(1) 2(1) 3(1))
  moreover have "net_step w w3" using n1 2(2) 3(2) net_step_trans by blast
  ultimately show ?case by blast
qed simp

lemma send_batches_stream:
  assumes "\<forall>m\<in>set ms. good_msg m" "all_sendable w t" "bst t" "distinct (buffers t)"
  shows "\<exists>w'. send_batches ms t w = Some w' \<and> all_sendable w' t \<and>
    (\<forall>e\<in>set (entries t). stream (fst (snd e)) w' = stream (fst (snd e)) w @ concat (map pending ms))"
  using assms(1,2)
proof (induction ms arbitrary: w)
  case (Cons m ms)
  have m: "good_msg m" using Cons.prems(1) by simp
  obtain w1 where 1: "send_to_everyone m (body_size m + 4) t w = Some (number_of_neighbors t, w1)" "net_step w w1"
    "\<forall>e\<in>set (entries t). stream (fst (snd e)) w1 = stream (fst (snd e)) w @ pending m"
    using send_to_everyone_stream [OF m refl Cons.prems(2) assms(3,4)] by blast
  obtain w2 where 2: "send_batches ms t w1 = Some w2" "all_sendable w2 t"
    "\<forall>e\<in>set (entries t). stream (fst (snd e)) w2 = stream (fst (snd e)) w1 @ concat (map pending ms)"
    using Cons.IH [of w1] Cons.prems all_sendable_step [OF 1(2)] by auto
  have "send_batches (m # ms) t w = Some w2" using 1(1) 2(1) by simp
  then show ?case using 1(3) 2(2,3) by (intro exI [of _ w2]) simp
qed simp

lemma send_all_step:
  assumes "\<forall>m\<in>set ms. good_msg m" "sendable w k" "send_all compose_for ms k w = Some w'"
  shows "net_step w w'"
  using assms
proof (induction ms arbitrary: w)
  case (Cons m ms)
  obtain w1 where 1: "send_message m (body_size m + 4) k w = Some (1, w1)" "net_step w w1"
    using send_message_step [OF _ refl, of m w k] Cons.prems by auto
  then have "net_step w1 w'"
    using Cons.IH [of w1] Cons.prems sendable_step [OF 1(2)] by (simp add: compose_for_def)
  then show ?case using 1(2) net_step_trans by blast
qed simp

end
