(* ===== verification/Sample.thy ===== *)
theory Sample
  imports Main_Laws Delivery
begin

text \<open>
  Concrete states: the globals before \<open>main\<close> runs, with a machine whose clock stands at 200
  seconds, and a peer that has one symmetric neighbour and one datum still to be sent to it.
\<close>

section \<open>Before main\<close>

definition blank_peer :: peer where
  "blank_peer =
     \<lparr>next_addr = 1, alloc_ok = (\<lambda>_. True), clock = (\<lambda>_. 200), ticks = 0, rnd = (\<lambda>_. 7), rnds = 0,
      send_rc = (\<lambda>_. 1), junk = (\<lambda>_. 0), msgs = Map.empty, sent = [], tty = [], gui = [],
      ID = 0, POTENTIAL = Null, NEIGHBORS = Null, DATAF = init_list, floods = Map.empty,
      NEXTTIME = 0, NB_SYMETRICAL = 0\<rparr>"

definition blank_address :: sockaddr_in6 where
  "blank_address = \<lparr>sin6_family = 10, sin6_port = 48132, sin6_flowinfo = 0,
     sin6_addr = replicate 16 1, sin6_scope_id = 0\<rparr>"

definition blank_locals :: main_locals where
  "blank_locals =
     \<lparr>NEXTHELLO = 0, rbuf = \<lparr>magic = 0, version = 0, body_length = 0, body = replicate MAX_SIZE 0\<rparr>,
      client = blank_address, timeout = 0\<rparr>"

lemma blank_ok: "zero_globals blank_peer" "env_ok blank_peer" "locals_ok blank_locals"
  by (simp_all add: zero_globals_def env_ok_def malloc_ok_def rand_ok_def clock_ok_def locals_ok_def
      blank_peer_def blank_locals_def blank_address_def)

section \<open>A peer with a neighbour\<close>

definition some_neighbor :: neighbor where
  "some_neighbor = \<lparr>ip = replicate 16 1, port = 1212, msg = Some 1\<rparr>"

definition some_ident :: ident where
  "some_ident = \<lparr>ident_id = 9, last_hello = 150, last_hello_long = 150\<rparr>"

definition some_entry :: ngb_entry where
  "some_entry = \<lparr>sym = Key 2 some_neighbor, times_sent = 0, wait_until = 100\<rparr>"

definition some_index :: data_index where
  "some_index = \<lparr>index_id = 7, nonce = 9\<rparr>"

definition some_flood :: flood_entry where
  "some_flood =
     \<lparr>flood_index = some_index,
      flood_data = 4 # 14 # le_bytes 8 (7 :: u64) @ le_bytes 4 (9 :: u32) @ [0, 65] @ replicate 244 0,
      sym_neighbors = \<lparr>list_length = 1, nodes = [(6, some_entry)]\<rparr>\<rparr>"

definition some_message :: message_h where
  "some_message = \<lparr>magic = 93, version = 2, body_length = 0, body = replicate MAX_SIZE 0\<rparr>"

definition one_neighbor :: peer where
  "one_neighbor = blank_peer
     \<lparr>next_addr := 8, msgs := [1 \<mapsto> some_message],
      NEIGHBORS := Tree 2 some_neighbor some_ident Null Null, DATAF := \<lparr>list_length = 1, nodes = [(7, Some 5)]\<rparr>,
      floods := [5 \<mapsto> some_flood]\<rparr>"

lemma some_message_ok: "good_msg some_message"
  by (simp add: good_msg_def some_message_def pending_def PMTU_def MAX_SIZE_def)

lemma some_neighbor_ok: "wf_neighbor some_neighbor"
  by (simp add: wf_neighbor_def some_neighbor_def)

lemma some_flood_ok: "flood_ok (Tree 2 some_neighbor some_ident Null Null) 8 some_flood"
  by (simp add: flood_ok_def some_flood_def stored_tlv_def FLOOD_DATA_SIZE_def nodes_ok_def some_entry_def
      points_to_def some_index_def le_word_le_bytes)

lemma one_neighbor_ok: "peer_ok one_neighbor"
proof -
  have e: "env_ok one_neighbor"
    using blank_ok(2) by (rule env_ok_cong [rotated 3]) (simp_all add: one_neighbor_def)
  have t: "trees_ok one_neighbor"
    using some_neighbor_ok some_message_ok
    by (auto simp: trees_ok_def one_neighbor_def blank_peer_def bst_def tree_keys_def tree_addrs_def live_def
        some_neighbor_def split: if_splits)
  have f: "floods_ok one_neighbor"
    using some_flood_ok
    by (auto simp: floods_ok_def one_neighbor_def queue_ok_def table_ok_def wf_clist_def contents_def split: if_splits
        intro!: exI [of _ "[5]"])
  have "sent one_neighbor = []" by (simp add: one_neighbor_def blank_peer_def)
  then show ?thesis using e t f by (simp add: peer_ok_def)
qed

end
