(* ===== verification/Peer_Props.thy ===== *)
theory Peer_Props
  imports Sample
begin

text \<open>
  The properties of the peer as a whole and of its protocol, over the component lemmas of the
  other theories.
\<close>

section \<open>Reachable states\<close>

lemma main_init_reachable:
  "main_init rc addrs (blank_locals, blank_peer) = Some st \<Longrightarrow> reachable st"
  using blank_ok by (blast intro: reachable.start)

lemma blank_init:
  obtains st where "main_init 0 [blank_address] (blank_locals, blank_peer) = Some st" "reachable st"
  using main_init_spec [OF blank_ok, of 0 "[blank_address]"] main_init_reachable by blast

lemma blank_first:
  assumes "main_init 0 [blank_address] (blank_locals, blank_peer) = Some st"
  shows "sent (snd st) = [(blank_address, [93, 2, 0, 10, 2, 8, 7, 7, 7, 7, 7, 7, 7, 7])]"
proof -
  have "random_on_octets 8 blank_peer = (replicate 8 7, blank_peer\<lparr>rnds := 8\<rparr>)"
    by (simp add: numeral_eq_Suc rand_def blank_peer_def Let_def)
  moreover have "le_bytes 2 (htons 10 :: u16) @ 2 # 8 # replicate 8 (7 :: u8) = [0, 10, 2, 8, 7, 7, 7, 7, 7, 7, 7, 7]"
    by code_simp
  ultimately show ?thesis
    using assms
    by (auto simp: main_init_def Let_def send_first_message_def first_message_def tlv_short_hello_eq poke_def
        message_bytes_def peek_def MAX_SIZE_def le_bytes_le_word blank_peer_def split: bind_splits)
qed

text \<open>
  C1: as long as memory does not run out, \<open>rand\<close> is not negative and the monotonic clock (the
  uptime of the machine) stays below 32704 seconds, about nine hours: from the start of \<open>main\<close>,
  every iteration of its loop that is given admissible input returns without undefined
  behaviour and leads to a state where the invariant of the peer holds again.  (Later than that the
  code can go wrong: \<open>Flood_Props.wrong_neighbour_removed\<close>.)
\<close>

theorem main_loop_safe:
  assumes "reachable st" "admissible e st"
  shows "\<exists>st'. main_iter e st = Some st' \<and> reachable st' \<and> main_ok st'"
proof -
  obtain st' where "main_iter e st = Some st'" "main_ok st'"
    using main_iter_spec [OF reachable_ok [OF assms(1)] assms(2)] by blast
  then show ?thesis using assms by (blast intro: peer_step.intros reachable.onward)
qed

definition idle :: io where
  "idle = \<lparr>sel = False, soc_ready = False, gui_ready = False, received = None, typed = None\<rparr>"

lemma malloc_world: "\<exists>p n. malloc s = (p, s\<lparr>next_addr := n\<rparr>)"
  by (auto simp: malloc_def)

lemma periodic_alone:
  fixes s :: peer
  assumes n: "NEIGHBORS s = Null" "POTENTIAL s = Null" and p: "periodic (l, s) = Some st'"
  shows "NEIGHBORS (snd st') = Null"
proof -
  obtain q a where m: "malloc s = (q, s\<lparr>next_addr := a\<rparr>)" using malloc_world by blast
  have "get_symmetrical Null s = Some (if q = None then None else Some init_list, s\<lparr>next_addr := a\<rparr>)"
    by (simp add: get_symmetrical_def find_by_def m)
  then show ?thesis
    using p n
    by (auto simp: periodic_def send_symetrical_everyone_def init_list_def contents_def get_seconds_def Let_def
        send_goaway_asymetrical_def remove_old_potential_def send_shorthello_everyone_def
        split: if_split_asm bind_splits)
qed

lemma idle_admissible:
  assumes "NEIGHBORS (snd st) = Null" "POTENTIAL (snd st) = Null"
  shows "admissible idle st"
proof (cases st)
  case (Pair l0 s0)
  have "depth (NEIGHBORS (snd st')) < 40"
    if "periodic (l, s) = Some st'" "NEIGHBORS s = Null" "POTENTIAL s = Null" for l s st'
    using periodic_alone [OF that(2,3,1)] by simp
  then show ?thesis
    using assms
    by (auto simp: Pair admissible_def idle_def Let_def main_recv_def main_read_def tick_ok_def printable_def
        main_select_def get_seconds_def split del: if_split)
qed

lemma blank_alone:
  assumes "main_init rc addrs (blank_locals, blank_peer) = Some st"
  shows "NEIGHBORS (snd st) = Null" "POTENTIAL (snd st) = Null"
  using assms main_init_trees [of rc addrs blank_locals blank_peer st] by (simp_all add: blank_peer_def)

theorem main_loop_safe_witness:
  "\<exists>st st'. main_init 0 [blank_address] (blank_locals, blank_peer) = Some st \<and> main_iter idle st = Some st' \<and> main_ok st'"
proof -
  obtain st where "main_init 0 [blank_address] (blank_locals, blank_peer) = Some st" "reachable st"
    by (rule blank_init)
  then show ?thesis using main_loop_safe [OF _ idle_admissible, of st] blank_alone by blast
qed

text \<open>
  C3: every datagram a reachable peer has handed to \<open>sendto\<close> is at most \<open>PMTU\<close> bytes long,
  starts with the magic number and the version, carries the length of its body in network
  byte order, and its body is a sequence of complete TLVs, each of a length its handler can cope with
  (\<open>tlv_ok\<close>: data from 13 to 127 bytes, go-aways of one byte or more).
\<close>

theorem datagrams_well_formed:
  assumes "reachable st" "(a, bs) \<in> set (sent (snd st))"
  shows "length bs \<le> 1232 \<and> take 2 bs = [93, 2] \<and>
    unat (ntohs (le_word (take 2 (drop 2 bs)))) + 4 = length bs \<and>
    (\<exists>ts. parse_tlvs (drop 4 bs) = Some ts \<and> (\<forall>(ty, v)\<in>set ts. tlv_ok ty (of_nat (length v))))"
proof -
  have "peer_ok (snd st)" using reachable_ok [OF assms(1)] by (simp add: main_ok_def)
  then have g: "good_packet bs" using assms(2) by (force simp: peer_ok_def)
  let ?p = "drop 4 bs"
  have bs: "bs = [93, 2] @ le_bytes 2 (htons (of_nat (length ?p))) @ ?p"
    using g by (simp only: good_packet_def packet_def)
  have l: "4 \<le> length bs" "length bs \<le> 1232" using g by (simp_all add: good_packet_def PMTU_def)
  have "take 2 (drop 2 bs) = le_bytes 2 (htons (of_nat (length ?p) :: u16))"
    by (subst bs) simp
  moreover have "unat (of_nat (length ?p) :: u16) = length ?p"
    using l by (intro unat_of_nat_u16) simp
  moreover have "take 2 bs = [93, 2]" by (subst bs) simp
  ultimately show ?thesis
    using g l by (simp add: le_word_le_bytes good_packet_def complete_def)
qed

theorem datagrams_well_formed_witness:
  "parse_tlvs (drop 4 [93, 2, 0, 10, 2, 8, 7, 7, 7, 7, 7, 7, 7, 7]) \<noteq> None"
proof -
  obtain st where st: "main_init 0 [blank_address] (blank_locals, blank_peer) = Some st" "reachable st"
    by (rule blank_init)
  then show ?thesis
    using datagrams_well_formed [of st blank_address "[93, 2, 0, 10, 2, 8, 7, 7, 7, 7, 7, 7, 7, 7]"]
      blank_first by simp
qed

text \<open>
  C10: in a reachable state at most 100 recent data are kept, each once, all of them stored and
  none besides, no two under the same index; the
  two trees are ordered; and every neighbour a datum is still to be sent to is a node of the
  tree of neighbours, so no pointer of the flooding lists dangles.
\<close>

theorem reachable_no_dangling:
  assumes "reachable st"
  shows "length (contents (DATAF (snd st))) \<le> 100 \<and> distinct (contents (DATAF (snd st))) \<and>
    set (contents (DATAF (snd st))) = Some ` dom (floods (snd st)) \<and>
    (\<forall>a b f g. floods (snd st) a = Some f \<and> floods (snd st) b = Some g \<and> flood_index f = flood_index g \<longrightarrow> a = b) \<and>
    bst (NEIGHBORS (snd st)) \<and> bst (POTENTIAL (snd st)) \<and>
    (\<forall>a f x. floods (snd st) a = Some f \<and> x \<in> set (contents (sym_neighbors f)) \<longrightarrow>
       (\<exists>n. deref (live (snd st)) (sym x) = Some n \<and> nkey n \<in> set (tree_keys (NEIGHBORS (snd st)))))"
proof -
  have ok: "peer_ok (snd st)" using reachable_ok [OF assms] by (simp add: main_ok_def)
  then have t: "bst (NEIGHBORS (snd st))" "bst (POTENTIAL (snd st))" and f: "floods_ok (snd st)"
    by (simp_all add: peer_ok_def trees_ok_def)
  have "\<exists>n. deref (live (snd st)) (sym x) = Some n \<and> nkey n \<in> set (tree_keys (NEIGHBORS (snd st)))"
    if "floods (snd st) a = Some g" "x \<in> set (contents (sym_neighbors g))" for a g x
  proof -
    have "flood_ok (NEIGHBORS (snd st)) (next_addr (snd st)) g"
      using f that(1) by (auto simp: floods_ok_def dest: table_okD(2))
    then have p: "points_to (NEIGHBORS (snd st)) (sym x)"
      using that(2) by (force simp: flood_ok_def nodes_ok_def contents_def)
    obtain n where "deref (live (snd st)) (sym x) = Some n" "pkey (sym x) = nkey n"
      using points_to_deref [OF alive_live t(1) p] by blast
    moreover have "pkey (sym x) \<in> set (tree_keys (NEIGHBORS (snd st)))"
      using p by (force simp: points_to_def tree_keys_def)
    ultimately show ?thesis by auto
  qed
  moreover have "length (contents (DATAF (snd st))) \<le> 100" "distinct (contents (DATAF (snd st)))"
    "set (contents (DATAF (snd st))) = Some ` dom (floods (snd st))"
  proof -
    obtain as where as: "contents (DATAF (snd st)) = map Some as" "distinct as" "set as = dom (floods (snd st))"
      "length (contents (DATAF (snd st))) \<le> 100"
      using f unfolding floods_ok_def queue_ok_def by blast
    show "length (contents (DATAF (snd st))) \<le> 100" by (rule as(4))
    show "distinct (contents (DATAF (snd st)))" "set (contents (DATAF (snd st))) = Some ` dom (floods (snd st))"
      unfolding as(1) using as(2,3) by (simp_all add: distinct_map)
  qed
  moreover have "table_ok (NEIGHBORS (snd st)) (next_addr (snd st)) (floods (snd st))"
    using f by (simp add: floods_ok_def)
  note table_okD(3) [OF this]
  ultimately show ?thesis using t by blast
qed

theorem reachable_no_dangling_witness:
  "\<exists>st. main_init 0 [blank_address] (blank_locals, blank_peer) = Some st \<and> bst (NEIGHBORS (snd st))"
proof -
  obtain st where "main_init 0 [blank_address] (blank_locals, blank_peer) = Some st" "reachable st"
    by (rule blank_init)
  then show ?thesis using reachable_no_dangling [of st] by blast
qed

section \<open>Sending\<close>

lemma some_entries: "entries (NEIGHBORS one_neighbor) = [(2, some_neighbor, some_ident)]"
  by (simp add: one_neighbor_def)

lemma peer_ok_trees:
  assumes "peer_ok s"
  shows "bst (NEIGHBORS s)" "distinct (buffers (NEIGHBORS s))"
  using assms by (simp_all add: peer_ok_def trees_ok_def)

text \<open>
  C11: messages composed for a neighbour reach it in order: when a list of them is handed to
  \<open>send_message\<close> and the buffers are then flushed, the bytes delivered to that neighbour are
  those delivered before, those waiting in its buffer and the bodies of the messages, whatever
  datagrams they were cut into, and nothing is left waiting.
\<close>

theorem messages_in_order:
  assumes "peer_ok s" "(a, k, v) \<in> set (entries (NEIGHBORS s))" "\<forall>m\<in>set ms. good_msg m"
  shows "\<exists>s1 rc s2. send_all compose_for ms k s = Some s1 \<and>
    send_to_everyone_now (NEIGHBORS s) s1 = Some (rc, s2) \<and> waiting k s2 = [] \<and>
    delivered k s2 = delivered k s @ waiting k s @ concat (map pending ms)"
proof -
  note t = peer_ok_trees [OF assms(1)] peer_ok_sendable(1) [OF assms(1)]
  have k: "sendable s k" using t(3) assms(2) by (auto simp: all_sendable_def)
  obtain s1 where 1: "send_all compose_for ms k s = Some s1" "stream k s1 = stream k s @ concat (map pending ms)"
    using mailbox.put_all [OF assms(3) k] by blast
  have "all_sendable s1 (NEIGHBORS s)" by (rule all_sendable_step [OF send_all_step [OF assms(3) k 1(1)] t(3)])
  from flush_delivers [OF this t(2,1)] obtain rc s2 where
    "send_to_everyone_now (NEIGHBORS s) s1 = Some (rc, s2)" "waiting k s2 = []" "delivered k s2 = stream k s1"
    using assms(2) by force
  then show ?thesis using 1 by (simp add: stream_def)
qed

theorem messages_in_order_witness:
  "\<exists>s1 rc s2. send_all compose_for [some_message] some_neighbor one_neighbor = Some s1 \<and>
    send_to_everyone_now (NEIGHBORS one_neighbor) s1 = Some (rc, s2) \<and> waiting some_neighbor s2 = []"
  using messages_in_order [OF one_neighbor_ok, of 2 some_neighbor some_ident "[some_message]"]
  by (auto simp: some_entries some_message_ok)

text \<open>
  C28: leaving (\<open>disconnect\<close>, on an interrupt) appends a go-away TLV with code 1 and the parting
  text to what every neighbour is sent, and delivers all of it.
\<close>

theorem disconnect_notifies:
  assumes ok: "peer_ok s" and e: "(a, k, v) \<in> set (entries (NEIGHBORS s))"
  shows "\<exists>s'. disconnect s = Some s' \<and> waiting k s' = [] \<and>
    delivered k s' = delivered k s @ waiting k s @ encode_tlv 6 (1 # disconnect_text)"
proof -
  note t = peer_ok_trees [OF ok] peer_ok_sendable(1) [OF ok]
  obtain b where b: "tlv_goaway (fresh_body s) 0 body_room 1 disconnect_text 20 = Some (23, b)"
    "good_msg (compose s b 23)" "body_size (compose s b 23) = 23"
    "pending (compose s b 23) = encode_tlv 6 (1 # disconnect_text)"
    using goaway_message [of 20 disconnect_text s 1] by (auto simp: disconnect_text_def simp del: body_room_eq)
  obtain s1 where 1: "send_to_everyone (compose s b 23) 27 (NEIGHBORS s) s = Some (number_of_neighbors (NEIGHBORS s), s1)"
    "net_step s s1" "stream k s1 = stream k s @ encode_tlv 6 (1 # disconnect_text)"
    using send_to_everyone_stream [OF b(2), of 27 s "NEIGHBORS s"] t b(3,4) e by force
  have n: "NEIGHBORS s1 = NEIGHBORS s" by (rule net_step_peer [OF 1(2)])
  from flush_delivers [OF all_sendable_step [OF 1(2) t(3)] t(2,1)] obtain rc s2 where
    2: "send_to_everyone_now (NEIGHBORS s) s1 = Some (rc, s2)" "waiting k s2 = []" "delivered k s2 = stream k s1"
    using e by force
  have "unat (word_of_int 23 :: u16) + 4 = 27" by simp
  then have "disconnect s = Some s2"
    using b(1) 1(1) 2(1) n by (simp add: disconnect_def Let_def del: body_room_eq)
  then show ?thesis using 1(3) 2(2,3) by (simp add: stream_def)
qed

theorem disconnect_notifies_witness:
  "\<exists>s'. disconnect one_neighbor = Some s' \<and>
    delivered some_neighbor s' = [6, 21, 1] @ disconnect_text"
proof -
  have "(2, some_neighbor, some_ident) \<in> set (entries (NEIGHBORS one_neighbor))" by (simp add: some_entries)
  then obtain s' where s': "disconnect one_neighbor = Some s'"
    "delivered some_neighbor s' = delivered some_neighbor one_neighbor @ waiting some_neighbor one_neighbor @
      encode_tlv 6 (1 # disconnect_text)"
    using disconnect_notifies [OF one_neighbor_ok] by blast
  have "delivered some_neighbor one_neighbor = []" "waiting some_neighbor one_neighbor = []"
    by (simp_all add: delivered_def waiting_def one_neighbor_def blank_peer_def some_neighbor_def some_message_def pending_def)
  then show ?thesis using s' by (simp add: encode_tlv_def disconnect_text_def)
qed

text \<open>
  Converting a socket address to a neighbour and back keeps the address and the port; the
  scope of a link-local address is lost.
\<close>

lemma sockaddr_roundtrip:
  "neighbor_to_sockaddr6 (sockaddr6_to_neighbor a) =
     a\<lparr>sin6_family := AF_INET6, sin6_flowinfo := 0, sin6_scope_id := 0\<rparr>"
  by (cases a) (simp add: neighbor_to_sockaddr6_def sockaddr6_to_neighbor_def)

section \<open>Maintenance\<close>

text \<open>
  C17: what the periodic work of the loop leaves when the readings of the clock it makes all give
  \<open>c\<close>.  The neighbours are exactly those heard of in the last 120 seconds, in their order, and so
  are the potential neighbours; \<open>NB_SYMETRICAL\<close> counts the neighbours whose last long hello was
  less than 120 seconds ago, before the others were dropped; the next round is due in 30 seconds.
  When the symmetric neighbours are at most ten (\<open>MIN_SYM\<close>), every potential neighbour that
  is left was sent a short hello; a comment in \<open>main.c\<close> and the report ask for that with fewer
  than eight.
\<close>

theorem periodic_maintains:
  assumes ok: "peer_ok s"
  shows "\<exists>s' t. periodic (l, s) = Some (l\<lparr>NEXTHELLO := t + 30\<rparr>, s') \<and> peer_ok s' \<and>
    (\<forall>c. clock_reads c s s' \<longrightarrow> t = c \<and>
    entries (NEIGHBORS s') = filter (\<lambda>(a, k, v). c - last_hello v \<le> 120) (entries (NEIGHBORS s)) \<and>
    entries (POTENTIAL s') = filter (\<lambda>(a, k, v). c - last_hello v \<le> 120) (entries (POTENTIAL s)) \<and>
    NB_SYMETRICAL s' = int (length (filter (\<lambda>(a, k, v). c - last_hello_long v < 120) (entries (NEIGHBORS s)))) \<and>
    (NB_SYMETRICAL s' \<le> 10 \<longrightarrow> (\<forall>(a, k, v)\<in>set (entries (POTENTIAL s')).
       (neighbor_to_sockaddr6 k, packet (encode_tlv 2 (le_bytes 8 (ID s')))) \<in> set (sent s'))))"
  using periodic_spec [OF ok, of l] unfolding maintained_def greeted_def TIMEHELLO_def by blast

definition silent_neighbor :: peer where
  "silent_neighbor = one_neighbor\<lparr>clock := \<lambda>_. 300\<rparr>"

lemma silent_neighbor_ok: "peer_ok silent_neighbor"
proof -
  have "env_ok silent_neighbor"
    using peer_ok_parts(1) [OF one_neighbor_ok]
    by (simp add: env_ok_def malloc_ok_def rand_ok_def clock_ok_def silent_neighbor_def)
  moreover have "trees_ok silent_neighbor" "floods_ok silent_neighbor"
    using peer_ok_parts(2,3) [OF one_neighbor_ok]
    by (simp_all add: silent_neighbor_def trees_ok_def floods_ok_def live_def)
  moreover have "sent silent_neighbor = []" by (simp add: silent_neighbor_def one_neighbor_def blank_peer_def)
  ultimately show ?thesis by (simp add: peer_ok_def)
qed

theorem periodic_maintains_witness:
  "\<exists>s'. periodic (blank_locals, silent_neighbor) = Some (blank_locals\<lparr>NEXTHELLO := 330\<rparr>, s') \<and>
     length (entries (NEIGHBORS silent_neighbor)) = 1 \<and> entries (NEIGHBORS s') = [] \<and> NB_SYMETRICAL s' = 0"
proof -
  have "clock_reads 300 silent_neighbor u" "entries (NEIGHBORS silent_neighbor) = [(2, some_neighbor, some_ident)]" for u
    by (simp_all add: silent_neighbor_def one_neighbor_def clock_reads_def)
  then show ?thesis
    using periodic_maintains [OF silent_neighbor_ok, of blank_locals] by (fastforce simp: some_ident_def)
qed

text \<open>
  C18: every neighbour is told of the symmetric ones.  What \<open>send_symetrical_everyone\<close> appends to the
  bytes a neighbour is sent is one neighbour TLV, with address and port, for each neighbour whose
  last long hello was less than 120 seconds ago, in the order of the tree, none lost and none
  doubled where one message was full and the next was begun.
\<close>

theorem neighbours_announced:
  assumes ok: "peer_ok s" and c: "\<forall>i. clock s i = c" and e: "(a, k, v) \<in> set (entries (NEIGHBORS s))"
  shows "\<exists>rc s'. send_symetrical_everyone (NEIGHBORS s) s = Some (rc, s') \<and> peer_ok s' \<and>
    stream k s' = stream k s @ concat (map (\<lambda>(_, n, _). encode_tlv 3 (ip n @ le_bytes 2 (htons (port n))))
      (filter (\<lambda>(_, _, v). c - last_hello_long v < 120) (entries (NEIGHBORS s))))"
proof -
  note t = peer_ok_trees [OF ok] peer_ok_sendable(1) [OF ok] and en = peer_ok_parts(1) [OF ok]
  obtain rc s' l s1 n tk where r: "send_symetrical_everyone (NEIGHBORS s) s = Some (rc, s')" "peer_ok s'"
    "get_symmetrical (NEIGHBORS s) s = Some (Some l, s1)" "s1 = s\<lparr>next_addr := n, ticks := tk\<rparr>"
    "announced (NEIGHBORS s) s1 s' (contents l)"
    using send_symetrical_everyone_spec [OF ok t(3)] by blast
  from r(5) obtain ms ms2 u where g: "\<forall>x\<in>set (ms @ ms2). good_msg x"
    "concat (map pending (ms @ ms2)) = concat (map (announcement \<circ> target \<circ> sym) (contents l))"
    "send_batches ms (NEIGHBORS s) s1 = Some u" "send_batches ms2 (NEIGHBORS s) (u\<lparr>NB_SYMETRICAL := int (length (contents l))\<rparr>) = Some s'"
    unfolding announced_def by blast
  let ?u = "u\<lparr>NB_SYMETRICAL := int (length (contents l))\<rparr>"
  have "all_sendable s1 (NEIGHBORS s)" using t(3) by (auto simp: r(4) all_sendable_def sendable_def)
  then have "all_sendable u (NEIGHBORS s)" "stream k u = stream k s1 @ concat (map pending ms)"
    using send_batches_stream [of ms s1 "NEIGHBORS s"] g(1,3) t(1,2) e by force+
  moreover from this have "all_sendable ?u (NEIGHBORS s)" by (auto simp: all_sendable_def sendable_def)
  then have "stream k s' = stream k ?u @ concat (map pending ms2)"
    using send_batches_stream [of ms2 ?u "NEIGHBORS s"] g(1,4) t(1,2) e by force
  moreover have "stream k ?u = stream k u" "stream k s1 = stream k s"
    by (simp_all add: stream_def delivered_def waiting_def r(4) split: option.split)
  ultimately have st: "stream k s' = stream k s @ concat (map (announcement \<circ> target \<circ> sym) (contents l))"
    using g(2) by simp
  have sy: "map sym (contents l) = map entry_ptr (filter (\<lambda>(a, k, v). c - last_hello_long v < 120) (entries (NEIGHBORS s)))"
    by (rule find_symmetrical [OF en r(3) [unfolded get_symmetrical_def]]) (simp add: clock_reads_def c)
  have "map (announcement \<circ> target \<circ> sym) (contents l) = map (announcement \<circ> target) (map sym (contents l))" by simp
  also have "\<dots> = map (\<lambda>(_, n, _). encode_tlv 3 (ip n @ le_bytes 2 (htons (port n))))
      (filter (\<lambda>(_, _, v). c - last_hello_long v < 120) (entries (NEIGHBORS s)))"
    unfolding sy by (simp add: announcement_def split_def)
  finally show ?thesis using r(1,2) st by auto
qed

theorem neighbours_announced_witness:
  "\<exists>rc s'. send_symetrical_everyone (NEIGHBORS one_neighbor) one_neighbor = Some (rc, s') \<and>
    stream some_neighbor s' = stream some_neighbor one_neighbor @ [3, 18] @ replicate 16 1 @ [4, 188]"
proof -
  have "(2, some_neighbor, some_ident) \<in> set (entries (NEIGHBORS one_neighbor))" "\<forall>i. clock one_neighbor i = 200"
    by (simp_all add: one_neighbor_def blank_peer_def)
  moreover have "concat (map (\<lambda>(_, n, _). encode_tlv 3 (ip n @ le_bytes 2 (htons (port n))))
      (filter (\<lambda>(_, _, v). 200 - last_hello_long v < 120) (entries (NEIGHBORS one_neighbor)))) = [3, 18] @ replicate 16 1 @ [4, 188]"
    by code_simp
  ultimately show ?thesis using neighbours_announced [OF one_neighbor_ok, of 200 2 some_neighbor some_ident] by auto
qed

section \<open>Flooding\<close>

text \<open>
  C12: a flooding pass over a datum returns, keeps the invariant of the peer, and leaves no
  transmission overdue: every neighbour still listed is either as before, or was due, got the
  datum once more and waits between \<open>2\<^sup>n\<close> and \<open>2\<^sup>n\<^sup>+\<^sup>1\<close> seconds after its \<open>n+1\<close>-th transmission; a neighbour
  leaves the list only when it had five transmissions, or was due for the fifth.
\<close>

theorem flood_pass_returns:
  assumes "peer_ok s" "floods s fl = Some f"
  shows "\<exists>s' f'. flood_message_to_neighbours (Some fl) s = Some s' \<and> peer_ok s' \<and> floods s' fl = Some f' \<and>
    flood_data f' = flood_data f \<and>
    (\<forall>x\<in>set (contents (sym_neighbors f')). clock s (ticks s) < wait_until x \<and>
       (\<exists>y\<in>set (contents (sym_neighbors f)). x = y \<or>
          sym x = sym y \<and> wait_until y \<le> clock s (ticks s) \<and> times_sent x = times_sent y + 1 \<and>
          clock s (ticks s) + 2 ^ nat (times_sent y) \<le> wait_until x \<and>
          wait_until x < clock s (ticks s) + 2 * 2 ^ nat (times_sent y))) \<and>
    (\<forall>y\<in>set (contents (sym_neighbors f)). (\<exists>x\<in>set (contents (sym_neighbors f')). sym x = sym y) \<or>
       times_sent y = 5 \<or> times_sent y = 4 \<and> wait_until y \<le> clock s (ticks s))"
proof -
  let ?c = "clock s (ticks s)"
  obtain s' f' where r: "flood_message_to_neighbours (Some fl) s = Some s'" "peer_ok s'" "floods s' fl = Some f'"
    "flood_data f' = flood_data f" "pass ?c (listed f) (listed f')" "\<forall>x\<in>listed f'. ?c < wait_until x"
    using flood_message_to_neighbours_spec [OF assms] unfolding pass_result_def by blast
  have "\<exists>y\<in>listed f. x = y \<or> sym x = sym y \<and> wait_until y \<le> ?c \<and> times_sent x = times_sent y + 1 \<and>
      ?c + 2 ^ nat (times_sent y) \<le> wait_until x \<and> wait_until x < ?c + 2 * 2 ^ nat (times_sent y)"
    if "x \<in> listed f'" for x
    using r(5) that unfolding pass_def advanced_def by blast
  moreover have "(\<exists>x\<in>listed f'. sym x = sym y) \<or> times_sent y = 5 \<or> times_sent y = 4 \<and> wait_until y \<le> ?c"
    if "y \<in> listed f" for y
    using r(5) that unfolding pass_def advanced_def gave_up_def by metis
  ultimately show ?thesis using r by blast
qed

theorem flood_pass_returns_witness:
  "\<exists>s' f'. flood_message_to_neighbours (Some 5) one_neighbor = Some s' \<and> floods s' 5 = Some f' \<and>
    (\<forall>x\<in>set (contents (sym_neighbors f')). 200 < wait_until x)"
proof -
  have "floods one_neighbor 5 = Some some_flood" "clock one_neighbor (ticks one_neighbor) = 200"
    by (simp_all add: one_neighbor_def blank_peer_def)
  then show ?thesis using flood_pass_returns [OF one_neighbor_ok, of 5 some_flood] by auto
qed

end
