(* ===== verification/Quiescence.thy ===== *)
theory Quiescence
  imports Sample
begin

text \<open>
  Flooding comes to an end: what becomes of data nobody acknowledges, over several rounds of
  \<open>flood_messages\<close>.
\<close>

section \<open>Rounds\<close>

fun flood_rounds :: "nat \<Rightarrow> 'z peer_scheme \<Rightarrow> 'z peer_scheme option" where
  "flood_rounds 0 s = Some s"
| "flood_rounds (Suc n) s = do { s1 \<leftarrow> flood_messages s; flood_rounds n s1 }"

text \<open>The neighbours a datum waits for got it \<open>n\<close> times or more, and are due at \<open>t\<close> or before.\<close>

definition due_by :: "int \<Rightarrow> nat \<Rightarrow> 'z peer_scheme \<Rightarrow> addr \<Rightarrow> bool" where
  "due_by t n s a \<longleftrightarrow> (\<forall>f x. floods s a = Some f \<longrightarrow> x \<in> listed f \<longrightarrow> int n \<le> times_sent x \<and> wait_until x \<le> t)"

lemma due_by_shrinks:
  assumes "due_by t n s a" "shrinks A s s'" "a \<notin> A"
  shows "due_by t n s' a"
  using assms unfolding due_by_def shrinks_def by blast

lemma pass_due:
  assumes ok: "peer_ok s" and f: "floods s fl = Some f" and d: "due_by (clock s (ticks s)) n s fl"
  shows "\<exists>s'. flood_message_to_neighbours (Some fl) s = Some s' \<and> peer_ok s' \<and> followed s s' \<and> shrinks {fl} s s' \<and>
    due_by (clock s (ticks s) + 32) (Suc n) s' fl \<and> clock s' = clock s \<and> ticks s' = Suc (ticks s) \<and>
    dom (floods s') = dom (floods s) \<and> DATAF s' = DATAF s"
proof -
  let ?c = "clock s (ticks s)" and ?s1 = "s\<lparr>ticks := Suc (ticks s)\<rparr>"
  obtain s' f' where r: "flood_message_to_neighbours (Some fl) s = Some s'" "peer_ok s'" "flood_frame ?s1 s'"
    "followed ?s1 s'" "shrinks {fl} ?s1 s'" "floods s' fl = Some f'" "pass ?c (listed f) (listed f')"
    "\<forall>x\<in>listed f'. ?c < wait_until x"
    using flood_message_to_neighbours_spec [OF ok f] unfolding pass_result_def by blast
  have "followed s ?s1" "shrinks {} s ?s1" by (rule followed_same; simp)+
  then have fo: "followed s s'" "shrinks {fl} s s'"
    using followed_trans r(4) shrinks_trans [of "{}" s ?s1 "{fl}" s'] r(5) by (blast, simp)
  have "int (Suc n) \<le> times_sent x \<and> wait_until x \<le> ?c + 32" if x: "x \<in> listed f'" for x
  proof -
    obtain y where y: "y \<in> listed f" "advanced ?c y x" using r(7) x unfolding pass_def by blast
    have yd: "int n \<le> times_sent y" "wait_until y \<le> ?c" using d f y(1) unfolding due_by_def by blast+
    have "x \<noteq> y" using r(8) x yd(2) by auto
    then have a: "times_sent y < 5" "times_sent x = times_sent y + 1" "wait_until x < ?c + 2 * 2 ^ nat (times_sent y)"
      using y(2) unfolding advanced_def by blast+
    have "(2::int) ^ nat (times_sent y) \<le> 2 ^ 4" using a(1) by (intro power_increasing) auto
    then show ?thesis using a yd(1) by simp
  qed
  then have "due_by (?c + 32) (Suc n) s' fl" using r(6) unfolding due_by_def by auto
  moreover have "clock s' = clock s \<and> ticks s' = Suc (ticks s) \<and> DATAF s' = DATAF s \<and> dom (floods s') = dom (floods s)"
  proof -
    have "clock (?s1\<lparr>next_addr := next_addr s', rnds := rnds s', msgs := msgs s', sent := sent s',
        NEIGHBORS := NEIGHBORS s', floods := floods s', NEXTTIME := NEXTTIME s'\<rparr>) = clock s'"
      "ticks (?s1\<lparr>next_addr := next_addr s', rnds := rnds s', msgs := msgs s', sent := sent s',
        NEIGHBORS := NEIGHBORS s', floods := floods s', NEXTTIME := NEXTTIME s'\<rparr>) = ticks s'"
      "DATAF (?s1\<lparr>next_addr := next_addr s', rnds := rnds s', msgs := msgs s', sent := sent s',
        NEIGHBORS := NEIGHBORS s', floods := floods s', NEXTTIME := NEXTTIME s'\<rparr>) = DATAF s'"
      using r(3) by (simp_all only: flood_frame_def)
    then show ?thesis using r(3) by (simp add: flood_frame_def)
  qed
  ultimately show ?thesis using r(1,2) fo by blast
qed

lemma round_due:
  assumes "peer_ok s" "set as \<subseteq> dom (floods s)" "distinct as"
    and "\<forall>j<length as. due_by (clock s (ticks s + j)) n s (as ! j)"
  shows "\<exists>s'. flood_messages_loop (map Some as) s = Some s' \<and> peer_ok s' \<and> followed s s' \<and> shrinks (set as) s s' \<and>
    (\<forall>j<length as. due_by (clock s (ticks s + j) + 32) (Suc n) s' (as ! j)) \<and>
    clock s' = clock s \<and> ticks s' = ticks s + length as \<and> dom (floods s') = dom (floods s) \<and> DATAF s' = DATAF s"
  using assms
proof (induction as arbitrary: s)
  case (Cons a as)
  obtain f where f: "floods s a = Some f" using Cons.prems(2) by auto
  have "due_by (clock s (ticks s)) n s a" using Cons.prems(4) by force
  from pass_due [OF Cons.prems(1) f this] obtain s1 where
    1: "flood_message_to_neighbours (Some a) s = Some s1" "peer_ok s1" "followed s s1" "shrinks {a} s s1"
      "due_by (clock s (ticks s) + 32) (Suc n) s1 a" "clock s1 = clock s" "ticks s1 = Suc (ticks s)"
      "dom (floods s1) = dom (floods s)" "DATAF s1 = DATAF s" by blast
  have "due_by (clock s1 (ticks s1 + j)) n s1 (as ! j)" if j: "j < length as" for j
  proof -
    have "due_by (clock s (ticks s + Suc j)) n s (as ! j)" using Cons.prems(4) j by force
    moreover have "as ! j \<notin> {a}" using Cons.prems(3) j by auto
    ultimately show ?thesis using due_by_shrinks [OF _ 1(4)] 1(6,7) by simp
  qed
  then obtain s2 where 2: "flood_messages_loop (map Some as) s1 = Some s2" "peer_ok s2" "followed s1 s2" "shrinks (set as) s1 s2"
    "\<forall>j<length as. due_by (clock s1 (ticks s1 + j) + 32) (Suc n) s2 (as ! j)" "clock s2 = clock s1"
    "ticks s2 = ticks s1 + length as" "dom (floods s2) = dom (floods s1)" "DATAF s2 = DATAF s1"
    using Cons.IH [OF 1(2)] Cons.prems(2,3) 1(8) by auto
  have "due_by (clock s (ticks s + j) + 32) (Suc n) s2 ((a # as) ! j)" if j: "j < length (a # as)" for j
  proof (cases j)
    case 0
    then show ?thesis using due_by_shrinks [OF 1(5) 2(4)] Cons.prems(3) by simp
  next
    case (Suc i)
    then show ?thesis using 2(5) j 1(6,7) by simp
  qed
  moreover have "shrinks (set (a # as)) s s2" using shrinks_trans [OF 1(4) 2(4)] by simp
  moreover have "flood_messages_loop (map Some (a # as)) s = Some s2" using 1(1) 2(1) by simp
  ultimately show ?case using 2(2,6-9) 1(6-9) followed_trans [OF 1(3) 2(3)] by auto
qed simp

text \<open>
  Rounds that are far enough apart: between two readings of the clock for the same datum, \<open>m\<close>
  readings apart, at least 32 seconds go by, the longest wait after a transmission.
\<close>

definition spaced :: "nat \<Rightarrow> nat \<Rightarrow> 'z peer_scheme \<Rightarrow> bool" where
  "spaced n m s \<longleftrightarrow> (\<forall>i. ticks s \<le> i \<longrightarrow> i < ticks s + n * m \<longrightarrow> clock s i + 32 \<le> clock s (i + m))"

lemma rounds_due:
  assumes "peer_ok s" "contents (DATAF s) = map Some as" "set as = dom (floods s)" "distinct as" "spaced n (length as) s"
    and "\<forall>j<length as. due_by (clock s (ticks s + j)) k s (as ! j)"
  shows "\<exists>s'. flood_rounds (Suc n) s = Some s' \<and> peer_ok s' \<and> followed s s' \<and> contents (DATAF s') = map Some as \<and>
    dom (floods s') = set as \<and> (\<forall>a\<in>set as. \<exists>t. due_by t (Suc n + k) s' a)"
  using assms
proof (induction n arbitrary: s k)
  case 0
  obtain s' where r: "flood_messages_loop (map Some as) s = Some s'" "peer_ok s'" "followed s s'"
    "\<forall>j<length as. due_by (clock s (ticks s + j) + 32) (Suc k) s' (as ! j)" "dom (floods s') = dom (floods s)" "DATAF s' = DATAF s"
    using round_due [OF 0(1) _ 0(4,6)] 0(3) by auto
  have "\<forall>a\<in>set as. \<exists>t. due_by t (Suc k) s' a" using r(4) by (metis in_set_conv_nth)
  then show ?case using r 0(2,3) by (simp add: flood_messages_def)
next
  case (Suc n)
  obtain s1 where 1: "flood_messages_loop (map Some as) s = Some s1" "peer_ok s1" "followed s s1"
    "\<forall>j<length as. due_by (clock s (ticks s + j) + 32) (Suc k) s1 (as ! j)"
    "clock s1 = clock s" "ticks s1 = ticks s + length as" "dom (floods s1) = dom (floods s)" "DATAF s1 = DATAF s"
    using round_due [OF Suc.prems(1) _ Suc.prems(4,6)] Suc.prems(3) by auto
  have sp: "clock s i + 32 \<le> clock s (i + length as)" if "ticks s \<le> i" "i < ticks s + Suc n * length as" for i
    using Suc.prems(5) that by (simp add: spaced_def)
  have "due_by (clock s1 (ticks s1 + j)) (Suc k) s1 (as ! j)" if j: "j < length as" for j
  proof -
    have "clock s (ticks s + j) + 32 \<le> clock s (ticks s + j + length as)" using j by (intro sp) auto
    then have "clock s (ticks s + j) + 32 \<le> clock s1 (ticks s1 + j)" unfolding 1(5,6) by (simp add: ac_simps)
    then show ?thesis using 1(4) j unfolding due_by_def by (meson order_trans)
  qed
  moreover have "spaced n (length as) s1"
    unfolding spaced_def 1(5,6) using sp by simp
  ultimately obtain s' where "flood_rounds (Suc n) s1 = Some s'" "peer_ok s'" "followed s1 s'" "contents (DATAF s') = map Some as"
    "dom (floods s') = set as" "\<forall>a\<in>set as. \<exists>t. due_by t (Suc n + Suc k) s' a"
    using Suc.IH [OF 1(2), of "Suc k"] Suc.prems(2-4) 1(7,8) by auto
  moreover have "flood_rounds (Suc (Suc n)) s = flood_rounds (Suc n) s1"
    using 1(1) Suc.prems(2) by (simp add: flood_messages_def)
  ultimately show ?case using followed_trans [OF 1(3)] by auto
qed

lemma never_six:
  assumes "peer_ok s" "floods s a = Some f" "due_by t 6 s a"
  shows "listed f = {}"
proof -
  have "flood_ok (NEIGHBORS s) (next_addr s) f"
    using assms(1,2) by (auto simp: peer_ok_def floods_ok_def dest: table_okD(2))
  then have "times_sent x \<le> 5" if "x \<in> listed f" for x
    using that by (auto simp: flood_ok_def nodes_ok_def listed_nodes)
  moreover have "6 \<le> times_sent x" if "x \<in> listed f" for x using assms(2,3) that by (simp add: due_by_def)
  ultimately have "False" if "x \<in> listed f" for x using that by force
  then show ?thesis by (meson equals0I)
qed

section \<open>Silence\<close>

lemma flood_loop_nobody:
  assumes "env_ok s" "\<forall>a\<in>set as. \<exists>f. floods s a = Some f \<and> contents (sym_neighbors f) = []"
  shows "flood_messages_loop (map Some as) s = Some (s\<lparr>ticks := ticks s + length as\<rparr>)"
  using assms
proof (induction as arbitrary: s)
  case (Cons a as)
  obtain f where f: "floods s a = Some f" "nodes (sym_neighbors f) = []" using Cons.prems(2) by (auto simp: contents_def)
  have "flood_message_to_neighbours (Some a) s = Some (s\<lparr>ticks := Suc (ticks s)\<rparr>)"
    using f env_get_seconds [OF Cons.prems(1)] by (simp add: flood_message_to_neighbours_def flood_loop.simps [of a None])
  moreover have "env_ok (s\<lparr>ticks := Suc (ticks s)\<rparr>)" using Cons.prems(1) by (auto intro: env_ok_cong)
  ultimately show ?case using Cons.IH [of "s\<lparr>ticks := Suc (ticks s)\<rparr>"] Cons.prems(2) by simp
qed simp

text \<open>
  C7: flooding ends.  When nothing is received and the rounds are far enough apart for every
  waiting time to run out, then after six rounds no datum waits for anybody, every neighbour that
  one still waited for is not a neighbour any more, and the next round sends and buffers nothing.
\<close>

theorem flooding_ends:
  assumes ok: "peer_ok s" and sp: "spaced 5 (length (contents (DATAF s))) s"
    and due: "\<And>a f x. floods s a = Some f \<Longrightarrow> x \<in> listed f \<Longrightarrow> wait_until x \<le> clock s (ticks s)"
  shows "\<exists>s'. flood_rounds 6 s = Some s' \<and> peer_ok s' \<and> dom (floods s') = dom (floods s) \<and>
    (\<forall>a f. floods s' a = Some f \<longrightarrow> contents (sym_neighbors f) = []) \<and>
    (\<forall>a f x. floods s a = Some f \<longrightarrow> x \<in> listed f \<longrightarrow> pkey (sym x) \<notin> set (tree_keys (NEIGHBORS s'))) \<and>
    (\<exists>s2. flood_messages s' = Some s2 \<and> sent s2 = sent s' \<and> msgs s2 = msgs s')"
proof -
  obtain as where as: "contents (DATAF s) = map Some as" "set as = dom (floods s)" "distinct as"
    using ok by (auto simp: peer_ok_def floods_ok_def queue_ok_def)
  have ck: "clock s (ticks s) \<le> clock s (ticks s + j)" for j
    using env_okD(3) [OF peer_ok_parts(1) [OF ok]] by (simp add: clock_ok_def)
  have d: "due_by (clock s (ticks s + j)) 0 s (as ! j)" for j
    unfolding due_by_def
  proof (intro allI impI conjI)
    fix f x assume x: "floods s (as ! j) = Some f" "x \<in> listed f"
    have "flood_ok (NEIGHBORS s) (next_addr s) f" using ok x(1) by (auto simp: peer_ok_def floods_ok_def dest: table_okD(2))
    then show "int 0 \<le> times_sent x" using x(2) by (auto simp: flood_ok_def nodes_ok_def listed_nodes)
    show "wait_until x \<le> clock s (ticks s + j)" using due [OF x] ck order_trans by blast
  qed
  have sp5: "spaced 5 (length as) s" using sp as(1) by simp
  obtain s' where r: "flood_rounds 6 s = Some s'" "peer_ok s'" "followed s s'" "contents (DATAF s') = map Some as"
    "dom (floods s') = set as" "\<forall>a\<in>set as. \<exists>t. due_by t 6 s' a"
    using rounds_due [OF ok as sp5, of 0] d by auto
  have e: "listed f = {}" if f: "floods s' a = Some f" for a f
    using never_six [OF r(2) f] r(5,6) f by blast
  have "pkey (sym x) \<notin> set (tree_keys (NEIGHBORS s'))" if x: "floods s a = Some f" "x \<in> listed f" for a f x
  proof
    assume "pkey (sym x) \<in> set (tree_keys (NEIGHBORS s'))"
    from followedD [OF r(3) x this] e show False by auto
  qed
  moreover have "flood_messages s' = Some (s'\<lparr>ticks := ticks s' + length as\<rparr>)"
    unfolding flood_messages_def r(4)
    by (rule flood_loop_nobody [OF peer_ok_parts(1) [OF r(2)]]) (use r(5) e in \<open>force dest: arg_cong [of _ _ set]\<close>)
  ultimately show ?thesis using r(1,2,5) as(2) e by auto
qed

definition deaf_neighbor :: peer where
  "deaf_neighbor = one_neighbor\<lparr>clock := \<lambda>i. 200 + 32 * int (min i 6)\<rparr>"

lemma deaf_neighbor_ok: "peer_ok deaf_neighbor"
proof -
  have "env_ok deaf_neighbor"
    using peer_ok_parts(1) [OF one_neighbor_ok]
    by (auto simp: env_ok_def malloc_ok_def rand_ok_def clock_ok_def deaf_neighbor_def)
  moreover have "trees_ok deaf_neighbor" "floods_ok deaf_neighbor"
    using peer_ok_parts(2,3) [OF one_neighbor_ok]
    by (simp_all add: deaf_neighbor_def trees_ok_def floods_ok_def live_def)
  moreover have "sent deaf_neighbor = []" by (simp add: deaf_neighbor_def one_neighbor_def blank_peer_def)
  ultimately show ?thesis by (simp add: peer_ok_def)
qed

theorem flooding_ends_witness:
  "\<exists>s'. flood_rounds 6 deaf_neighbor = Some s' \<and> nkey some_neighbor \<in> set (tree_keys (NEIGHBORS deaf_neighbor)) \<and>
    nkey some_neighbor \<notin> set (tree_keys (NEIGHBORS s'))"
proof -
  have c: "contents (DATAF deaf_neighbor) = [Some 5]" "ticks deaf_neighbor = 0" "clock deaf_neighbor i = 200 + 32 * int (min i 6)"
    "floods deaf_neighbor a = (if a = 5 then Some some_flood else None)" "contents (sym_neighbors some_flood) = [some_entry]" for i a
    by (simp_all add: deaf_neighbor_def one_neighbor_def blank_peer_def contents_def some_flood_def)
  have "spaced 5 (length (contents (DATAF deaf_neighbor))) deaf_neighbor" by (auto simp: spaced_def c)
  moreover have "wait_until x \<le> clock deaf_neighbor (ticks deaf_neighbor)"
    if "floods deaf_neighbor a = Some f" "x \<in> listed f" for a f x
    using that c by (auto simp: some_entry_def split: if_splits)
  ultimately obtain s' where r: "flood_rounds 6 deaf_neighbor = Some s'"
    "\<forall>a f x. floods deaf_neighbor a = Some f \<longrightarrow> x \<in> listed f \<longrightarrow> pkey (sym x) \<notin> set (tree_keys (NEIGHBORS s'))"
    using flooding_ends [OF deaf_neighbor_ok] by blast
  have "pkey (sym some_entry) \<notin> set (tree_keys (NEIGHBORS s'))" using r(2) [rule_format, of 5 some_flood some_entry] c(4,5) by simp
  then show ?thesis using r(1) by (auto simp: some_entry_def deaf_neighbor_def one_neighbor_def)
qed

end
