(* ===== verification/Flood_Props.thy ===== *)
theory Flood_Props
  imports Sample
begin

text \<open>
  Properties of the flooding lists: filing, removal, and what happens at the limits of the
  retransmission scheme.
\<close>

section \<open>Filing and removing\<close>

text \<open>
  C14: a new datum is stored under its index with its bytes unchanged, as the last of the recent
  data, never sent yet; when 100 were stored already the oldest one goes.  If the clock read
  \<open>c\<close> throughout, its list points to exactly the neighbours whose last long hello was less
  than 120 seconds ago, in the order of the tree, without the one the datum came from.
\<close>

theorem new_datum_filed:
  assumes "peer_ok s" "13 \<le> unat n" "unat n < 128" "unat n \<le> length d"
    and "to = None \<or> to = Some (Local k) \<and> wf_neighbor k"
    and "\<And>a f. floods s a = Some f \<Longrightarrow> flood_index f \<noteq> data_ix d"
  shows "\<exists>s' a f. add_message_to_flood d n to s = Some s' \<and> peer_ok s' \<and> floods s a = None \<and>
    floods s' a = Some f \<and> flood_index f = data_ix d \<and> take (unat n + 2) (flood_data f) = 4 # n # take (unat n) d \<and>
    (\<forall>x\<in>set (contents (sym_neighbors f)). Some (pkey (sym x)) \<noteq> map_option pkey to \<and> times_sent x = 0) \<and>
    (\<forall>c. clock_reads c s s' \<longrightarrow> map sym (contents (sym_neighbors f)) = map entry_ptr
       (filter (\<lambda>(b, k, v). c - last_hello_long v < 120 \<and> Some (nkey k) \<noteq> map_option pkey to) (entries (NEIGHBORS s)))) \<and>
    (contents (DATAF s') = contents (DATAF s) @ [Some a] \<or>
     length (contents (DATAF s)) = 100 \<and> contents (DATAF s') = tl (contents (DATAF s)) @ [Some a])"
proof -
  obtain s' where s': "add_message_to_flood d n to s = Some s'" "peer_ok s'" "filed d n (map_option pkey to) s s'"
    using add_message_to_flood_spec [OF assms(1-5)] assms(6) by blast
  obtain a f where f: "floods s a = None" "floods s' a = Some f" "flood_index f = data_ix d"
    "take (unat n + 2) (flood_data f) = 4 # n # take (unat n) d"
    "\<forall>x\<in>set (contents (sym_neighbors f)). Some (pkey (sym x)) \<noteq> map_option pkey to \<and> times_sent x = 0"
    "\<forall>c. clock_reads c s s' \<longrightarrow> map sym (contents (sym_neighbors f)) = recipients c (map_option pkey to) (NEIGHBORS s)"
    "contents (DATAF s') = contents (DATAF s) @ [Some a] \<or>
     (\<exists>b. contents (DATAF s) @ [Some a] = Some b # contents (DATAF s') \<and> length (contents (DATAF s)) = 100)"
    using s'(3) unfolding filed_def by blast
  have full: "contents (DATAF s') = tl (contents (DATAF s)) @ [Some a]"
    if "contents (DATAF s) @ [Some a] = Some b # contents (DATAF s')" "length (contents (DATAF s)) = 100" for b
    using that by (cases "contents (DATAF s)") auto
  have rec: "recipients c g t = map entry_ptr
       (filter (\<lambda>(b, k, v). c - last_hello_long v < 120 \<and> Some (nkey k) \<noteq> g) (entries t))" for c g t
    by (simp add: recipients_def split_def)
  have "contents (DATAF s') = contents (DATAF s) @ [Some a] \<or>
     length (contents (DATAF s)) = 100 \<and> contents (DATAF s') = tl (contents (DATAF s)) @ [Some a]"
    using full f(7) by blast
  then show ?thesis using s'(1,2) f(1-6) unfolding rec by blast
qed

definition sample_datum :: "u8 list" where
  "sample_datum = le_bytes 8 (1 :: u64) @ le_bytes 4 (2 :: u32) @ [0, 72]"

lemma sample_datum_new: "floods one_neighbor a = Some f \<Longrightarrow> flood_index f \<noteq> data_ix sample_datum"
  by (auto simp: one_neighbor_def some_flood_def some_index_def data_ix_def sample_datum_def le_word_le_bytes
      split: if_splits)

theorem new_datum_filed_witness:
  "\<exists>s' a f. add_message_to_flood sample_datum 14 None one_neighbor = Some s' \<and> floods s' a = Some f \<and>
    take 16 (flood_data f) = 4 # 14 # sample_datum"
proof -
  have "length sample_datum = 14" by (simp add: sample_datum_def)
  then show ?thesis
    using new_datum_filed [OF one_neighbor_ok, of 14 sample_datum None] sample_datum_new by fastforce
qed

text \<open>
  C15: under the invariant, so with waiting times below 32768 seconds and a clock below 32704,
  \<open>remove_neighbor_everywhere\<close> takes a neighbour, and only it, out of the tree of neighbours and
  out of the list of every datum, so that no list points to the key it frees.  (An entry
  whose waiting time is a multiple of 65536 seconds would be taken out in its stead:
  \<open>wrong_neighbour_removed\<close>.)
\<close>

theorem neighbour_removed_everywhere:
  assumes "peer_ok s" "deref (live s) p = Some n" "wf_neighbor n"
  shows "\<exists>s'. remove_neighbor_everywhere p s = Some (1, s') \<and> peer_ok s' \<and>
    entries (NEIGHBORS s') = filter (\<lambda>e. entry_key e \<noteq> nkey n) (entries (NEIGHBORS s)) \<and>
    (\<forall>a f'. floods s' a = Some f' \<longrightarrow> (\<exists>f. floods s a = Some f \<and> flood_data f' = flood_data f \<and>
       contents (sym_neighbors f') = filter (\<lambda>x. pkey (sym x) \<noteq> nkey n) (contents (sym_neighbors f))))"
proof -
  obtain s' where s': "remove_neighbor_everywhere p s = Some (1, s')" "peer_ok s'" "removed_everywhere (nkey n) s s'"
    using remove_neighbor_everywhere_spec [OF assms] by blast
  then show ?thesis using stripped_contents unfolding removed_everywhere_def stripped_def by blast
qed

theorem neighbour_removed_everywhere_witness:
  "\<exists>s'. remove_neighbor_everywhere (Key 2 some_neighbor) one_neighbor = Some (1, s') \<and> entries (NEIGHBORS s') = []"
proof -
  have "deref (live one_neighbor) (Key 2 some_neighbor) = Some some_neighbor"
    by (simp add: live_def one_neighbor_def tree_addrs_def)
  from neighbour_removed_everywhere [OF one_neighbor_ok this some_neighbor_ok]
  show ?thesis by (force simp: one_neighbor_def)
qed

section \<open>The limits of retransmission\<close>

text \<open>
  C29: a datum whose length byte is between 128 and 253 cannot be transmitted: \<open>send_data\<close> reads
  the byte as a signed \<open>char\<close> and copies a negative number of bytes.
\<close>

theorem long_datum_undefined:
  assumes "1 < length tlv" "128 \<le> unat (tlv ! 1)" "unat (tlv ! 1) \<le> 253"
  shows "send_data tlv p s = None"
proof -
  have "signed_char (tlv ! 1) + 2 < 0" using assms(2,3) by (simp add: signed_char_eq del: of_nat_unat)
  then show ?thesis using assms(1) by (simp add: send_data_def peek1_def)
qed

theorem long_datum_undefined_witness:
  "send_data (4 # 128 # replicate 258 0) (Local some_neighbor) one_neighbor = None"
  using long_datum_undefined [of "4 # 128 # replicate 258 0"] by simp

text \<open>
  C33: the go-away composed for a neighbour that did not acknowledge a datum is never sent: it
  goes to the neighbour's buffer, which is freed with the neighbour.
\<close>

theorem silent_goaway:
  assumes ok: "peer_ok s" and e: "(a, n, v) \<in> set (entries (NEIGHBORS s))" "msg n = Some b"
    and room: "length (waiting n s) + 31 \<le> PMTU"
  shows "\<exists>s'. handle_inactive (Key a n) s = Some s' \<and> sent s' = sent s \<and> msgs s' b = None \<and>
    nkey n \<notin> set (tree_keys (NEIGHBORS s'))"
proof -
  have p: "points_to (NEIGHBORS s) (Key a n)" using e(1) by (force simp: points_to_def)
  note t = peer_ok_parts(2) [OF ok]
  have bt: "bst (NEIGHBORS s)" "distinct (buffers (NEIGHBORS s))" using t by (simp_all add: trees_ok_def)
  have d: "deref (live s) (Key a n) = Some n" "wf_neighbor n"
    using points_to_live [OF p] points_to_key [OF bt(1) p] by auto
  obtain m where m: "msgs s b = Some m" "good_msg m"
    using peer_ok_sendable(1) [OF ok] e by (fastforce simp: all_sendable_def sendable_def)
  obtain g where g: "tlv_goaway (fresh_body s) 0 body_room 2 inactive_text 24 = Some (27, g)"
    "good_msg (compose s g 27)" "body_size (compose s g 27) = 27"
    by (rule goaway_message [of 24 inactive_text s 2]) (simp_all add: inactive_text_def)
  have "body_size m + 27 + 4 \<le> PMTU"
    using room length_pending [OF m(2)] by (simp add: waiting_def e(2) m(1))
  then obtain m' s1 where s1: "send_message (compose s g 27) 31 n s = Some (1, s1)" "sent s1 = sent s"
    using send_message_buffered [OF g(2) e(2) m(1,2), of 31] g(3) by (auto split: if_splits)
  obtain s1' where "send_message (compose s g 27) 31 n s = Some (1, s1')" "net_step s s1'"
    using send_message_step [OF g(2), of 31 s n] g(3) peer_ok_sendable(3) [OF ok p d(1)] by auto
  then have ns: "net_step s s1" using s1(1) by simp
  note eq = net_step_peer [OF ns]
  obtain s2 where s2: "remove_neighbor_everywhere (Key a n) s1 = Some (1, s2)" "peer_ok s2" "removed_everywhere (nkey n) s1 s2"
    using remove_neighbor_everywhere_spec [OF peer_ok_net_step [OF ok ns], of "Key a n" n] d eq by auto
  have en: "entries (NEIGHBORS s2) = filter (\<lambda>e. entry_key e \<noteq> nkey n) (entries (NEIGHBORS s))"
    and st: "sent s2 = sent s1"
    using s2(3) eq by (auto simp: removed_everywhere_def dest: arg_cong [where f = sent])
  have "b \<notin> set (buffers (NEIGHBORS s2))"
    using buffers_removed(2) [OF bt e(1), of "NEIGHBORS s2"] en e(2) by simp
  then have "msgs s2 b = None" using peer_ok_parts(2) [OF s2(2)] by (auto simp: trees_ok_def)
  moreover have "handle_inactive (Key a n) s = Some s2"
    using g(1) d(1) s1(1) s2(1) by (simp add: handle_inactive_def del: body_room_eq)
  ultimately show ?thesis using st s1(2) en by (auto simp: tree_keys_def)
qed

theorem silent_goaway_witness:
  "\<exists>s'. handle_inactive (Key 2 some_neighbor) one_neighbor = Some s' \<and> sent s' = []"
proof -
  have "(2, some_neighbor, some_ident) \<in> set (entries (NEIGHBORS one_neighbor))" "msg some_neighbor = Some 1"
    "length (waiting some_neighbor one_neighbor) + 31 \<le> PMTU" "sent one_neighbor = []"
    by (simp_all add: one_neighbor_def blank_peer_def some_neighbor_def waiting_def pending_def some_message_def PMTU_def)
  then show ?thesis using silent_goaway [OF one_neighbor_ok] by metis
qed

text \<open>
  C34: after its fifth transmission a neighbour is given no time to acknowledge: when it is the
  first in the list of a datum, the next pass over the datum removes it, however long it was
  to be waited for.  (One further down is removed when the pass gets that far.)
\<close>

theorem fifth_wait_ignored:
  assumes ok: "peer_ok s" and f: "floods s fl = Some f" and first: "contents (sym_neighbors f) = x # xs"
    and five: "times_sent x = 5"
  shows "\<exists>s'. flood_message_to_neighbours (Some fl) s = Some s' \<and> peer_ok s' \<and> pkey (sym x) \<notin> set (tree_keys (NEIGHBORS s'))"
proof -
  let ?s1 = "s\<lparr>ticks := Suc (ticks s)\<rparr>" and ?c = "clock s (ticks s)"
  have e: "env_ok s" using ok by (simp add: peer_ok_def)
  have ok1: "peer_ok ?s1" by (rule peer_ok_cong [OF ok]) simp_all
  obtain q B where n: "nodes (sym_neighbors f) = [] @ (q, x) # B"
    using first by (cases "nodes (sym_neighbors f)") (auto simp: contents_def)
  let ?next = "case B of [] \<Rightarrow> None | (d, _) # _ \<Rightarrow> Some d"
  have f1: "floods ?s1 fl = Some f" "q \<notin> fst ` set ([] :: (addr \<times> ngb_entry) list)" using f by simp_all
  obtain s1 g where 1: "flood_loop fl (Some q) ?c ?s1 = flood_loop fl ?next ?c s1" "peer_ok s1" "floods s1 fl = Some g"
    "nodes (sym_neighbors g) = [] @ B" "pkey (sym x) \<notin> set (tree_keys (NEIGHBORS s1))"
    using loop_inactive [OF ok1 f1(1) n f1(2) five, of ?c] by metis
  have "on_list ?next (nodes (sym_neighbors g))" "before ?next (nodes (sym_neighbors g)) = []"
    unfolding 1(4) by (auto simp: on_list_def before_def split: list.splits)
  then obtain s' where s': "flood_loop fl ?next ?c s1 = Some s'" "peer_ok s'" "followed s1 s'"
    using flood_loop_spec [OF 1(2,3), of ?next ?c] env_okD(4,5) [OF e] by (auto simp: pass_result_def)
  have "flood_message_to_neighbours (Some fl) s = flood_loop fl (Some q) ?c ?s1"
    using n by (simp add: flood_message_to_neighbours_def env_get_seconds [OF e] f)
  then show ?thesis using s' 1(1,5) by (auto simp: followed_def)
qed

definition given_up :: peer where
  "given_up = one_neighbor\<lparr>floods := [5 \<mapsto> some_flood\<lparr>sym_neighbors :=
     \<lparr>list_length = 1, nodes = [(6, some_entry\<lparr>times_sent := 5, wait_until := 220\<rparr>)]\<rparr>\<rparr>]\<rparr>"

lemma given_up_ok: "peer_ok given_up"
proof -
  have fl: "flood_ok (Tree 2 some_neighbor some_ident Null Null) 8 (some_flood\<lparr>sym_neighbors :=
     \<lparr>list_length = 1, nodes = [(6, some_entry\<lparr>times_sent := 5, wait_until := 220\<rparr>)]\<rparr>\<rparr>)"
    using some_flood_ok by (simp add: flood_ok_def nodes_ok_def some_entry_def points_to_def)
  have "env_ok given_up" using blank_ok(2)
    by (rule env_ok_cong [rotated 3]) (simp_all add: given_up_def one_neighbor_def)
  moreover have "trees_ok given_up"
    using peer_ok_parts(2) [OF one_neighbor_ok] unfolding trees_ok_def given_up_def live_def by simp
  moreover have "floods_ok given_up"
    using fl by (auto simp: floods_ok_def given_up_def one_neighbor_def queue_ok_def table_ok_def wf_clist_def
        contents_def split: if_splits intro!: exI [of _ "[5]"])
  ultimately show ?thesis by (simp add: peer_ok_def given_up_def one_neighbor_def blank_peer_def)
qed

theorem fifth_wait_ignored_witness:
  "\<exists>s'. flood_message_to_neighbours (Some 5) given_up = Some s' \<and> nkey some_neighbor \<notin> set (tree_keys (NEIGHBORS s'))"
  using fifth_wait_ignored [OF given_up_ok, of 5 _ "some_entry\<lparr>times_sent := 5, wait_until := 220\<rparr>" "[]"]
  by (force simp: given_up_def some_entry_def contents_def)

text \<open>A datum with nothing waiting for its neighbour goes out at once or fills the buffer.\<close>

lemma send_data_datagram:
  assumes ok: "peer_ok s" and p: "points_to (NEIGHBORS s) q" "deref (live s) q = Some n"
    and d: "stored_tlv ix d" and w: "waiting n s = []" and s1: "send_data d q s = Some (1, s1)"
  shows "msg n = None \<and> sent s1 = sent s @ [(neighbor_to_sockaddr6 n, packet (take (unat (d ! 1) + 2) d))] \<or>
    msg n \<noteq> None \<and> sent s1 = sent s \<and> waiting n s1 = take (unat (d ! 1) + 2) d"
proof -
  let ?k = "unat (d ! 1)"
  obtain b where b: "good_msg (compose s b (int ?k + 2))" "body_size (compose s b (int ?k + 2)) = ?k + 2"
    "pending (compose s b (int ?k + 2)) = take (?k + 2) d"
    "send_data d q s = send_message (compose s b (int ?k + 2)) (?k + 6) n s"
    using send_data_spec [OF d p(2)] by blast
  have sz: "?k + 6 = body_size (compose s b (int ?k + 2)) + 4" using b(2) by simp
  show ?thesis
  proof (cases "msg n")
    case None
    have "send_data d q s = Some (1, s\<lparr>sent := sent s @ [(neighbor_to_sockaddr6 n, packet (take (?k + 2) d))]\<rparr>)"
      unfolding b(4) send_message_direct [OF b(1) sz None] b(3) ..
    then have "s1 = s\<lparr>sent := sent s @ [(neighbor_to_sockaddr6 n, packet (take (?k + 2) d))]\<rparr>" using s1 by simp
    then show ?thesis using None by simp
  next
    case (Some c)
    obtain m where m: "msgs s c = Some m" "good_msg m"
      using peer_ok_sendable(3) [OF ok p] Some by (auto simp: sendable_def)
    have pm: "pending m = []" using w by (simp add: waiting_def Some m(1))
    then have bm: "body_size m = 0" using length_pending [OF m(2)] by simp
    have k: "?k < 128" using d by (simp add: stored_tlv_def)
    have fit: "body_size m + body_size (compose s b (int ?k + 2)) + 4 \<le> PMTU"
      unfolding b(2) bm using k by (simp add: PMTU_def)
    obtain m' w' where r: "send_message (compose s b (int ?k + 2)) (?k + 6) n s = Some (1, w')" "msgs w' = (msgs s)(c \<mapsto> m')"
      "pending m' = pending m @ take (?k + 2) d \<and> sent w' = sent s"
      using send_message_buffered [OF b(1) Some m, of "?k + 6"] fit b(3) by auto
    then show ?thesis using b(4) s1 pm by (simp add: waiting_def Some)
  qed
qed

text \<open>A pass over a datum that is for one neighbour only, which is due.\<close>

lemma single_pass:
  assumes ok: "peer_ok s" and f: "floods s fl = Some f" and one: "nodes (sym_neighbors f) = [(q, x)]"
    and due: "times_sent x < 5" "wait_until x \<le> clock s (ticks s)"
  shows "\<exists>s' s1 f' y. flood_message_to_neighbours (Some fl) s = Some s' \<and> peer_ok s' \<and> floods s' fl = Some f' \<and>
    flood_index f' = flood_index f \<and> flood_data f' = flood_data f \<and> contents (sym_neighbors f') = [y] \<and>
    sym y = sym x \<and> clock s (ticks s) < wait_until y \<and> NEXTTIME s' = NEXTTIME s \<and> NEIGHBORS s' = NEIGHBORS s \<and>
    DATAF s' = DATAF s \<and> live s' = live s \<and>
    send_data (flood_data f) (sym x) (s\<lparr>ticks := Suc (ticks s)\<rparr>) = Some (1, s1) \<and> sent s' = sent s1 \<and> msgs s' = msgs s1"
proof -
  let ?s1 = "s\<lparr>ticks := Suc (ticks s)\<rparr>" and ?c = "clock s (ticks s)"
  have e: "env_ok s" using ok by (simp add: peer_ok_def)
  have ok1: "peer_ok ?s1" by (rule peer_ok_cong [OF ok]) simp_all
  have f1: "floods ?s1 fl = Some f" "nodes (sym_neighbors f) = [] @ (q, x) # []" using f one by simp_all
  obtain s1 l1 t s2 l2 n1 where
    1: "send_data (flood_data f) (sym x) ?s1 = Some (1, s1)" "floods s1 fl = Some f"
      "remove_elem (compare_n_s (live s1)) (sym_neighbors f) x = Some (Some x, l1)"
      "wait_time (times_sent x + 1) s1 = Some (t, s2)"
      "n1 = x\<lparr>times_sent := times_sent x + 1, wait_until := t + ?c\<rparr>"
      "2 ^ nat (times_sent x) \<le> t"
      "add_elem (compare_n_s (live s2)) l1 n1 s2 = Some (1, l2, s2\<lparr>next_addr := Suc (next_addr s2)\<rparr>)"
      "nodes l2 = put_back (next_addr ?s1) n1 ([] @ [])" "s2 = s1\<lparr>rnds := Suc (rnds s1)\<rparr>" "net_step ?s1 s1"
    and tr: "peer_ok (s2\<lparr>next_addr := Suc (next_addr s2), floods := (floods s2)(fl \<mapsto> f\<lparr>sym_neighbors := l2\<rparr>)\<rparr>)"
    using transmit [OF ok1 f1, of ?c] env_okD(4,5) [OF e] due(1) by (metis less_irrefl)
  let ?s' = "(s2\<lparr>next_addr := Suc (next_addr s2)\<rparr>)\<lparr>floods := (floods s2)(fl \<mapsto> f\<lparr>sym_neighbors := l2\<rparr>)\<rparr>"
  have "flood_message_to_neighbours (Some fl) s = flood_loop fl (Some q) ?c ?s1"
    by (simp add: flood_message_to_neighbours_def env_get_seconds [OF e] f one)
  also have "\<dots> = flood_loop fl None ?c ?s'"
    using due 1(5,7)
    by (subst flood_loop.simps) (simp add: f one entry_at_def 1(1-4))
  also have "\<dots> = Some ?s'" by (subst flood_loop.simps) simp
  finally have run: "flood_message_to_neighbours (Some fl) s = Some ?s'" .
  note ns = net_step_peer [OF 1(10)]
  have 2: "contents l2 = [n1]" using 1(8) by (simp add: contents_def put_back_def)
  have 3: "0 < t" using 1(6) by (metis less_le_trans zero_less_numeral zero_less_power)
  have 4: "peer_ok ?s'" using tr by simp
  have 5: "floods ?s' fl = Some (f\<lparr>sym_neighbors := l2\<rparr>)" "sent ?s' = sent s1" "msgs ?s' = msgs s1"
    using 1(9) by simp_all
  have 6: "NEXTTIME ?s' = NEXTTIME s" "NEIGHBORS ?s' = NEIGHBORS s" "DATAF ?s' = DATAF s" "live ?s' = live s"
    using 1(9) ns by (simp_all add: live_def fun_eq_iff)
  show ?thesis
    by (rule exI [of _ ?s'], rule exI [of _ s1], rule exI [of _ "f\<lparr>sym_neighbors := l2\<rparr>"], rule exI [of _ n1])
      (use run 1(1,5) 2 3 4 5 6 in \<open>simp only: flood_entry.simps ngb_entry.simps; simp\<close>)
qed

text \<open>
  C35: when the only neighbour a datum is for was due, its next transmission, one or two seconds
  away or more, is not entered into \<open>NEXTTIME\<close>, so the main loop may sleep through it.
\<close>

theorem next_transmission_forgotten:
  assumes ok: "peer_ok s" and f: "floods s fl = Some f" and one: "nodes (sym_neighbors f) = [(q, x)]"
    and due: "times_sent x < 5" "wait_until x \<le> clock s (ticks s)"
  shows "\<exists>s' f' y. flood_message_to_neighbours (Some fl) s = Some s' \<and> floods s' fl = Some f' \<and>
    contents (sym_neighbors f') = [y] \<and> sym y = sym x \<and> clock s (ticks s) < wait_until y \<and> NEXTTIME s' = NEXTTIME s"
  using single_pass [OF assms] by blast

theorem next_transmission_forgotten_witness:
  "\<exists>s' f' y. flood_message_to_neighbours (Some 5) one_neighbor = Some s' \<and> floods s' 5 = Some f' \<and>
    contents (sym_neighbors f') = [y] \<and> 200 < wait_until y \<and> NEXTTIME s' = 0"
  using next_transmission_forgotten [OF one_neighbor_ok, of 5 some_flood 6 some_entry]
  by (auto simp: one_neighbor_def some_flood_def some_entry_def blank_peer_def)

text \<open>
  The difference of two waiting times is returned as a \<open>short\<close>: a neighbour that is due
  exactly 65536 seconds after another one compares equal to it.
\<close>

lemma wait_difference_truncated:
  assumes "deref lv (sym x) = Some k" "deref lv (sym y) = Some n" "wf_neighbor k" "wf_neighbor n" "nkey k \<noteq> nkey n"
    and "wait_until x - wait_until y = 65536"
  shows "compare_n_s lv x y = Some 0"
proof -
  have "compare_n k n \<noteq> 0" using compare_n_eq_iff [OF assms(3,4)] assms(5) by simp
  moreover have "to_int 65536 = 65536" "to_short 65536 = 0" by (simp_all add: to_int_def to_short_def)
  ultimately show ?thesis using assms(1,2,6) by (simp add: compare_n_s_def)
qed

lemma wait_difference_truncated_example:
  "compare_n_s (\<lambda>_. True) (search_entry (Local some_neighbor)\<lparr>wait_until := 65636\<rparr>)
     (search_entry (Local (some_neighbor\<lparr>port := 1\<rparr>))\<lparr>wait_until := 100\<rparr>) = Some 0"
proof (rule wait_difference_truncated)
  show "nkey some_neighbor \<noteq> nkey (some_neighbor\<lparr>port := 1\<rparr>)" by (simp add: nkey_def some_neighbor_def)
qed (simp_all add: search_entry_def wf_neighbor_def some_neighbor_def)






end
