(* ===== verification/Handler_Props.thy ===== *)
theory Handler_Props
  imports Sample
begin

text \<open>
  Properties of the receiving side: which TLVs of a message reach the handlers, what the
  handlers do, and the inputs on which they leave the defined behaviour of C.
\<close>

section \<open>Parsing\<close>

text \<open>
  The specification of the loop: the known TLVs of the reference parser, handled in order, each
  in the same array of 4096 bytes.
\<close>

fun dispatch :: "(u8 \<times> u8 list) list \<Rightarrow> u8 list \<Rightarrow> neighbor \<Rightarrow> 'z peer_scheme \<Rightarrow> 'z peer_scheme option" where
  "dispatch [] tlv rcpt s = Some s"
| "dispatch ((ty, v) # ts) tlv rcpt s =
     (if unat ty < NB_TLV
      then do { tlv1 \<leftarrow> poke 0 v tlv;
                (_, s1) \<leftarrow> handle_tlv (unat ty) tlv1 (of_nat (length v)) rcpt s;
                dispatch ts tlv1 rcpt s1 }
      else dispatch ts tlv rcpt s)"

text \<open>What the reference parser reads at a position of a message of \<open>blen\<close> bytes.\<close>

lemma parse_pad:
  assumes "parse_tlvs (take (blen - pos) (drop pos b)) = Some ts" "pos < blen" "blen \<le> length b" "b ! pos = 0"
  shows "parse_tlvs (take (blen - (pos + 1)) (drop (pos + 1) b)) = Some ts"
proof -
  have r: "take (blen - pos) (drop pos b) = b ! pos # take (blen - (pos + 1)) (drop (pos + 1) b)"
    using assms(2,3) by (simp add: Cons_nth_drop_Suc [symmetric] take_Cons' Suc_diff_Suc)
  show ?thesis using assms(1) by (simp only: r) (simp add: assms(4))
qed

lemma parse_at:
  assumes p: "parse_tlvs (take (blen - pos) (drop pos b)) = Some ts" and pos: "pos < blen" "blen \<le> length b" and nz: "b ! pos \<noteq> 0"
  obtains ts' where "pos + 2 + unat (b ! (pos + 1)) \<le> blen"
    "parse_tlvs (take (blen - (pos + (unat (b ! (pos + 1)) + 2))) (drop (pos + (unat (b ! (pos + 1)) + 2)) b)) = Some ts'"
    "ts = (b ! pos, take (unat (b ! (pos + 1))) (drop (pos + 2) b)) # ts'"
proof -
  let ?v = "take (blen - (pos + 1)) (drop (pos + 1) b)" and ?len = "b ! (pos + 1)"
  let ?rest = "take (blen - (pos + 2)) (drop (pos + 2) b)"
  have r: "take (blen - pos) (drop pos b) = b ! pos # ?v"
    using pos by (simp add: Cons_nth_drop_Suc [symmetric] take_Cons' Suc_diff_Suc)
  have "?v \<noteq> []" using p nz by (auto simp only: r parse_tlvs.simps if_False split: list.splits)
  then have pos1: "pos + 1 < blen" by auto
  have v: "?v = ?len # ?rest"
    using pos1 pos(2) by (simp add: Cons_nth_drop_Suc [symmetric] take_Cons' Suc_diff_Suc)
  have lr: "length ?rest = blen - (pos + 2)" using pos(2) pos1 by simp
  have fit: "unat ?len \<le> blen - (pos + 2)"
    and ts: "map_option (Cons (b ! pos, take (unat ?len) ?rest)) (parse_tlvs (drop (unat ?len) ?rest)) = Some ts"
    using p nz lr by (auto simp only: r v parse_tlvs.simps if_False list.case split: if_splits)
  have next_eq: "drop (unat ?len) ?rest = take (blen - (pos + (unat ?len + 2))) (drop (pos + (unat ?len + 2)) b)"
    by (simp add: drop_take add.commute add.left_commute)
  have val: "take (unat ?len) ?rest = take (unat ?len) (drop (pos + 2) b)" using fit by (simp add: min_absorb1)
  obtain ts' where "parse_tlvs (drop (unat ?len) ?rest) = Some ts'"
    "ts = (b ! pos, take (unat ?len) (drop (pos + 2) b)) # ts'"
    using ts unfolding val by auto
  then show thesis using that fit pos1 unfolding next_eq by simp
qed

lemma handle_loop_dispatch:
  fixes s :: "'z peer_scheme"
  assumes "parse_tlvs (take (blen - pos) (drop pos (body m))) = Some ts" "blen \<le> length (body m)"
  shows "handle_loop m blen pos tlv rcpt s = dispatch ts tlv rcpt s"
  using assms(1)
proof (induction "blen - pos" arbitrary: pos tlv s ts rule: less_induct)
  case less
  let ?b = "body m"
  consider (over) "\<not> pos < blen" | (pad) "pos < blen" "?b ! pos = 0" | (tlv) "pos < blen" "?b ! pos \<noteq> 0" by blast
  then show ?case
  proof cases
    case over
    then show ?thesis using less.prems by (subst handle_loop.simps) auto
  next
    case pad
    have "handle_loop m blen pos tlv rcpt s = handle_loop m blen (pos + 1) tlv rcpt s"
      using pad assms(2) by (subst handle_loop.simps) (simp add: peek1_def)
    also have "\<dots> = dispatch ts tlv rcpt s"
      using less.hyps [OF _ parse_pad [OF less.prems pad(1) assms(2) pad(2)]] pad(1) by simp
    finally show ?thesis .
  next
    case tlv
    let ?len = "?b ! (pos + 1)" and ?u = "take (unat (?b ! (pos + 1))) (drop (pos + 2) ?b)"
    obtain ts' where fit: "pos + 2 + unat ?len \<le> blen" and
      p: "parse_tlvs (take (blen - (pos + (unat ?len + 2))) (drop (pos + (unat ?len + 2)) ?b)) = Some ts'" "ts = (?b ! pos, ?u) # ts'"
      using parse_at [OF less.prems tlv(1) assms(2) tlv(2)] by blast
    have rd: "peek1 ?b pos = Some (?b ! pos)" "peek1 ?b (pos + 1) = Some ?len" "peek ?b (pos + 2) (unat ?len) = Some ?u"
      "length ?u = unat ?len" "blen - (pos + (unat ?len + 2)) < blen - pos"
      using fit assms(2) by (simp_all add: peek1_def peek_def)
    have room: "\<not> int (unat ?len) > int blen - int pos" using fit by linarith
    have w: "(of_nat (unat ?len) :: u8) = ?len" by simp
    have IH: "handle_loop m blen (pos + (unat ?len + 2)) t rcpt w = dispatch ts' t rcpt w" for t and w :: "'z peer_scheme"
      by (rule less.hyps [OF rd(5) p(1)])
    have "handle_loop m blen pos tlv rcpt s =
      do { (tlv1, s1) \<leftarrow>
             (if unat (?b ! pos) < NB_TLV then
                do { bs \<leftarrow> peek ?b (pos + 2) (unat ?len);
                     tlv1 \<leftarrow> poke 0 bs tlv;
                     (_, s1) \<leftarrow> handle_tlv (unat (?b ! pos)) tlv1 ?len rcpt s;
                     Some (tlv1, s1) }
              else Some (tlv, s));
           handle_loop m blen (pos + (unat ?len + 2)) tlv1 rcpt s1 }"
      using tlv room by (subst handle_loop.simps) (simp only: rd(1,2) if_True if_False bind.bind_lunit simp_thms)
    then show ?thesis
      unfolding p(2) dispatch.simps rd(3,4) w IH
      by (cases "poke 0 ?u tlv") (auto split: bind_splits)
  qed
qed

lemma handle_message_dispatch:
  assumes "magic m = 93" "version m = 2" "unat (ntohs (body_length m)) + 4 \<le> unat buf_t"
    and "unat (ntohs (body_length m)) \<le> length (body m)"
    and "parse_tlvs (take (unat (ntohs (body_length m))) (body m)) = Some ts"
  shows "handle_message_h m buf_t rcpt s = dispatch ts (fresh_body s) rcpt s"
proof -
  let ?n = "body_size m"
  have n: "?n < 65536" using unsigned_less [of "ntohs (body_length m)"] by simp
  have "unat (of_nat (?n + 4) :: size_t) = ?n + 4" using n by (intro unat_of_nat_size) simp
  then have "\<not> of_nat (?n + 4) > buf_t" "\<not> buf_t < 4"
    using assms(3) by (auto simp: word_less_nat_alt simp del: of_nat_add)
  then have "handle_message_h m buf_t rcpt s = handle_loop m ?n 0 (fresh_body s) rcpt s"
    using assms(1,2) by (simp add: handle_message_h_def Let_def del: of_nat_add)
  then show ?thesis using handle_loop_dispatch [of ?n 0 m ts] assms(4,5) by simp
qed

text \<open>
  C8: on a message whose header is right and whose body is a sequence of complete TLVs,
  \<open>handle_message_h\<close> does what the specification says: the TLVs of known type are handled in
  the order in which they occur, each once, padding and unknown types being skipped.
\<close>

theorem message_dispatched:
  assumes "magic m = 93" "version m = 2" "unat (ntohs (body_length m)) + 4 \<le> unat buf_t"
    and "unat (ntohs (body_length m)) \<le> length (body m)"
    and "parse_tlvs (take (unat (ntohs (body_length m))) (body m)) = Some ts"
  shows "handle_message_h m buf_t rcpt s = dispatch ts (fresh_body s) rcpt s"
  by (rule handle_message_dispatch [OF assms])

theorem message_dispatched_witness:
  "handle_message_h (some_message\<lparr>body_length := htons 4, body := [1, 1, 0, 0] @ replicate 4092 0\<rparr>) 8 some_neighbor one_neighbor
     = Some one_neighbor"
proof -
  let ?m = "some_message\<lparr>body_length := htons 4, body := [1, 1, 0, 0] @ replicate 4092 0\<rparr>"
  have "handle_message_h ?m 8 some_neighbor one_neighbor = dispatch [(1, [0])] (fresh_body one_neighbor) some_neighbor one_neighbor"
    by (rule message_dispatched) (simp_all add: some_message_def)
  also have "\<dots> = Some one_neighbor"
    by (auto simp: NB_TLV_def poke_def MAX_SIZE_def handle_tlv_def padN_def)
  finally show ?thesis .
qed

text \<open>
  C30: the guard on the length of a TLV forgets its two header bytes: a go-away that claims two
  bytes more than the message has is not complete, and is obeyed all the same, with bytes that
  are not part of the message.
\<close>

theorem cut_tlv_obeyed:
  assumes ok: "peer_ok s" and p: "sender peer" and m: "magic m = 93" "version m = 2" "ntohs (body_length m) = 2"
    and b: "length (body m) = MAX_SIZE" "body m ! 0 = 6" "body m ! 1 = 2"
  shows "parse_tlvs (take 2 (body m)) = None \<and>
    (\<exists>s'. handle_message_h m 6 peer s = Some s' \<and> nkey peer \<notin> set (tree_keys (NEIGHBORS s')))"
proof
  obtain r where r: "body m = 6 # 2 # r" "length r = 4094"
  proof -
    obtain x y r where "body m = x # y # r" using b(1) by (cases "body m"; cases "tl (body m)") (auto simp: MAX_SIZE_def)
    then show thesis using that b by (simp add: MAX_SIZE_def)
  qed
  show "parse_tlvs (take 2 (body m)) = None" by (simp add: r(1))
  let ?bs = "take 2 r"
  let ?tlv = "?bs @ drop 2 (fresh_body s)"
  have pk: "peek (body m) 2 2 = Some ?bs" using r by (simp add: peek_def)
  have po: "poke 0 ?bs (fresh_body s) = Some ?tlv" using r(2) by (simp add: poke_def MAX_SIZE_def numeral_2_eq_2)
  have lt: "length ?tlv = MAX_SIZE" using r(2) by (simp add: MAX_SIZE_def)
  obtain s' where s': "goaway ?tlv 2 peer s = Some (1, s')"
    "entries (NEIGHBORS s') = filter (\<lambda>e. entry_key e \<noteq> nkey peer) (entries (NEIGHBORS s))"
    using goaway_spec [OF ok p lt, of 2] by auto
  have ht: "handle_tlv 6 ?tlv 2 peer s = Some (1, s')"
    using s'(1) by (simp add: handle_tlv_def eval_nat_numeral)
  have p01: "peek1 (body m) 0 = Some 6" "peek1 (body m) 1 = Some 2" using r by (simp_all add: peek1_def)
  have "handle_message_h m 6 peer s = handle_loop m 2 0 (fresh_body s) peer s"
    using m by (simp add: handle_message_h_def)
  also have "\<dots> = handle_loop m 2 4 ?tlv peer s'"
    using p01 by (subst handle_loop.simps) (simp add: NB_TLV_def pk po ht numeral_2_eq_2 [symmetric])
  also have "\<dots> = Some s'" by (subst handle_loop.simps) simp
  finally show "\<exists>s'. handle_message_h m 6 peer s = Some s' \<and> nkey peer \<notin> set (tree_keys (NEIGHBORS s'))"
    using s'(2) by (auto simp: tree_keys_def)
qed

definition somebody :: neighbor where
  "somebody = some_neighbor\<lparr>msg := None\<rparr>"

lemma somebody_sender: "sender somebody"
  using some_neighbor_ok by (simp add: sender_def somebody_def)

theorem cut_tlv_obeyed_witness:
  "\<exists>s'. handle_message_h (some_message\<lparr>body_length := htons 2, body := [6, 2] @ replicate 4094 0\<rparr>) 6 somebody one_neighbor = Some s' \<and>
     nkey somebody \<notin> set (tree_keys (NEIGHBORS s'))"
  using cut_tlv_obeyed [OF one_neighbor_ok somebody_sender, of "some_message\<lparr>body_length := htons 2, body := [6, 2] @ replicate 4094 0\<rparr>"]
  by (simp add: some_message_def MAX_SIZE_def)

text \<open>
  C31: a go-away of any length is obeyed.  Its text, the bytes after the code, is written to the
  terminal (nothing when the TLV is empty, though \<open>write\<close> is then asked for \<open>2\<^sup>6\<^sup>4-1\<close>
  bytes); the sender leaves the tree of neighbours and the list of every datum; nothing is
  answered, and the potential neighbours stay.
\<close>

theorem goaway_obeyed:
  assumes "peer_ok s" "sender peer" "length tlv = MAX_SIZE"
  shows "\<exists>s'. goaway tlv len peer s = Some (1, s') \<and> peer_ok s' \<and>
    tty s' = tty s @ (if len = 0 then [] else [take (unat len - 1) (drop 1 tlv)]) \<and>
    entries (NEIGHBORS s') = filter (\<lambda>e. entry_key e \<noteq> nkey peer) (entries (NEIGHBORS s)) \<and>
    (\<forall>a f'. floods s' a = Some f' \<longrightarrow> (\<exists>f. floods s a = Some f \<and> flood_data f' = flood_data f \<and>
       contents (sym_neighbors f') = filter (\<lambda>x. pkey (sym x) \<noteq> nkey peer) (contents (sym_neighbors f)))) \<and>
    sent s' = sent s \<and> POTENTIAL s' = POTENTIAL s"
proof -
  obtain s' where s': "goaway tlv len peer s = Some (1, s')" "peer_ok s'"
    "removed_everywhere (nkey peer) (s\<lparr>tty := tty s @ goaway_text tlv len\<rparr>) s'"
    "tty s' = tty s @ goaway_text tlv len"
    "entries (NEIGHBORS s') = filter (\<lambda>e. entry_key e \<noteq> nkey peer) (entries (NEIGHBORS s))"
    using goaway_spec [OF assms] by blast
  let ?s1 = "s\<lparr>tty := tty s @ goaway_text tlv len\<rparr>"
  have "s' = ?s1\<lparr>floods := floods s', msgs := msgs s', NEIGHBORS := NEIGHBORS s'\<rparr>"
    using s'(3) by (simp add: removed_everywhere_def)
  then obtain F M N where "s' = ?s1\<lparr>floods := F, msgs := M, NEIGHBORS := N\<rparr>" by blast
  then have "sent s' = sent s" "POTENTIAL s' = POTENTIAL s" by simp_all
  moreover have "\<exists>f. floods s a = Some f \<and> flood_data f' = flood_data f \<and>
      contents (sym_neighbors f') = filter (\<lambda>x. pkey (sym x) \<noteq> nkey peer) (contents (sym_neighbors f))"
    if f': "floods s' a = Some f'" for a f'
  proof -
    obtain f where "floods s a = Some f" "stripped (nkey peer) f f'"
    proof -
      have "\<exists>f. floods ?s1 a = Some f \<and> stripped (nkey peer) f f'" using s'(3) f' unfolding removed_everywhere_def by blast
      then show thesis using that by auto
    qed
    then show ?thesis using stripped_contents by (auto simp: stripped_def)
  qed
  ultimately show ?thesis using s'(1,2,4,5) unfolding goaway_text_def by blast
qed

theorem goaway_obeyed_witness:
  "\<exists>s'. goaway (replicate 4096 0) 0 somebody one_neighbor = Some (1, s') \<and> tty s' = [] \<and> entries (NEIGHBORS s') = []"
proof -
  have "length (replicate 4096 (0 :: u8)) = MAX_SIZE" by (simp add: MAX_SIZE_def)
  then obtain s' where "goaway (replicate 4096 0) 0 somebody one_neighbor = Some (1, s')" "tty s' = tty one_neighbor"
    "entries (NEIGHBORS s') = filter (\<lambda>e. entry_key e \<noteq> nkey somebody) (entries (NEIGHBORS one_neighbor))"
    using goaway_obeyed [OF one_neighbor_ok somebody_sender, of "replicate 4096 0" 0] by auto
  moreover have "tty one_neighbor = []" by (simp add: one_neighbor_def blank_peer_def)
  moreover have "filter (\<lambda>e. entry_key e \<noteq> nkey somebody) (entries (NEIGHBORS one_neighbor)) = []"
    by (simp add: one_neighbor_def somebody_def nkey_eq_iff)
  ultimately show ?thesis by metis
qed

section \<open>Data\<close>

definition sample_tlv :: "u8 list" where
  "sample_tlv = le_bytes 8 (1 :: u64) @ le_bytes 4 (2 :: u32) @ [0, 72] @ replicate 4082 0"

lemma data_sent:
  assumes ok: "peer_ok s" and p: "sender peer" and d: "data_msg tlv len s" and r: "data tlv len peer s = Some (rc, s')"
  shows "sent s' = sent (acked tlv peer s)"
proof -
  let ?s1 = "acked tlv peer s"
  have l: "length tlv = MAX_SIZE" using d by (simp add: data_msg_def)
  obtain u where u: "data tlv len peer s = Some (1, u)"
    "(\<exists>a f. floods s a = Some f \<and> flood_index f = data_ix tlv) \<or>
     (\<exists>s2. filed tlv len (Some (nkey peer)) ?s1 s2 \<and> u = s2\<lparr>tty := tty u, gui := gui u\<rparr>)"
    using data_spec [OF ok p d] by blast
  have eq: "u = s'" using u(1) r by simp
  from u(2) show ?thesis
  proof (elim disjE exE conjE)
    fix a f assume a: "floods s a = Some f" "flood_index f = data_ix tlv"
    have ok1: "peer_ok ?s1" by (rule peer_ok_acked [OF ok l])
    have wf: "wf_neighbor peer" using p by (simp add: sender_def)
    have b: "bst (NEIGHBORS ?s1)" "floods_ok ?s1" using ok1 by (simp_all add: peer_ok_def trees_ok_def)
    have f1: "floods ?s1 = floods s" "DATAF ?s1 = DATAF s" by (simp_all add: acked_def)
    obtain q where "get (compare_flood ?s1) (DATAF s) (data_ix tlv) = Some (Some (Some q))"
      using get_flood_ok [OF b(2), of "data_ix tlv"] a f1 by auto
    then obtain rc2 where "remove_neighbor_from_flood (data_ix tlv) (Local peer) ?s1 = Some (rc2, s')"
      using r unfolding data_unfold [OF l p] by (auto split: bind_splits)
    then show ?thesis
      using remove_neighbor_from_flood_spec [OF b deref.simps(1) wf, of "data_ix tlv"] by auto
  next
    fix s2 assume f: "filed tlv len (Some (nkey peer)) ?s1 s2" "u = s2\<lparr>tty := tty u, gui := gui u\<rparr>"
    obtain na tk where "s2 = ?s1\<lparr>next_addr := na, ticks := tk, floods := floods s2, DATAF := DATAF s2\<rparr>"
      using f(1) unfolding filed_def by blast
    then obtain F D where "s2 = ?s1\<lparr>next_addr := na, ticks := tk, floods := F, DATAF := D\<rparr>" by blast
    then have "sent s2 = sent ?s1" by simp
    moreover have "sent u = sent s2" by (subst f(2)) simp
    ultimately show ?thesis using eq by simp
  qed
qed

text \<open>
  C9: data are shown once: the first time a text (type 0) arrives it is stored and written to the
  terminal, and when the same TLV arrives again, from the same or another sender, it is
  neither stored nor shown a second time.  Each time exactly one datagram is sent, to the sender of
  the TLV: the acknowledgement, with its identifier and nonce.
\<close>

theorem data_shown_once:
  assumes ok: "peer_ok s" and p: "sender peer" "sender peer2"
    and tlv: "length tlv = MAX_SIZE" "13 \<le> unat len" "unat len < 128" "tlv ! 12 = 0"
    and new: "\<And>a f. floods s a = Some f \<Longrightarrow> flood_index f \<noteq> data_ix tlv"
  shows "\<exists>s1 s2 t. data tlv len peer s = Some (1, s1) \<and> data tlv len peer2 s1 = Some (1, s2) \<and>
    tty s1 = tty s @ [take (unat len - 13) (drop 13 tlv)] @ t \<and> set t \<subseteq> {[10]} \<and>
    tty s2 = tty s1 \<and> DATAF s2 = DATAF s1 \<and>
    (\<exists>a f. floods s a = None \<and> floods s1 a = Some f \<and> flood_index f = data_ix tlv \<and>
       take (unat len + 2) (flood_data f) = 4 # len # take (unat len) tlv \<and> Some a \<in> set (contents (DATAF s1))) \<and>
    sent s1 = sent s @ [(neighbor_to_sockaddr6 peer, packet (encode_tlv 5 (take 12 tlv)))] \<and>
    sent s2 = sent s1 @ [(neighbor_to_sockaddr6 peer2, packet (encode_tlv 5 (take 12 tlv)))]"
proof -
  have d: "data_msg tlv len s" using tlv by (simp add: data_msg_def)
  obtain s1 where 1: "data tlv len peer s = Some (1, s1)" "peer_ok s1"
    "(\<exists>sf. filed tlv len (Some (nkey peer)) (acked tlv peer s) sf \<and> s1 = sf\<lparr>tty := tty s1, gui := gui s1\<rparr> \<and>
       (\<exists>t. tty s1 = tty s @ [take (unat len - 13) (drop 13 tlv)] @ t \<and> set t \<subseteq> {[10]}))"
    using data_spec [OF ok p(1) d] new unfolding tlv(4) by auto
  then obtain sf t where sf: "filed tlv len (Some (nkey peer)) (acked tlv peer s) sf" "s1 = sf\<lparr>tty := tty s1, gui := gui s1\<rparr>"
    "tty s1 = tty s @ [take (unat len - 13) (drop 13 tlv)] @ t" "set t \<subseteq> {[10]}" by blast
  have eq: "floods s1 = floods sf" "DATAF s1 = DATAF sf" by (subst sf(2), simp)+
  have acked: "floods (acked tlv peer s) = floods s" by (simp add: acked_def)
  obtain a f where f: "floods s a = None" "floods s1 a = Some f" "flood_index f = data_ix tlv"
    "take (unat len + 2) (flood_data f) = 4 # len # take (unat len) tlv"
    "contents (DATAF s1) = contents (DATAF (acked tlv peer s)) @ [Some a] \<or>
     (\<exists>b. contents (DATAF (acked tlv peer s)) @ [Some a] = Some b # contents (DATAF s1) \<and>
        length (contents (DATAF (acked tlv peer s))) = 100)"
    using sf(1) unfolding filed_def eq acked by blast
  have q: "Some a \<in> set (contents (DATAF s1))"
    using f(5)
  proof (elim disjE exE conjE)
    fix b assume b: "contents (DATAF (acked tlv peer s)) @ [Some a] = Some b # contents (DATAF s1)"
      "length (contents (DATAF (acked tlv peer s))) = 100"
    then have "contents (DATAF s1) = tl (contents (DATAF (acked tlv peer s))) @ [Some a]"
      by (cases "contents (DATAF (acked tlv peer s))") auto
    then show ?thesis by simp
  qed simp
  have old: "\<exists>a f. floods s1 a = Some f \<and> flood_index f = data_ix tlv" using f by blast
  have d1: "data_msg tlv len s1" using tlv by (simp add: data_msg_def)
  obtain s2 where 2: "data tlv len peer2 s1 = Some (1, s2)" "tty s2 = tty s1" "DATAF s2 = DATAF s1"
    using data_spec [OF 1(2) p(2) d1] old by blast
  have "sent s1 = sent s @ [(neighbor_to_sockaddr6 peer, packet (encode_tlv 5 (take 12 tlv)))]"
    using data_sent [OF ok p(1) d 1(1)] by (simp add: acked_def)
  moreover have "sent s2 = sent s1 @ [(neighbor_to_sockaddr6 peer2, packet (encode_tlv 5 (take 12 tlv)))]"
    using data_sent [OF 1(2) p(2) d1 2(1)] by (simp add: acked_def)
  ultimately show ?thesis using 1(1) 2 sf(3,4) f(1-4) q by blast
qed

theorem data_shown_once_witness:
  "\<exists>s1 s2. data sample_tlv 14 somebody one_neighbor = Some (1, s1) \<and>
     data sample_tlv 14 somebody s1 = Some (1, s2) \<and> tty s2 = tty s1 \<and> [72] \<in> set (tty s1)"
proof -
  have n: "flood_index f \<noteq> data_ix sample_tlv" if "floods one_neighbor a = Some f" for a f
    using that by (auto simp: one_neighbor_def some_flood_def some_index_def data_ix_def sample_tlv_def le_word_le_bytes
        split: if_splits)
  have "length sample_tlv = MAX_SIZE" "sample_tlv ! 12 = 0" "take (unat (14 :: u8) - 13) (drop 13 sample_tlv) = [72]"
    by (simp_all add: sample_tlv_def MAX_SIZE_def nth_append)
  then obtain s1 s2 t where "data sample_tlv 14 somebody one_neighbor = Some (1, s1)" "data sample_tlv 14 somebody s1 = Some (1, s2)"
    "tty s1 = tty one_neighbor @ [[72]] @ t" "tty s2 = tty s1"
    using data_shown_once [OF one_neighbor_ok somebody_sender somebody_sender, of sample_tlv 14] n by fastforce
  then show ?thesis by auto
qed

section \<open>Neighbours\<close>

text \<open>
  C16: a hello registers its sender: after a short hello, or a long one addressed to this peer,
  the sender is in the tree of neighbours with the time of the hello; only the long one makes
  it symmetric.
\<close>

theorem hello_registers:
  assumes "peer_ok s" "sender peer" "length tlv = MAX_SIZE" "len = 16 \<Longrightarrow> le_word (take 8 (drop 8 tlv)) = ID s"
  shows "\<exists>s' u. hello tlv len peer s = Some (1, s') \<and> peer_ok s' \<and> get_ident (NEIGHBORS s') peer = Some u \<and>
    last_hello u = clock s (ticks s) \<and> last_hello_long u = (if len = 16 then clock s (ticks s) else 0)"
  using hello_spec [OF assms(1-3), of len] assms(4) by blast

theorem hello_registers_witness:
  "\<exists>s' u. hello (replicate 4096 0) 8 somebody one_neighbor = Some (1, s') \<and>
     get_ident (NEIGHBORS s') somebody = Some u \<and> last_hello u = 200 \<and> last_hello_long u = 0"
  using hello_registers [OF one_neighbor_ok somebody_sender, of "replicate 4096 0" 8]
  by (auto simp: MAX_SIZE_def one_neighbor_def blank_peer_def)

text \<open>
  C36: a short hello makes the peer forget the long hello its sender sent before: from two
  minutes of uptime on, the sender, however recent its long hello, is not symmetric any more.
\<close>

theorem short_hello_forgets:
  assumes "peer_ok s" "sender peer" "length tlv = MAX_SIZE" "len \<noteq> 16"
  shows "\<exists>s' u. hello tlv len peer s = Some (1, s') \<and> get_ident (NEIGHBORS s') peer = Some u \<and>
    (\<forall>w :: world. env_ok w \<longrightarrow> 120 \<le> clock w (ticks w) \<longrightarrow> \<not> fst (issymmetrical u w))"
proof -
  obtain s' u where s': "hello tlv len peer s = Some (1, s')" "get_ident (NEIGHBORS s') peer = Some u" "last_hello_long u = 0"
    using hello_spec [OF assms(1-3), of len] assms(4) by auto
  then show ?thesis by (auto simp: issymmetrical_def env_get_seconds)
qed

theorem short_hello_forgets_witness:
  "fst (issymmetrical some_ident one_neighbor) \<and>
    (\<exists>s' u. hello (replicate 4096 0) 8 somebody one_neighbor = Some (1, s') \<and>
      get_ident (NEIGHBORS s') somebody = Some u \<and> \<not> fst (issymmetrical u (world.truncate one_neighbor)))"
proof -
  have "env_ok (world.truncate one_neighbor)" "clock (world.truncate one_neighbor) (ticks (world.truncate one_neighbor)) = 200"
    using blank_ok(2) by (simp_all add: world.defs env_ok_def malloc_ok_def rand_ok_def clock_ok_def one_neighbor_def blank_peer_def)
  moreover have "fst (issymmetrical some_ident one_neighbor)"
    using env_get_seconds [OF peer_ok_parts(1) [OF one_neighbor_ok]]
    by (simp add: issymmetrical_def some_ident_def one_neighbor_def blank_peer_def)
  ultimately show ?thesis
    using short_hello_forgets [OF one_neighbor_ok somebody_sender, of "replicate 4096 0" 8]
    by (auto simp: MAX_SIZE_def)
qed

text \<open>
  C19: an address learned from a neighbour TLV becomes a potential neighbour heard of now; when it
  is a neighbour already nothing changes at all.  The tree of neighbours is left alone.
\<close>

theorem neighbour_learned:
  assumes ok: "peer_ok s" and l: "length tlv = MAX_SIZE"
    and k: "k = \<lparr>ip = take 16 tlv, port = ntohs (le_word (take 2 (drop 16 tlv))), msg = None\<rparr>"
  shows "\<exists>s'. neighbour tlv len peer s = Some (1, s') \<and> peer_ok s' \<and> NEIGHBORS s' = NEIGHBORS s \<and>
    (get_ident (NEIGHBORS s) k = None \<longrightarrow>
       (\<exists>u. get_ident (POTENTIAL s') k = Some u \<and> last_hello u = clock s (ticks s))) \<and>
    (get_ident (NEIGHBORS s) k \<noteq> None \<longrightarrow> s' = s)"
proof -
  have e: "env_ok s" using ok by (simp add: peer_ok_def)
  let ?s1 = "s\<lparr>ticks := Suc (ticks s)\<rparr>"
  let ?v = "zero_ident\<lparr>last_hello := clock s (ticks s)\<rparr>"
  have ok1: "peer_ok ?s1" by (rule peer_ok_cong [OF ok]) simp_all
  have wf: "wf_neighbor k" using l k by (simp add: wf_neighbor_def MAX_SIZE_def)
  have mk: "k\<lparr>msg := None\<rparr> = k" by (simp add: k)
  have run: "neighbour tlv len peer s =
    (if get_ident (NEIGHBORS s) k \<noteq> None then Some (1, s)
     else do { (_, s2) \<leftarrow> add_potential k (Some ?v) ?s1; Some (1, s2) })"
    by (simp add: neighbour_def env_get_seconds [OF e] peek_array [OF l] Let_def k)
  show ?thesis
  proof (cases "get_ident (NEIGHBORS s) k = None")
    case True
    from add_potential_spec [OF ok1 wf, of ?v] show ?thesis
    proof (elim disjE exE conjE)
      fix t'
      let ?s2 = "?s1\<lparr>next_addr := next_addr ?s1 + 3, POTENTIAL := t'\<rparr>"
      assume a: "add_potential k (Some ?v) ?s1 = Some (1, ?s2)" "peer_ok ?s2"
        "new_node (next_addr ?s1 + 2) (k\<lparr>msg := None\<rparr>) ?v (POTENTIAL ?s1) t'"
      have "get_ident t' k = Some ?v" using a(3) get_ident_split [OF _ wf, of t'] by (auto simp: new_node_def)
      then show ?thesis unfolding run using True a(1,2) by simp
    next
      fix t'
      let ?s2 = "?s1\<lparr>POTENTIAL := t'\<rparr>"
      assume a: "add_potential k (Some ?v) ?s1 = Some (2, ?s2)" "peer_ok ?s2" "updated_node k ?v (POTENTIAL ?s1) t'"
      obtain u where "get_ident t' k = Some (merge_ident (Some ?v) u)"
        using a(3) get_ident_split [OF _ wf, of t'] by (auto simp: updated_node_def)
      then show ?thesis unfolding run using True a(1,2) by (simp add: merge_ident_def)
    qed
  next
    case False
    then show ?thesis unfolding run using ok by auto
  qed
qed

theorem neighbour_learned_witness:
  "\<exists>s' u. neighbour (replicate 4096 0) 18 somebody one_neighbor = Some (1, s') \<and>
     get_ident (POTENTIAL s') \<lparr>ip = replicate 16 0, port = 0, msg = None\<rparr> = Some u \<and> last_hello u = 200"
proof -
  let ?k = "\<lparr>ip = replicate 16 0, port = 0, msg = None\<rparr>"
  have "?k = \<lparr>ip = take 16 (replicate 4096 0), port = ntohs (le_word (take 2 (drop 16 (replicate 4096 0)))), msg = None\<rparr>"
    by (simp add: numeral_2_eq_2)
  moreover have "nkey ?k \<notin> set (tree_keys (NEIGHBORS one_neighbor))"
    by (simp add: one_neighbor_def tree_keys_def nkey_eq_iff some_neighbor_def)
  then have "get_ident (NEIGHBORS one_neighbor) ?k = None"
    using peer_ok_parts(2) [OF one_neighbor_ok] by (simp add: get_ident_None_iff trees_ok_def wf_neighbor_def)
  moreover have "clock one_neighbor (ticks one_neighbor) = 200" by (simp add: one_neighbor_def blank_peer_def)
  ultimately show ?thesis
    using neighbour_learned [OF one_neighbor_ok, of "replicate 4096 0" ?k 18 somebody] by (auto simp: MAX_SIZE_def)
qed

section \<open>Typed text\<close>

lemma typed_line_stored:
  assumes ok: "peer_ok s" and g: "gui_ok e s" and t: "typed e = Some bs"
  shows "\<exists>s' a f non out. on_gui e s = Some s' \<and> peer_ok s' \<and> floods s a = None \<and> floods s' a = Some f \<and>
    length non = 4 \<and> flood_index f = \<lparr>index_id = ID s, nonce = le_word non\<rparr> \<and>
    take (15 + length (gui_text bs)) (flood_data f) =
      [4, of_nat (13 + length (gui_text bs))] @ le_bytes 8 (ID s) @ non @ [0] @ gui_text bs \<and>
    tty s' = tty s @ [gui_text bs] @ out"
proof -
  let ?n = "13 + length (gui_text bs)"
  have "length (gui_text bs) \<le> 114" using g t by (auto simp: gui_ok_def)
  then have u: "unat (of_nat ?n :: u8) = ?n" by (intro unat_of_nat_u8) simp
  obtain s' s2 d non out where r: "on_gui e s = Some s'" "peer_ok s'"
    "filed d (of_nat ?n) None (s\<lparr>rnds := rnds s + 4\<rparr>) s2" "s' = s2\<lparr>tty := tty s', gui := gui s'\<rparr>"
    "take ?n d = le_bytes 8 (ID s) @ non @ 0 # gui_text bs" "length non = 4" "tty s' = tty s @ [gui_text bs] @ out"
    using on_gui_spec [OF ok g t] by blast
  have fl: "floods s' = floods s2" by (subst r(4)) simp
  obtain a f where f: "floods s a = None" "floods s2 a = Some f" "flood_index f = data_ix d"
    "take (?n + 2) (flood_data f) = 4 # of_nat ?n # take ?n d"
    using r(3) unfolding filed_def u by auto
  have "take 8 d = take 8 (take ?n d)" "take 4 (drop 8 d) = take 4 (drop 8 (take ?n d))"
    by (simp_all add: min_def drop_take)
  then have "data_ix d = \<lparr>index_id = ID s, nonce = le_word non\<rparr>"
    unfolding r(5) data_ix_def using r(6) by (simp add: le_word_le_bytes)
  then show ?thesis using r(1,2,6,7) f fl unfolding r(5) by (force simp: add.commute)
qed

text \<open>
  A line typed in the browser (the first 242 bytes read, less one final NUL and one final
  newline, neither empty nor longer than 114 bytes) is filed for flooding as a datum of this
  peer with a new nonce, and written to the terminal.
\<close>

lemma typed_line_filed:
  assumes ok: "peer_ok s" and g: "gui_ok e s" and t: "typed e = Some bs"
  shows "\<exists>s' a f non out. on_gui e s = Some s' \<and> peer_ok s' \<and> floods s a = None \<and> floods s' a = Some f \<and>
    length non = 4 \<and> flood_index f = \<lparr>index_id = ID s, nonce = le_word non\<rparr> \<and>
    take (15 + length (gui_text bs)) (flood_data f) =
      [4, of_nat (13 + length (gui_text bs))] @ le_bytes 8 (ID s) @ non @ [0] @ gui_text bs \<and>
    tty s' = tty s @ [gui_text bs] @ out"
  by (rule typed_line_stored [OF assms])

definition typed_hi :: io where
  "typed_hi = \<lparr>sel = True, soc_ready = False, gui_ready = True, received = None, typed = Some [72, 105, 10]\<rparr>"

lemma typed_hi_ok: "gui_ok typed_hi one_neighbor"
proof -
  have n: "random_on_octets 4 one_neighbor = (replicate 4 7, one_neighbor\<lparr>rnds := 4\<rparr>)"
    by (simp add: numeral_eq_Suc rand_def one_neighbor_def blank_peer_def Let_def)
  have "le_word (replicate 4 (7 :: u8)) \<noteq> (9 :: u32)" by code_simp
  moreover have "gui_text [72, 105, 10] = [72, 105]" by (simp add: gui_text_def strip_last_def)
  ultimately show ?thesis
    using n by (auto simp: gui_ok_def typed_hi_def one_neighbor_def some_flood_def some_index_def split: if_splits)
qed

lemma typed_line_filed_example:
  "\<exists>s' out. on_gui typed_hi one_neighbor = Some s' \<and> tty s' = [72, 105] # out"
proof -
  have "gui_text [72, 105, 10] = [72, 105]" by (simp add: gui_text_def strip_last_def)
  moreover have "typed typed_hi = Some [72, 105, 10]" "tty one_neighbor = []"
    by (simp_all add: typed_hi_def one_neighbor_def blank_peer_def)
  ultimately show ?thesis using typed_line_filed [OF one_neighbor_ok typed_hi_ok] by fastforce
qed

lemma print_nothing: "print_on_screen buf 0 0 w = None"
  by (simp add: print_on_screen_def peek_def)

lemma line_length_None:
  assumes "length d \<le> 242"
  shows "line_length (d @ replicate (257 - length d) 0) (of_nat (length d)) = None \<longleftrightarrow> d = [] \<or> d = [0]"
proof (cases "d = []")
  case True
  then show ?thesis by (simp add: line_length_def before_end_def)
next
  case False
  let ?n = "length d" and ?buf = "d @ replicate (257 - length d) 0"
  have n: "0 < ?n" "?n \<le> length ?buf" "?n < 256" using False assms by simp_all
  note s0 = strip_step(1) [OF n] strip_step(3) [OF n, where c = 0]
  have last: "?buf ! (?n - 1) = last d" using False by (simp add: nth_append last_conv_nth)
  show ?thesis
  proof (cases "last d = 0 \<and> ?n = 1")
    case True
    then have "d = [0]" using False by (cases d) auto
    then show ?thesis by (simp add: line_length_def before_end_def peek1_def)
  next
    case later: False
    let ?m = "if ?buf ! (?n - 1) = 0 then ?n - 1 else ?n"
    have "?n = 1 \<or> 1 < ?n" using n(1) by linarith
    then have m: "0 < ?m" "?m \<le> length ?buf" "?m < 256" unfolding last using later n(1) assms by auto
    have "d \<noteq> [0]" using later by auto
    then show ?thesis
      unfolding line_length_def s0(1) bind.bind_lunit Let_def s0(2) strip_step(1) [OF m] using False by simp
  qed
qed

text \<open>
  C32: an empty line is read past.  When nothing was read, or a single NUL, \<open>main\<close> looks for
  the newline at index \<open>-1\<close> of its buffer, and at no other time; a newline alone gets
  through to \<open>print_on_screen\<close>, which then looks at index \<open>-1\<close>.
\<close>

theorem empty_line_undefined:
  assumes "length d \<le> 242"
  shows "(line_length (d @ replicate (257 - length d) 0) (of_nat (length d)) = None \<longleftrightarrow> d = [] \<or> d = [0]) \<and>
    (typed e = Some d \<and> gui_text d = [] \<longrightarrow> on_gui e s = None)"
proof (intro conjI impI)
  assume t: "typed e = Some d \<and> gui_text d = []"
  have "strip_last 0 d = [] \<or> strip_last 0 d = [10]"
    using t assms by (auto simp: gui_text_def strip_last_def [of 10] butlast_conv_take [symmetric] split: if_splits)
      (metis append_butlast_last_id append_self_conv2)
  then have "d \<in> {[], [0], [10], [10, 0]}"
    by (auto simp: strip_last_def split: if_splits) (metis append_butlast_last_id append_Nil append_Cons)+
  then show "on_gui e s = None"
    using t by (auto simp: on_gui_def line_length_def poke_def before_end_def peek1_def print_nothing split: bind_splits)
qed (rule line_length_None [OF assms])

theorem empty_line_undefined_witness:
  "line_length (replicate 257 0) 0 = None \<and> on_gui (typed_hi\<lparr>typed := Some [10]\<rparr>) one_neighbor = None"
proof
  show "line_length (replicate 257 0) 0 = None" using empty_line_undefined [of "[]"] by simp
  show "on_gui (typed_hi\<lparr>typed := Some [10]\<rparr>) one_neighbor = None"
    using empty_line_undefined [of "[10]" "typed_hi\<lparr>typed := Some [10]\<rparr>" one_neighbor]
    by (simp add: gui_text_def strip_last_def)
qed

end
