(* ===== verification/Exchange.thy ===== *)
theory Exchange
  imports Flood_Props Handler_Props
begin

text \<open>
  Two peers: what one hands to \<open>sendto\<close> is what the other gets from \<open>recvfrom\<close>.  A datum travels
  from the peer that floods it to a neighbour, which shows it and acknowledges it, and the
  acknowledgement ends the retransmissions.
\<close>

section \<open>Receiving a datagram\<close>

lemma message_bytes_packet:
  assumes "good_packet bs" "length bs \<le> length (message_bytes m)" "length (body m) = MAX_SIZE"
    and "m' = bytes_message (bs @ drop (length bs) (message_bytes m))"
  shows "magic m' = 93" "version m' = 2" "body_size m' + 4 = length bs" "length (body m') = MAX_SIZE"
    "take (body_size m') (body m') = drop 4 bs"
proof -
  obtain p where p: "bs = packet p" "length p + 4 \<le> PMTU"
    using assms(1) by (metis (no_types) add.commute good_packet_def length_packet)
  have l2: "length (le_bytes 2 (htons (of_nat (length p)) :: u16)) = 2" by simp
  obtain x y where xy: "le_bytes 2 (htons (of_nat (length p)) :: u16) = [x, y]"
    using l2 by (auto simp: numeral_2_eq_2 length_Suc_conv)
  have w: "le_word [x, y] = (htons (of_nat (length p)) :: u16)"
    unfolding xy [symmetric] by (simp add: le_word_le_bytes)
  have b: "m' = \<lparr>magic = 93, version = 2, body_length = htons (of_nat (length p)),
      body = p @ drop (length bs) (message_bytes m)\<rparr>"
    using assms(4) p(1) w by (simp add: bytes_message_def packet_def xy)
  have n: "unat (of_nat (length p) :: u16) = length p" using p(2) by (simp add: unat_of_nat PMTU_def)
  show "magic m' = 93" "version m' = 2" "body_size m' + 4 = length bs"
    using b n p(1) by simp_all
  show "take (body_size m') (body m') = drop 4 bs" using b n p(1) by simp
  have "length (message_bytes m) = 4100" using assms(3) by (simp add: message_bytes_def MAX_SIZE_def)
  then show "length (body m') = MAX_SIZE" using b p(1) assms(2) by (simp add: MAX_SIZE_def)
qed

lemma on_socket_packet:
  assumes l: "locals_ok l" and bs: "good_packet bs" "parse_tlvs (drop 4 bs) = Some ts" and e: "received e = Some (bs, sa)"
  shows "\<exists>l1. client l1 = sa \<and> (\<forall>s. on_socket e (l, s) =
    map_option (Pair l1) (dispatch ts (fresh_body s) (sockaddr6_to_neighbor sa) s))"
proof -
  let ?m = "bytes_message (bs @ drop (length bs) (message_bytes (rbuf l)))"
  let ?l1 = "l\<lparr>rbuf := ?m, client := sa\<rparr>"
  have lb: "length (body (rbuf l)) = MAX_SIZE" using l by (simp add: locals_ok_def)
  have len: "4 \<le> length bs" "length bs \<le> 1232" using bs(1) by (simp_all add: good_packet_def PMTU_def)
  then have room: "length bs \<le> length (message_bytes (rbuf l))" using lb by (simp add: MAX_SIZE_def)
  note m = message_bytes_packet [OF bs(1) room lb refl]
  have r: "receive (received e) l = (int (length bs), ?l1)"
    using e len lb by (simp add: receive_def MAX_SIZE_def)
  have sz: "unat (size_of_int (int (length bs))) = length bs"
    using len by (simp add: unat_of_nat_size)
  have "handle_message_h ?m (size_of_int (int (length bs))) (sockaddr6_to_neighbor sa) s =
    dispatch ts (fresh_body s) (sockaddr6_to_neighbor sa) s" for s :: peer
    using m(3-5) len bs(2) by (intro handle_message_dispatch m(1,2)) (simp_all only: sz, simp_all add: MAX_SIZE_def)
  then have "on_socket e (l, s) = map_option (Pair ?l1) (dispatch ts (fresh_body s) (sockaddr6_to_neighbor sa) s)" for s
    by (simp add: on_socket_def r) (cases "dispatch ts (fresh_body s) (sockaddr6_to_neighbor sa) s"; simp)
  then show ?thesis by (intro exI [of _ ?l1]) simp
qed

lemma poke_front: "length v \<le> length t \<Longrightarrow> poke 0 v t = Some (v @ drop (length v) t)"
  by (simp add: poke_def)

text \<open>A datagram that carries one TLV.\<close>

lemma on_socket_single:
  assumes "locals_ok l" and v: "length v < 256" "unat ty < NB_TLV" "ty \<noteq> 0" "complete (encode_tlv ty v)" and e: "received e = Some (packet (encode_tlv ty v), sa)"
  shows "\<exists>l1. client l1 = sa \<and> (\<forall>s. on_socket e (l, s) =
    do { (_, s1) \<leftarrow> handle_tlv (unat ty) (v @ drop (length v) (fresh_body s)) (of_nat (length v)) (sockaddr6_to_neighbor sa) s;
         Some (l1, s1) })"
proof -
  have g: "good_packet (packet (encode_tlv ty v))"
    using v by (intro good_packet_packet) (simp_all add: PMTU_def)
  have p: "parse_tlvs (drop 4 (packet (encode_tlv ty v))) = Some [(ty, v)]" using v by simp
  have po: "poke 0 v (fresh_body s) = Some (v @ drop (length v) (fresh_body s))" for s :: peer
    using v(1) by (intro poke_front) (simp add: MAX_SIZE_def)
  obtain l1 where l1: "client l1 = sa" "\<And>s. on_socket e (l, s) =
    map_option (Pair l1) (dispatch [(ty, v)] (fresh_body s) (sockaddr6_to_neighbor sa) s)"
    using on_socket_packet [OF assms(1) g p e] by blast
  show ?thesis
    by (rule exI [of _ l1]) (auto simp: l1 po v(2) split: bind_splits)
qed

section \<open>The three legs\<close>

lemma stored_encode:
  assumes "stored_tlv ix d"
  shows "take (unat (d ! 1) + 2) d = encode_tlv 4 (take (unat (d ! 1)) (drop 2 d))"
    "length (take (unat (d ! 1)) (drop 2 d)) = unat (d ! 1)"
proof -
  have l: "length d = 260" "unat (d ! 1) < 128" "d ! 0 = 4"
    using assms by (auto simp: stored_tlv_def FLOOD_DATA_SIZE_def)
  have "d = d ! 0 # d ! 1 # drop 2 d" using l(1) by (cases d; cases "tl d") auto
  then have "take (unat (d ! 1) + 2) d = d ! 0 # d ! 1 # take (unat (d ! 1)) (drop 2 d)"
    by (metis add_2_eq_Suc' take_Suc_Cons)
  then show "take (unat (d ! 1) + 2) d = encode_tlv 4 (take (unat (d ! 1)) (drop 2 d))"
    using l by (simp add: encode_tlv_def)
  show "length (take (unat (d ! 1)) (drop 2 d)) = unat (d ! 1)" using l by simp
qed

lemma flush_datagram:
  assumes ok: "peer_ok s" and k: "(a, k, v) \<in> set (entries (NEIGHBORS s))"
  shows "\<exists>rc s' new. send_to_everyone_now (NEIGHBORS s) s = Some (rc, s') \<and> peer_ok s' \<and> net_step s s' \<and>
    sent s' = sent s @ new \<and> (waiting k s \<noteq> [] \<longrightarrow> (neighbor_to_sockaddr6 k, packet (waiting k s)) \<in> set new)"
proof -
  note t = peer_ok_parts(2) [OF ok] and sd = peer_ok_sendable(1) [OF ok]
  have d: "distinct (buffers (NEIGHBORS s))" using t by (simp add: trees_ok_def)
  obtain rc s' where r: "send_to_everyone_now (NEIGHBORS s) s = Some (rc, s')"
    "sent s' = sent s @ concat (map (flush s) (preorder (NEIGHBORS s)))"
    using send_to_everyone_now_flush [OF sd d] by blast
  obtain rc2 s2 where "send_to_everyone_now (NEIGHBORS s) s = Some (rc2, s2)" "net_step s s2"
    using send_to_everyone_now_step [OF sd] by blast
  then have ns: "net_step s s'" using r(1) by simp
  have "k \<in> set (preorder (NEIGHBORS s))"
    using k arg_cong [OF mset_preorder [of "NEIGHBORS s"], of set_mset] by force
  then have "waiting k s \<noteq> [] \<longrightarrow> (neighbor_to_sockaddr6 k, packet (waiting k s)) \<in>
      set (concat (map (flush s) (preorder (NEIGHBORS s))))"
    by (auto simp: flush_def intro!: bexI [of _ k])
  then show ?thesis using r ns peer_ok_net_step [OF ok ns] by blast
qed

text \<open>The peer \<open>s\<close> has one datum, for one neighbour \<open>n\<close>, with nothing else waiting for it.\<close>

definition floods_to :: "peer \<Rightarrow> addr \<Rightarrow> flood_entry \<Rightarrow> ngb_entry \<Rightarrow> neighbor \<Rightarrow> bool" where
  "floods_to s fl f x n \<longleftrightarrow> contents (DATAF s) = [Some fl] \<and> floods s fl = Some f \<and>
     contents (sym_neighbors f) = [x] \<and> deref (live s) (sym x) = Some n"

abbreviation datum :: "flood_entry \<Rightarrow> u8 list" where
  "datum f \<equiv> take (unat (flood_data f ! 1)) (drop 2 (flood_data f))"

lemma leg_flood:
  assumes ok: "peer_ok s" and f: "floods_to s fl f x n" and due: "times_sent x < 5" "wait_until x \<le> clock s (ticks s)"
    and w: "waiting n s = []"
  shows "\<exists>s' new f' y. main_flush (l, s) = Some (l, s') \<and> peer_ok s' \<and> sent s' = sent s @ new \<and>
    (neighbor_to_sockaddr6 n, packet (encode_tlv 4 (datum f))) \<in> set new \<and> floods_to s' fl f' y n \<and>
    flood_index f' = flood_index f \<and> flood_data f' = flood_data f"
proof -
  let ?s0 = "s\<lparr>ticks := Suc (ticks s)\<rparr>"
  have c: "contents (DATAF s) = [Some fl]" "floods s fl = Some f" "contents (sym_neighbors f) = [x]"
    "deref (live s) (sym x) = Some n" using f by (simp_all add: floods_to_def)
  obtain q where one: "nodes (sym_neighbors f) = [(q, x)]" using c(3) by (auto simp: contents_def)
  have fo: "flood_ok (NEIGHBORS s) (next_addr s) f" using ok c(2) by (auto simp: peer_ok_def floods_ok_def dest: table_okD(2))
  then have st: "stored_tlv (flood_index f) (flood_data f)" and pt: "points_to (NEIGHBORS s) (sym x)"
    by (simp_all add: flood_ok_def one nodes_ok_def)
  obtain a v where en: "(a, n, v) \<in> set (entries (NEIGHBORS s))"
    using pt c(4) by (fastforce simp: points_to_def split: if_splits)
  obtain s1 sd f' y where 1: "flood_message_to_neighbours (Some fl) s = Some s1" "peer_ok s1" "floods s1 fl = Some f'"
    "flood_index f' = flood_index f" "flood_data f' = flood_data f" "contents (sym_neighbors f') = [y]" "sym y = sym x"
    "NEIGHBORS s1 = NEIGHBORS s" "DATAF s1 = DATAF s" "live s1 = live s" "send_data (flood_data f) (sym x) ?s0 = Some (1, sd)"
    "sent s1 = sent sd" "msgs s1 = msgs sd"
    using single_pass [OF ok c(2) one due] by blast
  have ok0: "peer_ok ?s0" by (rule peer_ok_cong [OF ok]) simp_all
  have lv0: "live ?s0 = live s" by (simp add: live_def fun_eq_iff)
  have "msg n = None \<and> sent sd = sent ?s0 @ [(neighbor_to_sockaddr6 n, packet (take (unat (flood_data f ! 1) + 2) (flood_data f)))] \<or>
    msg n \<noteq> None \<and> sent sd = sent ?s0 \<and> waiting n sd = take (unat (flood_data f ! 1) + 2) (flood_data f)"
    by (rule send_data_datagram [OF ok0 _ _ st _ 1(11)]) (use pt c(4) lv0 w in \<open>auto simp: waiting_def split: option.splits\<close>)
  then have dg: "sent s1 = sent s @ [(neighbor_to_sockaddr6 n, packet (encode_tlv 4 (datum f)))] \<or>
    sent s1 = sent s \<and> waiting n s1 = encode_tlv 4 (datum f)"
    unfolding stored_encode(1) [OF st] using 1(12,13) by (auto simp: waiting_def split: option.splits)
  have en1: "(a, n, v) \<in> set (entries (NEIGHBORS s1))" using en 1(8) by simp
  obtain rc s2 new where 2: "send_to_everyone_now (NEIGHBORS s1) s1 = Some (rc, s2)" "peer_ok s2" "net_step s1 s2"
    "sent s2 = sent s1 @ new" "waiting n s1 \<noteq> [] \<longrightarrow> (neighbor_to_sockaddr6 n, packet (waiting n s1)) \<in> set new"
    using flush_datagram [OF 1(2) en1] by blast
  note eq = net_step_peer [OF 2(3)]
  have "flood_messages s = Some s1" by (simp add: flood_messages_def c(1) 1(1))
  then have run: "main_flush (l, s) = Some (l, s2)" by (simp add: main_flush_def 2(1))
  have "encode_tlv 4 (datum f) \<noteq> []" by (simp add: encode_tlv_def)
  then obtain new' where "sent s2 = sent s @ new'" "(neighbor_to_sockaddr6 n, packet (encode_tlv 4 (datum f))) \<in> set new'"
    using dg 2(4,5) by (elim disjE conjE) (auto simp del: length_encode_tlv)
  moreover have "floods_to s2 fl f' y n"
    using c(1,4) 1(3,6,7,9,10) eq by (simp add: floods_to_def)
  ultimately show ?thesis using run 2(2) 1(4,5) by blast
qed

lemma stored_datum:
  assumes "stored_tlv ix d" and "tlv = take (unat (d ! 1)) (drop 2 d) @ r"
  shows "data_ix tlv = ix" "take 12 tlv = take 12 (drop 2 d)" "tlv ! 12 = d ! 14"
    "take (unat (d ! 1) - 13) (drop 13 tlv) = take (unat (d ! 1) - 13) (drop 15 d)"
proof -
  have l: "length d = 260" "13 \<le> unat (d ! 1)" "unat (d ! 1) < 128"
    and w: "le_word (take 8 (drop 2 d)) = index_id ix" "le_word (take 4 (drop 10 d)) = nonce ix"
    using assms by (auto simp: stored_tlv_def FLOOD_DATA_SIZE_def)
  show t: "take 12 tlv = take 12 (drop 2 d)" using l assms(2) by (simp add: min_def)
  have "take 8 tlv = take 8 (take 12 tlv)" "take 4 (drop 8 tlv) = drop 8 (take 12 tlv)" by (simp_all add: drop_take)
  then have "take 8 tlv = take 8 (drop 2 d)" "take 4 (drop 8 tlv) = take 4 (drop 10 d)"
    unfolding t by (simp_all add: drop_take)
  then show "data_ix tlv = ix" using w by (simp add: data_ix_def)
  show "tlv ! 12 = d ! 14" using l assms(2) by (simp add: nth_append)
  have "drop 13 tlv = take (unat (d ! 1) - 13) (drop 15 d) @ r" using l assms(2) by (simp add: drop_take)
  moreover have "length (take (unat (d ! 1) - 13) (drop 15 d)) = unat (d ! 1) - 13" using l by simp
  ultimately show "take (unat (d ! 1) - 13) (drop 13 tlv) = take (unat (d ! 1) - 13) (drop 15 d)" by simp
qed

text \<open>The other peer: whatever it knows, it acknowledges; what it does not know it shows.\<close>

lemma leg_show:
  assumes ok: "peer_ok s" "locals_ok l" and sa: "length (sin6_addr sa) = 16" and st: "stored_tlv ix d"
    and e: "received e = Some (packet (encode_tlv 4 (take (unat (d ! 1)) (drop 2 d))), sa)"
  shows "\<exists>l' s'. on_socket e (l, s) = Some (l', s') \<and> client l' = sa \<and> peer_ok s' \<and>
    sent s' = sent s @ [(neighbor_to_sockaddr6 (sockaddr6_to_neighbor sa), packet (encode_tlv 5 (take 12 (drop 2 d))))] \<and>
    ((\<forall>a g. floods s a = Some g \<longrightarrow> flood_index g \<noteq> ix) \<longrightarrow> d ! 14 = 0 \<longrightarrow>
      (\<exists>t. tty s' = tty s @ [take (unat (d ! 1) - 13) (drop 15 d)] @ t \<and> set t \<subseteq> {[10]}) \<and>
      gui s' = gui s @ [[0], take (unat (d ! 1) - 13) (drop 15 d)])"
proof -
  let ?v = "take (unat (d ! 1)) (drop 2 d)" and ?p = "sockaddr6_to_neighbor sa"
  let ?tlv = "?v @ drop (length ?v) (fresh_body s)"
  have lv: "length ?v = unat (d ! 1)" by (rule stored_encode(2) [OF st])
  have n: "13 \<le> unat (d ! 1)" "unat (d ! 1) < 128" using st by (simp_all add: stored_tlv_def)
  have len: "(of_nat (length ?v) :: u8) = d ! 1" unfolding lv by simp
  have p: "sender ?p" by (rule sender_conv [OF sa])
  have dm: "data_msg ?tlv (d ! 1) s" using n lv by (simp add: data_msg_def MAX_SIZE_def)
  note sd = stored_datum [OF st refl, of "drop (length ?v) (fresh_body s)"]
  have h: "handle_tlv (unat (4 :: u8)) = (data :: u8 list \<Rightarrow> _)" by (simp add: handle_tlv_def)
  have v: "length ?v < 256" "unat (4 :: u8) < NB_TLV" "(4 :: u8) \<noteq> 0" "complete (encode_tlv 4 ?v)"
    using lv n by (simp_all add: NB_TLV_def)
  from on_socket_single [OF ok(2) v e] obtain l1 where l1: "client l1 = sa"
    "on_socket e (l, s) = do { (_, s1) \<leftarrow> data ?tlv (d ! 1) ?p s; Some (l1, s1) }"
    unfolding h len by blast
  obtain s' where s': "data ?tlv (d ! 1) ?p s = Some (1, s')" "peer_ok s'"
    "(\<exists>a f. floods s a = Some f \<and> flood_index f = ix) \<or>
      (if d ! 14 = 0 then (\<exists>t. tty s' = tty s @ [take (unat (d ! 1) - 13) (drop 15 d)] @ t \<and> set t \<subseteq> {[10]}) \<and>
         gui s' = gui s @ [[0], take (unat (d ! 1) - 13) (drop 15 d)]
       else tty s' = tty s \<and> gui s' = gui s)"
    using data_spec [OF ok(1) p dm] unfolding sd(1,3,4) by blast
  have "sent s' = sent s @ [(neighbor_to_sockaddr6 ?p, packet (encode_tlv 5 (take 12 (drop 2 d))))]"
    using data_sent [OF ok(1) p dm s'(1)] unfolding acked_def sd(2) by simp
  moreover have "on_socket e (l, s) = Some (l1, s')" using l1(2) s'(1) by simp
  ultimately show ?thesis using l1(1) s'(2,3) by (intro exI [of _ l1] exI [of _ s']) auto
qed

text \<open>The acknowledgement, back at the first peer: nobody is left to send the datum to.\<close>

lemma nkey_roundtrip [simp]: "nkey (sockaddr6_to_neighbor (neighbor_to_sockaddr6 n)) = nkey n"
  by (simp add: sockaddr6_to_neighbor_def neighbor_to_sockaddr6_def nkey_def)

lemma leg_ack:
  assumes ok: "peer_ok s" "locals_ok l" and f: "floods_to s fl f x n"
    and e: "received e = Some (packet (encode_tlv 5 (take 12 (drop 2 (flood_data f)))), neighbor_to_sockaddr6 n)"
  shows "\<exists>l' s' f'. on_socket e (l, s) = Some (l', s') \<and> peer_ok s' \<and> sent s' = sent s \<and>
    contents (DATAF s') = [Some fl] \<and> floods s' fl = Some f' \<and> contents (sym_neighbors f') = []"
proof -
  let ?v = "take 12 (drop 2 (flood_data f))" and ?p = "sockaddr6_to_neighbor (neighbor_to_sockaddr6 n)"
  let ?tlv = "?v @ drop (length ?v) (fresh_body s)"
  have c: "contents (DATAF s) = [Some fl]" "floods s fl = Some f" "contents (sym_neighbors f) = [x]"
    "deref (live s) (sym x) = Some n" using f by (simp_all add: floods_to_def)
  obtain q where one: "nodes (sym_neighbors f) = [(q, x)]" using c(3) by (auto simp: contents_def)
  have b: "bst (NEIGHBORS s)" "floods_ok s" using ok by (simp_all add: peer_ok_def trees_ok_def)
  have tb: "table_ok (NEIGHBORS s) (next_addr s) (floods s)" using b(2) by (simp add: floods_ok_def)
  have fo: "flood_ok (NEIGHBORS s) (next_addr s) f" by (rule table_okD(2) [OF tb c(2)])
  then have st: "stored_tlv (flood_index f) (flood_data f)" and pt: "points_to (NEIGHBORS s) (sym x)"
    by (simp_all add: flood_ok_def one nodes_ok_def)
  have key: "pkey (sym x) = nkey n" by (rule deref_pkey [OF c(4)])
  have "wf_neighbor n" using pt c(4) b(1) by (fastforce simp: points_to_def bst_def split: if_splits)
  then have w: "length (ip n) = 16" by (simp add: wf_neighbor_def)
  have p: "sender ?p" by (rule sender_conv) (use w in \<open>simp add: neighbor_to_sockaddr6_def\<close>)
  then have wf: "wf_neighbor ?p" by (simp add: sender_def)
  have lv: "length ?v = 12" using st by (simp add: stored_tlv_def FLOOD_DATA_SIZE_def)
  have v: "length ?v < 256" "unat (5 :: u8) < NB_TLV" "(5 :: u8) \<noteq> 0" "complete (encode_tlv 5 ?v)"
    using lv by (simp_all add: NB_TLV_def)
  have h: "handle_tlv (unat (5 :: u8)) = (ack :: u8 list \<Rightarrow> _)" by (simp add: handle_tlv_def)
  have lt: "length ?tlv = MAX_SIZE" using lv by (simp add: MAX_SIZE_def)
  have "le_word (take 8 ?tlv) = index_id (flood_index f)" "le_word (take 4 (drop 8 ?tlv)) = nonce (flood_index f)"
    using lv st by (simp_all add: stored_tlv_def drop_take)
  then have ix: "\<lparr>index_id = le_word (take 8 ?tlv), nonce = le_word (take 4 (drop 8 ?tlv))\<rparr> = flood_index f" by simp
  have pk: "peek ?tlv 0 8 = Some (take 8 ?tlv)" "peek ?tlv 8 4 = Some (take 4 (drop 8 ?tlv))"
    using peek_array [OF lt, of 0 8] peek_array [OF lt, of 8 4] by simp_all
  have run: "ack ?tlv len ?p s = do { (_, s1) \<leftarrow> remove_neighbor_from_flood (flood_index f) (Local ?p) s; Some (1, s1) }" for len
    unfolding ack_def pk bind.bind_lunit ix ..
  have uniq: "a = fl \<and> f0 = f" if a: "floods s a = Some f0" "flood_index f0 = flood_index f" for a f0
    using table_okD(3) [OF tb a(1) c(2) a(2)] a(1) c(2) by simp
  from remove_neighbor_from_flood_spec [OF b deref.simps(1) wf, of "flood_index f"] obtain a f0 g where
    "floods s a = Some f0" "flood_index f0 = flood_index f" "stripped (nkey ?p) f0 g"
    "remove_neighbor_from_flood (flood_index f) (Local ?p) s = Some (1, s\<lparr>floods := (floods s)(a \<mapsto> g)\<rparr>)"
    using c(2) by blast
  with uniq have g: "stripped (nkey n) f g"
    "remove_neighbor_from_flood (flood_index f) (Local ?p) s = Some (1, s\<lparr>floods := (floods s)(fl \<mapsto> g)\<rparr>)"
    by (metis nkey_roundtrip)+
  let ?s' = "s\<lparr>floods := (floods s)(fl \<mapsto> g)\<rparr>"
  from on_socket_single [OF ok(2) v e] obtain l1 where
    "on_socket e (l, s) = do { (_, s1) \<leftarrow> ack ?tlv (of_nat (length ?v)) ?p s; Some (l1, s1) }" unfolding h by blast
  then have "on_socket e (l, s) = Some (l1, ?s')" unfolding run g(2) by simp
  moreover have "peer_ok ?s'" using remove_from_flood_ok [OF ok(1) p, of "flood_index f"] g(2) by simp
  moreover have "contents (sym_neighbors g) = []" using g(1) key by (simp add: stripped_def one contents_def)
  ultimately show ?thesis using c(1) by auto
qed

section \<open>The exchange\<close>

lemma blank_peer_ok: "peer_ok blank_peer"
  using blank_ok(2)
  by (simp add: peer_ok_def trees_ok_def floods_ok_def queue_ok_def table_ok_def blank_peer_def bst_def tree_keys_def
      tree_addrs_def live_def wf_clist_def init_list_def contents_def)

lemma flood_nobody:
  assumes "env_ok s" "contents (DATAF s) = [Some fl]" "floods s fl = Some f" "contents (sym_neighbors f) = []"
  shows "flood_messages s = Some (s\<lparr>ticks := Suc (ticks s)\<rparr>)"
proof -
  have "nodes (sym_neighbors f) = []" using assms(4) by (simp add: contents_def)
  then show ?thesis
    using assms(2,3) env_get_seconds [OF assms(1)]
    by (simp add: flood_messages_def flood_message_to_neighbours_def flood_loop.simps [of fl None])
qed

text \<open>
  C4: a datum is delivered, acknowledged and laid to rest.  When the datum a peer holds for a
  neighbour is due, one round of the main loop sends the neighbour a datagram; the neighbour,
  receiving these bytes, answers with one datagram, and shows a text that is new to it on its
  terminal and in its browser; the first peer, receiving this answer, crosses the neighbour off, and
  the next pass over its data sends nothing.
\<close>

theorem datum_exchanged:
  assumes a: "peer_ok a" "locals_ok la" "floods_to a fl f x n" "waiting n a = []"
    and due: "times_sent x < 5" "wait_until x \<le> clock a (ticks a)"
    and b: "peer_ok b" "locals_ok lb" "\<forall>q g. floods b q = Some g \<longrightarrow> flood_index g \<noteq> flood_index f"
    and chat: "flood_data f ! 14 = 0" and sa: "length (sin6_addr sa) = 16"
  shows "\<exists>a1 new bs. main_flush (la, a) = Some (la, a1) \<and> sent a1 = sent a @ new \<and> (neighbor_to_sockaddr6 n, bs) \<in> set new \<and>
    (\<forall>e. received e = Some (bs, sa) \<longrightarrow>
      (\<exists>lb1 b1 t ak. on_socket e (lb, b) = Some (lb1, b1) \<and>
        tty b1 = tty b @ [take (unat (flood_data f ! 1) - 13) (drop 15 (flood_data f))] @ t \<and> set t \<subseteq> {[10]} \<and>
        gui b1 = gui b @ [[0], take (unat (flood_data f ! 1) - 13) (drop 15 (flood_data f))] \<and>
        sent b1 = sent b @ [(neighbor_to_sockaddr6 (sockaddr6_to_neighbor sa), ak)] \<and>
        (\<forall>e2. received e2 = Some (ak, neighbor_to_sockaddr6 n) \<longrightarrow>
          (\<exists>la2 a2 a3. on_socket e2 (la, a1) = Some (la2, a2) \<and> sent a2 = sent a1 \<and>
            flood_messages a2 = Some a3 \<and> sent a3 = sent a2 \<and> msgs a3 = msgs a2))))"
proof -
  obtain a1 new f1 y where 1: "main_flush (la, a) = Some (la, a1)" "peer_ok a1" "sent a1 = sent a @ new"
    "(neighbor_to_sockaddr6 n, packet (encode_tlv 4 (datum f))) \<in> set new" "floods_to a1 fl f1 y n"
    "flood_data f1 = flood_data f"
    using leg_flood [OF a(1,3) due a(4)] by blast
  have st: "stored_tlv (flood_index f) (flood_data f)"
    using a(1,3) by (auto simp: floods_to_def peer_ok_def floods_ok_def flood_ok_def dest: table_okD(2))
  let ?ak = "packet (encode_tlv 5 (take 12 (drop 2 (flood_data f))))"
  have last: "\<exists>la2 a2 a3. on_socket e2 (la, a1) = Some (la2, a2) \<and> sent a2 = sent a1 \<and>
      flood_messages a2 = Some a3 \<and> sent a3 = sent a2 \<and> msgs a3 = msgs a2"
    if e2: "received e2 = Some (?ak, neighbor_to_sockaddr6 n)" for e2
  proof -
    obtain la2 a2 f2 where 2: "on_socket e2 (la, a1) = Some (la2, a2)" "peer_ok a2" "sent a2 = sent a1"
      "contents (DATAF a2) = [Some fl]" "floods a2 fl = Some f2" "contents (sym_neighbors f2) = []"
      using leg_ack [OF 1(2) a(2) 1(5)] e2 unfolding 1(6) by blast
    show ?thesis using 2(1,3) flood_nobody [OF peer_ok_parts(1) [OF 2(2)] 2(4-6)] by simp
  qed
  have shown: "\<exists>lb1 b1 t. on_socket e (lb, b) = Some (lb1, b1) \<and>
      tty b1 = tty b @ [take (unat (flood_data f ! 1) - 13) (drop 15 (flood_data f))] @ t \<and> set t \<subseteq> {[10]} \<and>
      gui b1 = gui b @ [[0], take (unat (flood_data f ! 1) - 13) (drop 15 (flood_data f))] \<and>
      sent b1 = sent b @ [(neighbor_to_sockaddr6 (sockaddr6_to_neighbor sa), ?ak)]"
    if e: "received e = Some (packet (encode_tlv 4 (datum f)), sa)" for e
    using leg_show [OF b(1,2) sa st e] b(3) chat by blast
  show ?thesis
    by (rule exI [of _ a1], rule exI [of _ new], rule exI [of _ "packet (encode_tlv 4 (datum f))"])
      (use 1(1,3,4) shown last in blast)
qed

definition arrives :: "u8 list \<Rightarrow> sockaddr_in6 \<Rightarrow> io" where
  "arrives bs sa = \<lparr>sel = True, soc_ready = True, gui_ready = False, received = Some (bs, sa), typed = None\<rparr>"

theorem datum_exchanged_witness:
  "\<exists>a1 bs lb1 b1 t ak la2 a2 a3. main_flush (blank_locals, one_neighbor) = Some (blank_locals, a1) \<and>
    (neighbor_to_sockaddr6 some_neighbor, bs) \<in> set (sent a1) \<and>
    on_socket (arrives bs blank_address) (blank_locals, blank_peer) = Some (lb1, b1) \<and>
    tty b1 = [65] # t \<and> gui b1 = [[0], [65]] \<and> map snd (sent b1) = [ak] \<and>
    on_socket (arrives ak (neighbor_to_sockaddr6 some_neighbor)) (blank_locals, a1) = Some (la2, a2) \<and>
    flood_messages a2 = Some a3 \<and> sent a3 = sent a1"
proof -
  have f: "floods_to one_neighbor 5 some_flood some_entry some_neighbor"
    by (simp add: floods_to_def one_neighbor_def some_flood_def some_entry_def contents_def live_def tree_addrs_def blank_peer_def)
  have w: "waiting some_neighbor one_neighbor = []"
    by (simp add: waiting_def some_neighbor_def one_neighbor_def some_message_def pending_def)
  have d: "flood_data some_flood ! 14 = 0" "take (unat (flood_data some_flood ! 1) - 13) (drop 15 (flood_data some_flood)) = [65]"
    by (simp_all add: some_flood_def nth_append)
  have due: "times_sent some_entry < 5" "wait_until some_entry \<le> clock one_neighbor (ticks one_neighbor)"
    by (simp_all add: some_entry_def one_neighbor_def blank_peer_def)
  have b: "\<forall>q g. floods blank_peer q = Some g \<longrightarrow> flood_index g \<noteq> flood_index some_flood" by (simp add: blank_peer_def)
  have sa: "length (sin6_addr blank_address) = 16" by (simp add: blank_address_def)
  have "sent one_neighbor = []" "sent blank_peer = []" "tty blank_peer = []" "gui blank_peer = []" by (simp_all add: one_neighbor_def blank_peer_def)
  moreover obtain a1 new bs where 1: "main_flush (blank_locals, one_neighbor) = Some (blank_locals, a1)"
    "sent a1 = sent one_neighbor @ new" "(neighbor_to_sockaddr6 some_neighbor, bs) \<in> set new" and
    2: "received e = Some (bs, blank_address) \<Longrightarrow>
      \<exists>lb1 b1 t ak. on_socket e (blank_locals, blank_peer) = Some (lb1, b1) \<and> tty b1 = tty blank_peer @ [[65]] @ t \<and> set t \<subseteq> {[10]} \<and>
        gui b1 = gui blank_peer @ [[0], [65]] \<and>
        sent b1 = sent blank_peer @ [(neighbor_to_sockaddr6 (sockaddr6_to_neighbor blank_address), ak)] \<and>
        (\<forall>e2. received e2 = Some (ak, neighbor_to_sockaddr6 some_neighbor) \<longrightarrow>
          (\<exists>la2 a2 a3. on_socket e2 (blank_locals, a1) = Some (la2, a2) \<and> sent a2 = sent a1 \<and>
            flood_messages a2 = Some a3 \<and> sent a3 = sent a2 \<and> msgs a3 = msgs a2))" for e
    using datum_exchanged [OF one_neighbor_ok blank_ok(3) f w due blank_peer_ok blank_ok(3) b d(1) sa]
    unfolding d(2) by blast
  moreover obtain lb1 b1 t ak where 3: "on_socket (arrives bs blank_address) (blank_locals, blank_peer) = Some (lb1, b1)"
    "tty b1 = tty blank_peer @ [[65]] @ t" "gui b1 = gui blank_peer @ [[0], [65]]"
    "sent b1 = sent blank_peer @ [(neighbor_to_sockaddr6 (sockaddr6_to_neighbor blank_address), ak)]"
    "\<exists>la2 a2 a3. on_socket (arrives ak (neighbor_to_sockaddr6 some_neighbor)) (blank_locals, a1) = Some (la2, a2) \<and> sent a2 = sent a1 \<and>
      flood_messages a2 = Some a3 \<and> sent a3 = sent a2 \<and> msgs a3 = msgs a2"
    using 2 [of "arrives bs blank_address"] unfolding arrives_def by (metis io.select_convs(4))
  ultimately show ?thesis by auto
qed

text \<open>
  What is typed at one peer is what the other shows.  A line typed in the browser of a peer is
  filed under a new address; when a datagram with the filed TLV (the one \<open>flood_messages\<close> sends)
  reaches a peer that has nothing of the first, exactly the typed bytes appear on its terminal and
  go to its browser, behind the zero byte.
\<close>

lemma typed_line_shown:
  assumes a: "peer_ok a" "gui_ok e a" "typed e = Some bs"
    and b: "peer_ok b" "locals_ok lb" "\<forall>q g. floods b q = Some g \<longrightarrow> index_id (flood_index g) \<noteq> ID a"
    and sa: "length (sin6_addr sa) = 16"
  shows "\<exists>a1 fl f. on_gui e a = Some a1 \<and> floods a fl = None \<and> floods a1 fl = Some f \<and>
    (\<forall>e2. received e2 = Some (packet (encode_tlv 4 (datum f)), sa) \<longrightarrow>
      (\<exists>lb1 b1 t. on_socket e2 (lb, b) = Some (lb1, b1) \<and>
        tty b1 = tty b @ [gui_text bs] @ t \<and> set t \<subseteq> {[10]} \<and> gui b1 = gui b @ [[0], gui_text bs]))"
proof -
  let ?n = "13 + length (gui_text bs)"
  obtain a1 fl f non where r: "on_gui e a = Some a1" "peer_ok a1" "floods a fl = None" "floods a1 fl = Some f" "length non = 4"
    "flood_index f = \<lparr>index_id = ID a, nonce = le_word non\<rparr>"
    "take (15 + length (gui_text bs)) (flood_data f) = [4, of_nat ?n] @ le_bytes 8 (ID a) @ non @ [0] @ gui_text bs"
    using typed_line_stored [OF a] by blast
  let ?d = "flood_data f"
  have st: "stored_tlv (flood_index f) ?d"
    using r(2,4) by (auto simp: peer_ok_def floods_ok_def flood_ok_def dest: table_okD(2))
  have "length (gui_text bs) \<le> 114" using a(2,3) by (auto simp: gui_ok_def)
  then have u: "unat (of_nat ?n :: u8) = ?n" by (intro unat_of_nat_u8) simp
  have "?d ! 1 = (of_nat ?n :: u8)" using arg_cong [OF r(7), of "\<lambda>xs. xs ! 1"] by simp
  then have n: "unat (?d ! 1) = ?n" using u by simp
  have z: "?d ! 14 = 0" using arg_cong [OF r(7), of "\<lambda>xs. xs ! 14"] r(5) by (simp add: nth_append)
  have x: "take (unat (?d ! 1) - 13) (drop 15 ?d) = gui_text bs"
    using arg_cong [OF r(7), of "drop 15"] r(5) n by (simp add: drop_take)
  have new: "\<forall>q g. floods b q = Some g \<longrightarrow> flood_index g \<noteq> flood_index f" using b(3) r(6) by force
  have "\<exists>lb1 b1 t. on_socket e2 (lb, b) = Some (lb1, b1) \<and>
      tty b1 = tty b @ [gui_text bs] @ t \<and> set t \<subseteq> {[10]} \<and> gui b1 = gui b @ [[0], gui_text bs]"
    if "received e2 = Some (packet (encode_tlv 4 (datum f)), sa)" for e2
    using leg_show [OF b(1,2) sa st that] new z unfolding x by blast
  then show ?thesis using r(1,3,4) by blast
qed

lemma typed_line_shown_example:
  "\<exists>a1 f lb1 b1 t. on_gui typed_hi one_neighbor = Some a1 \<and>
    on_socket (arrives (packet (encode_tlv 4 (datum f))) blank_address) (blank_locals, blank_peer) = Some (lb1, b1) \<and>
    tty b1 = [72, 105] # t \<and> gui b1 = [[0], [72, 105]]"
proof -
  have t: "typed typed_hi = Some [72, 105, 10]" "gui_text [72, 105, 10] = [72, 105]"
    by (simp_all add: typed_hi_def gui_text_def strip_last_def)
  have b: "\<forall>q g. floods blank_peer q = Some g \<longrightarrow> index_id (flood_index g) \<noteq> ID one_neighbor" by (simp add: blank_peer_def)
  have sa: "length (sin6_addr blank_address) = 16" by (simp add: blank_address_def)
  have o: "tty blank_peer = []" "gui blank_peer = []" by (simp_all add: blank_peer_def)
  obtain a1 f where 1: "on_gui typed_hi one_neighbor = Some a1" and
    2: "\<forall>e2. received e2 = Some (packet (encode_tlv 4 (datum f)), blank_address) \<longrightarrow>
      (\<exists>lb1 b1 t. on_socket e2 (blank_locals, blank_peer) = Some (lb1, b1) \<and>
        tty b1 = tty blank_peer @ [[72, 105]] @ t \<and> set t \<subseteq> {[10]} \<and> gui b1 = gui blank_peer @ [[0], [72, 105]])"
    using typed_line_shown [OF one_neighbor_ok typed_hi_ok t(1) blank_peer_ok blank_ok(3) b sa] unfolding t(2) by blast
  have "received (arrives (packet (encode_tlv 4 (datum f))) blank_address) =
      Some (packet (encode_tlv 4 (datum f)), blank_address)" by (simp add: arrives_def)
  then obtain lb1 b1 t where "on_socket (arrives (packet (encode_tlv 4 (datum f))) blank_address) (blank_locals, blank_peer) = Some (lb1, b1)"
    "tty b1 = tty blank_peer @ [[72, 105]] @ t" "gui b1 = gui blank_peer @ [[0], [72, 105]]"
    using 2 by blast
  with 1 o show ?thesis by auto
qed

end
