(* ===== verification/Handshake.thy ===== *)
theory Handshake
  imports Exchange
begin

text \<open>
  How two peers that know nobody become neighbours: the short hello of one that starts, the long
  hello it gets for an answer, and the long hello it answers with.
\<close>

section \<open>Meeting somebody for the first time\<close>

text \<open>The first neighbour is the whole tree, with an empty buffer.\<close>

lemma add_first:
  assumes ok: "peer_ok s" and p: "wf_neighbor p" and n: "NEIGHBORS s = Null"
  shows "\<exists>m. add_neighbor p (Some v) s = Some (1, s\<lparr>next_addr := next_addr s + 4, msgs := (msgs s)(next_addr s \<mapsto> m),
      NEIGHBORS := Tree (next_addr s + 3) (p\<lparr>msg := Some (next_addr s)\<rparr>) v Null Null\<rparr>) \<and> good_msg m \<and> pending m = [] \<and>
    peer_ok (s\<lparr>next_addr := next_addr s + 4, msgs := (msgs s)(next_addr s \<mapsto> m),
      NEIGHBORS := Tree (next_addr s + 3) (p\<lparr>msg := Some (next_addr s)\<rparr>) v Null Null\<rparr>)"
proof -
  let ?a = "next_addr s"
  let ?m = "\<lparr>magic = 93, version = 2, body_length = 0, body = fresh_body s\<rparr>"
  let ?s' = "s\<lparr>next_addr := ?a + 4, msgs := (msgs s)(?a \<mapsto> ?m), NEIGHBORS := Tree (?a + 3) (p\<lparr>msg := Some ?a\<rparr>) v Null Null\<rparr>"
  have e: "malloc_ok s" using peer_ok_parts(1) [OF ok] by (simp add: env_ok_def)
  have fb: "fresh_body (s\<lparr>next_addr := Suc ?a\<rparr>) = fresh_body s" by (simp add: fresh_body_def)
  have run: "add_neighbor p (Some v) s = Some (1, ?s')"
    using e n fb by (simp add: add_neighbor_def init_def malloc_def malloc_ok_def Let_def eval_nat_numeral)
  moreover have "peer_ok ?s'" using add_neighbor_spec [OF ok p, of v] run by auto
  moreover have "good_msg ?m" "pending ?m = []" by (simp_all add: good_msg_def pending_def PMTU_def)
  ultimately show ?thesis by blast
qed

lemma register_first:
  assumes ok: "peer_ok s" and p: "sender p" and n: "NEIGHBORS s = Null"
  shows "\<exists>s' a k. register p v s = Some s' \<and> peer_ok s' \<and> NEIGHBORS s' = Tree a k v Null Null \<and> nkey k = nkey p \<and>
    waiting k s' = encode_tlv 2 (le_bytes 8 (ID s) @ le_bytes 8 (ident_id v)) \<and> sent s' = sent s \<and> DATAF s' = DATAF s \<and> ID s' = ID s \<and>
    clock s' = clock s"
proof -
  have wf: "wf_neighbor p" using p by (simp add: sender_def)
  let ?a = "next_addr s" and ?k = "p\<lparr>msg := Some (next_addr s)\<rparr>"
  obtain m where m: "add_neighbor p (Some v) s = Some (1, s\<lparr>next_addr := ?a + 4, msgs := (msgs s)(?a \<mapsto> m),
      NEIGHBORS := Tree (?a + 3) ?k v Null Null\<rparr>)" "good_msg m" "pending m = []"
    "peer_ok (s\<lparr>next_addr := ?a + 4, msgs := (msgs s)(?a \<mapsto> m), NEIGHBORS := Tree (?a + 3) ?k v Null Null\<rparr>)"
    using add_first [OF ok wf n, of v] by blast
  let ?s1 = "s\<lparr>next_addr := ?a + 4, msgs := (msgs s)(?a \<mapsto> m), NEIGHBORS := Tree (?a + 3) ?k v Null Null\<rparr>"
  obtain t where t: "remove_potential p ?s1 = Some (?s1\<lparr>POTENTIAL := t\<rparr>)" "peer_ok (?s1\<lparr>POTENTIAL := t\<rparr>)"
    using remove_potential_spec [OF m(4) wf] by blast
  let ?s2 = "?s1\<lparr>POTENTIAL := t\<rparr>"
  obtain b where b: "tlv_long_hello (fresh_body ?s2) 0 body_room (ID s) (ident_id v) = Some (18, b)"
    "good_msg (compose ?s2 b 18)" "body_size (compose ?s2 b 18) = 18"
    "pending (compose ?s2 b 18) = encode_tlv 2 (le_bytes 8 (ID s) @ le_bytes 8 (ident_id v))"
    by (rule long_hello_message)
  have "body_size m = 0" using length_pending [OF m(2)] m(3) by simp
  then have fits: "body_size m + body_size (compose ?s2 b 18) + 4 \<le> PMTU" using b(3) by (simp add: PMTU_def)
  have mk: "msg ?k = Some ?a" "msgs ?s2 ?a = Some m" by simp_all
  obtain m' s3 where s3: "send_message (compose ?s2 b 18) 22 ?k ?s2 = Some (1, s3)" "msgs s3 = (msgs ?s2)(?a \<mapsto> m')"
    "s3 = ?s2\<lparr>msgs := msgs s3, sent := sent s3\<rparr>" "pending m' = pending (compose ?s2 b 18)" "sent s3 = sent ?s2"
    using send_message_buffered [OF b(2) mk m(2), of 22, unfolded if_P [OF fits]] unfolding m(3) append_Nil by blast
  have se: "send_hello_everyone (NEIGHBORS ?s2) ?s2 = Some (1, s3)"
    using b(1) s3(1) by (simp add: Let_def del: body_room_eq)
  have "send_message (compose ?s2 b 18) 22 ?k ?s2 = Some (1, s4) \<Longrightarrow> net_step ?s2 s4 \<Longrightarrow> net_step ?s2 s3" for s4
    using s3(1) by simp
  then have ns: "net_step ?s2 s3"
    using send_message_step [OF b(2), of 22 ?s2 ?k] b(3) mk m(2) by (auto simp: sendable_def)
  have "register p v s = Some s3" using m(1) t(1) se by (simp add: register_def)
  moreover have "waiting ?k s3 = encode_tlv 2 (le_bytes 8 (ID s) @ le_bytes 8 (ident_id v))"
    using s3(2,4) b(4) by (simp add: waiting_def)
  moreover have "NEIGHBORS s3 = Tree (?a + 3) ?k v Null Null" "DATAF s3 = DATAF s" "ID s3 = ID s" "clock s3 = clock s"
    using net_step_peer [OF ns] by simp_all
  moreover have "sent s3 = sent s" "nkey ?k = nkey p" using s3(5) by (simp_all add: nkey_def)
  ultimately show ?thesis using peer_ok_net_step [OF t(2) ns] by blast
qed

section \<open>One leg\<close>

text \<open>What \<open>s'\<close> has of a long hello of \<open>p\<close> that arrived in the state \<open>s\<close>.\<close>

definition heard :: "'z peer_scheme \<Rightarrow> 'z peer_scheme \<Rightarrow> neighbor \<Rightarrow> bool" where
  "heard s s' p \<longleftrightarrow> (\<exists>u. get_ident (NEIGHBORS s') p = Some u \<and> last_hello_long u = clock s (ticks s))"

lemma on_socket_locals:
  assumes "on_socket e (l, s) = Some (l1, s1)" "locals_ok l" "received e = Some (bs, sa)" "length (sin6_addr sa) = 16"
  shows "locals_ok l1"
  using assms
  by (auto simp: on_socket_def receive_def locals_ok_def Let_def bytes_message_def split: bind_splits)

lemma hello_bytes:
  fixes i j :: u64
  assumes "v = le_bytes 8 i @ r" "r = [] \<or> r = le_bytes 8 j"
  shows "length v = 8 + length r" "length v \<le> 16" "take 8 (v @ x) = le_bytes 8 i" "r \<noteq> [] \<Longrightarrow> take 8 (drop 8 (v @ x)) = le_bytes 8 j"
    "(of_nat (length v) :: u8) = 16 \<longleftrightarrow> r \<noteq> []"
  using assms by (auto simp: word_eq_iff_unsigned)

lemma leg_hello:
  fixes i :: u64
  assumes ok: "peer_ok s" "locals_ok l" and n: "NEIGHBORS s = Null" "contents (DATAF s) = []" and sa: "length (sin6_addr sa) = 16"
    and v: "v = le_bytes 8 i @ r" "r = [] \<or> r = le_bytes 8 (ID s)" and e: "received e = Some (packet (encode_tlv 2 v), sa)"
  shows "\<exists>l1 s1 s2. on_socket e (l, s) = Some (l1, s1) \<and> locals_ok l1 \<and> main_flush (l1, s1) = Some (l1, s2) \<and> peer_ok s2 \<and>
    ID s2 = ID s \<and> sent s2 = sent s @ [(neighbor_to_sockaddr6 (sockaddr6_to_neighbor sa),
      packet (encode_tlv 2 (le_bytes 8 (ID s) @ le_bytes 8 i)))] \<and>
    (r \<noteq> [] \<longrightarrow> heard s s1 (sockaddr6_to_neighbor sa)) \<and>
    peer_ok s1 \<and> clock s1 = clock s \<and> (\<exists>a k u. NEIGHBORS s1 = Tree a k u Null Null)"
proof -
  let ?p = "sockaddr6_to_neighbor sa" and ?tlv = "v @ drop (length v) (fresh_body s)" and ?len = "of_nat (length v) :: u8"
  let ?s0 = "s\<lparr>ticks := Suc (ticks s)\<rparr>"
  note hb = hello_bytes [OF v]
  have p: "sender ?p" by (rule sender_conv [OF sa])
  have lt: "length ?tlv = MAX_SIZE" using hb(2) by (simp add: MAX_SIZE_def)
  have h: "handle_tlv (unat (2 :: u8)) = (hello :: u8 list \<Rightarrow> _)" by (simp add: handle_tlv_def)
  have ok0: "peer_ok ?s0" by (rule peer_ok_cong [OF ok(1)]) simp_all
  let ?u = "\<lparr>ident_id = i, last_hello = clock s (ticks s), last_hello_long = (if r = [] then 0 else clock s (ticks s))\<rparr>"
  have n0: "NEIGHBORS ?s0 = Null" using n by simp
  obtain s1 a k where 1: "register ?p ?u ?s0 = Some s1" "peer_ok s1" "NEIGHBORS s1 = Tree a k ?u Null Null" "nkey k = nkey ?p"
    "waiting k s1 = encode_tlv 2 (le_bytes 8 (ID s) @ le_bytes 8 i)" "sent s1 = sent s" "DATAF s1 = DATAF s" "ID s1 = ID s" "clock s1 = clock s"
    using register_first [OF ok0 p n0, of ?u] by auto
  have run: "hello ?tlv ?len ?p s = Some (1, s1)"
  proof -
    have "get_seconds s = (clock s (ticks s), ?s0)" by (rule env_get_seconds [OF peer_ok_parts(1) [OF ok(1)]])
    moreover have "peek ?tlv 0 8 = Some (le_bytes 8 i)" using peek_array [OF lt, of 0 8] hb(3) by simp
    moreover have "peek ?tlv 8 8 = Some (le_bytes 8 (ID s))" if r: "r \<noteq> []"
      using peek_array [OF lt, of 8 8] unfolding hb(4) [OF r] by simp
    ultimately show ?thesis using hb(5) 1(1) by (cases "r = []") (simp_all add: hello_def le_word_le_bytes)
  qed
  have c: "length v < 256" "unat (2 :: u8) < NB_TLV" "(2 :: u8) \<noteq> 0" "complete (encode_tlv 2 v)"
    using hb(2) by (simp_all add: NB_TLV_def)
  from on_socket_single [OF ok(2) c e] obtain l1 where
    "on_socket e (l, s) = do { (_, s1) \<leftarrow> hello ?tlv ?len ?p s; Some (l1, s1) }" unfolding h by blast
  then have os: "on_socket e (l, s) = Some (l1, s1)" unfolding run by simp
  note lk = on_socket_locals [OF os ok(2) e sa]
  have fm: "flood_messages s1 = Some s1" using n(2) 1(7) by (simp add: flood_messages_def)
  have d: "distinct (buffers (NEIGHBORS s1))" using peer_ok_parts(2) [OF 1(2)] by (simp add: trees_ok_def)
  obtain rc s2 where 2: "send_to_everyone_now (NEIGHBORS s1) s1 = Some (rc, s2)"
    "sent s2 = sent s1 @ concat (map (flush s1) (preorder (NEIGHBORS s1)))"
    using send_to_everyone_now_flush [OF peer_ok_sendable(1) [OF 1(2)] d] by blast
  obtain rc2 s3 where "send_to_everyone_now (NEIGHBORS s1) s1 = Some (rc2, s3)" "net_step s1 s3"
    using send_to_everyone_now_step [OF peer_ok_sendable(1) [OF 1(2)]] by blast
  then have ns: "net_step s1 s2" using 2(1) by simp
  have "main_flush (l1, s1) = Some (l1, s2)" using fm 2(1) by (simp add: main_flush_def)
  moreover have "sent s2 = sent s @ [(neighbor_to_sockaddr6 ?p, packet (encode_tlv 2 (le_bytes 8 (ID s) @ le_bytes 8 i)))]"
  proof -
    have "encode_tlv 2 (le_bytes 8 (ID s) @ le_bytes 8 i) \<noteq> []" by (simp add: encode_tlv_def)
    moreover have "neighbor_to_sockaddr6 k = neighbor_to_sockaddr6 ?p" using 1(4) by (simp add: sockaddr_inj)
    ultimately show ?thesis using 2(2) 1(3,5,6) by (simp add: flush_def)
  qed
  moreover have "r \<noteq> [] \<longrightarrow> heard s s1 ?p"
  proof -
    have "wf_neighbor ?p" "bst (NEIGHBORS s1)" using p peer_ok_parts(2) [OF 1(2)] by (simp_all add: sender_def trees_ok_def)
    then have "get_ident (NEIGHBORS s1) ?p = Some ?u"
      using get_ident_split [of "NEIGHBORS s1" ?p "[]" a k ?u "[]"] 1(3,4) by simp
    then show ?thesis by (simp add: heard_def)
  qed
  moreover have "ID s2 = ID s" using net_step_peer(5) [OF ns] 1(8) by simp
  ultimately show ?thesis using os lk peer_ok_net_step [OF 1(2) ns] 1(2,3,9) by blast
qed

lemma leg_answer:
  fixes i :: u64
  assumes ok: "peer_ok s" "locals_ok l" and sa: "length (sin6_addr sa) = 16"
    and e: "received e = Some (packet (encode_tlv 2 (le_bytes 8 i @ le_bytes 8 (ID s))), sa)"
  shows "\<exists>l1 s1. on_socket e (l, s) = Some (l1, s1) \<and> peer_ok s1 \<and> heard s s1 (sockaddr6_to_neighbor sa)"
proof -
  let ?p = "sockaddr6_to_neighbor sa" and ?v = "le_bytes 8 i @ le_bytes 8 (ID s)"
  let ?tlv = "?v @ drop (length ?v) (fresh_body s)" and ?len = "of_nat (length ?v) :: u8"
  note hb = hello_bytes [where i = i and j = "ID s", OF refl disjI2 [OF refl]]
  have ne: "le_bytes 8 (ID s) \<noteq> []" using length_le_bytes [of 8 "ID s"] by fastforce
  have p: "sender ?p" by (rule sender_conv [OF sa])
  have lt: "length ?tlv = MAX_SIZE" using hb(2) by (simp add: MAX_SIZE_def)
  have h: "handle_tlv (unat (2 :: u8)) = (hello :: u8 list \<Rightarrow> _)" by (simp add: handle_tlv_def)
  have len: "?len = 16" using hb(5) ne by blast
  have id: "le_word (take 8 (drop 8 ?tlv)) = ID s" unfolding hb(4) [OF ne] by (simp add: le_word_le_bytes)
  obtain s1 where 1: "hello ?tlv ?len ?p s = Some (1, s1)" "peer_ok s1" "heard s s1 ?p"
    using hello_spec [OF ok(1) p lt, of ?len] len id by (auto simp: heard_def)
  have c: "length ?v < 256" "unat (2 :: u8) < NB_TLV" "(2 :: u8) \<noteq> 0" "complete (encode_tlv 2 ?v)"
    using hb(2) by (simp_all add: NB_TLV_def)
  from on_socket_single [OF ok(2) c e] obtain l1 where
    "on_socket e (l, s) = do { (_, s1) \<leftarrow> hello ?tlv ?len ?p s; Some (l1, s1) }" unfolding h by blast
  then show ?thesis using 1 by simp
qed

section \<open>The handshake\<close>

text \<open>
  C6: two peers meet.  A peer that starts sends a short hello to every address it is given; a peer
  there that has no neighbours yet answers with one datagram, a long hello; the
  first, receiving it, has the other as a neighbour whose long hello it heard now, and answers
  in turn with one long hello, and the other, receiving that, has heard it too: both
  are symmetric neighbours, after three datagrams.
\<close>

theorem peers_meet:
  assumes b0: "zero_globals b0" "env_ok b0" "locals_ok lb0" and addr: "0 \<le> rc" "to_a \<in> set addrs"
    and a: "peer_ok a" "locals_ok la" "NEIGHBORS a = Null" "contents (DATAF a) = []"
    and sa: "length (sin6_addr sa) = 16" "length (sin6_addr sb) = 16"
  shows "\<exists>lb b bs. main_init rc addrs (lb0, b0) = Some (lb, b) \<and> (to_a, bs) \<in> set (sent b) \<and>
    (\<forall>e1. received e1 = Some (bs, sb) \<longrightarrow>
      (\<exists>la1 a1 a2 bs1. on_socket e1 (la, a) = Some (la1, a1) \<and> main_flush (la1, a1) = Some (la1, a2) \<and>
        sent a2 = sent a @ [(neighbor_to_sockaddr6 (sockaddr6_to_neighbor sb), bs1)] \<and>
        (\<forall>e2. received e2 = Some (bs1, sa) \<longrightarrow>
          (\<exists>lb1 b1 b2 bs2. on_socket e2 (lb, b) = Some (lb1, b1) \<and> main_flush (lb1, b1) = Some (lb1, b2) \<and>
            heard b b1 (sockaddr6_to_neighbor sa) \<and>
            sent b2 = sent b @ [(neighbor_to_sockaddr6 (sockaddr6_to_neighbor sa), bs2)] \<and>
            (\<forall>e3. received e3 = Some (bs2, sb) \<longrightarrow>
              (\<exists>la3 a3. on_socket e3 (la1, a2) = Some (la3, a3) \<and> heard a2 a3 (sockaddr6_to_neighbor sb)))))))"
proof -
  obtain lb b where b: "main_init rc addrs (lb0, b0) = Some (lb, b)" "main_ok (lb, b)" "NEIGHBORS b = Null" "DATAF b = init_list"
    "sent b = map (\<lambda>p. (p, packet (encode_tlv 2 (le_bytes 8 (ID b))))) addrs"
    using main_init_run [OF b0, of rc addrs] addr(1) by auto
  have bok: "peer_ok b" "locals_ok lb" "contents (DATAF b) = []" using b(2,4) by (simp_all add: main_ok_def init_list_def contents_def)
  let ?bs = "packet (encode_tlv 2 (le_bytes 8 (ID b) @ []))"
  let ?bs1 = "packet (encode_tlv 2 (le_bytes 8 (ID a) @ le_bytes 8 (ID b)))"
  let ?bs2 = "packet (encode_tlv 2 (le_bytes 8 (ID b) @ le_bytes 8 (ID a)))"
  have sent: "(to_a, ?bs) \<in> set (sent b)" using b(5) addr(2) by auto
  have ne: "le_bytes 8 (ID b) \<noteq> []" using length_le_bytes [of 8 "ID b"] by fastforce
  note la = leg_hello [OF a sa(2) refl disjI1 [OF refl]] and lb = leg_hello [OF bok(1,2) b(3) bok(3) sa(1) refl disjI2 [OF refl]]
  have third: "\<exists>la3 a3. on_socket e3 (la1, a2) = Some (la3, a3) \<and> heard a2 a3 (sockaddr6_to_neighbor sb)"
    if "peer_ok a2" "locals_ok la1" "ID a2 = ID a" "received e3 = Some (?bs2, sb)" for e3 la1 a2
    using leg_answer [OF that(1,2) sa(2), of e3 "ID b"] that(3,4) by auto
  have second: "\<exists>lb1 b1 b2. on_socket e2 (lb, b) = Some (lb1, b1) \<and> main_flush (lb1, b1) = Some (lb1, b2) \<and>
      heard b b1 (sockaddr6_to_neighbor sa) \<and> sent b2 = sent b @ [(neighbor_to_sockaddr6 (sockaddr6_to_neighbor sa), ?bs2)]"
    if e2: "received e2 = Some (?bs1, sa)" for e2
    using lb [OF e2] ne by blast
  have first: "\<exists>la1 a1 a2. on_socket e1 (la, a) = Some (la1, a1) \<and> locals_ok la1 \<and> main_flush (la1, a1) = Some (la1, a2) \<and>
      peer_ok a2 \<and> ID a2 = ID a \<and> sent a2 = sent a @ [(neighbor_to_sockaddr6 (sockaddr6_to_neighbor sb), ?bs1)]"
    if e1: "received e1 = Some (?bs, sb)" for e1
    using la [OF e1] by blast
  show ?thesis
    by (rule exI [of _ lb], rule exI [of _ b], rule exI [of _ ?bs]) (use b(1) sent first second third in meson)
qed

definition other_address :: sockaddr_in6 where "other_address = blank_address\<lparr>sin6_port := 1\<rparr>"

lemma received_arrives [simp]: "received (arrives bs sa) = Some (bs, sa)"
  by (simp add: arrives_def)

theorem peers_meet_witness:
  "\<exists>lb b bs la1 a1 a2 bs1 lb1 b1 b2 bs2 la3 a3.
    main_init 0 [blank_address] (blank_locals, blank_peer) = Some (lb, b) \<and> (blank_address, bs) \<in> set (sent b) \<and>
    on_socket (arrives bs other_address) (blank_locals, blank_peer) = Some (la1, a1) \<and> main_flush (la1, a1) = Some (la1, a2) \<and>
    map snd (sent a2) = [bs1] \<and>
    on_socket (arrives bs1 blank_address) (lb, b) = Some (lb1, b1) \<and> heard b b1 (sockaddr6_to_neighbor blank_address) \<and>
    main_flush (lb1, b1) = Some (lb1, b2) \<and> map snd (sent b2) = map snd (sent b) @ [bs2] \<and>
    on_socket (arrives bs2 other_address) (la1, a2) = Some (la3, a3) \<and> heard a2 a3 (sockaddr6_to_neighbor other_address)"
proof -
  have addr: "0 \<le> (0::int)" "blank_address \<in> set [blank_address]" by simp_all
  have n: "NEIGHBORS blank_peer = Null" "contents (DATAF blank_peer) = []" "sent blank_peer = []"
    by (simp_all add: blank_peer_def init_list_def contents_def)
  have sa: "length (sin6_addr blank_address) = 16" "length (sin6_addr other_address) = 16"
    by (simp_all add: blank_address_def other_address_def)
  obtain lb b bs where 1: "main_init 0 [blank_address] (blank_locals, blank_peer) = Some (lb, b)" "(blank_address, bs) \<in> set (sent b)"
    and r1: "\<forall>e1. received e1 = Some (bs, other_address) \<longrightarrow>
      (\<exists>la1 a1 a2 bs1. on_socket e1 (blank_locals, blank_peer) = Some (la1, a1) \<and> main_flush (la1, a1) = Some (la1, a2) \<and>
        sent a2 = sent blank_peer @ [(neighbor_to_sockaddr6 (sockaddr6_to_neighbor other_address), bs1)] \<and>
        (\<forall>e2. received e2 = Some (bs1, blank_address) \<longrightarrow>
          (\<exists>lb1 b1 b2 bs2. on_socket e2 (lb, b) = Some (lb1, b1) \<and> main_flush (lb1, b1) = Some (lb1, b2) \<and>
            heard b b1 (sockaddr6_to_neighbor blank_address) \<and>
            sent b2 = sent b @ [(neighbor_to_sockaddr6 (sockaddr6_to_neighbor blank_address), bs2)] \<and>
            (\<forall>e3. received e3 = Some (bs2, other_address) \<longrightarrow>
              (\<exists>la3 a3. on_socket e3 (la1, a2) = Some (la3, a3) \<and> heard a2 a3 (sockaddr6_to_neighbor other_address))))))"
    using peers_meet [OF blank_ok addr blank_peer_ok blank_ok(3) n(1,2) sa] by blast
  from r1 [THEN spec, THEN mp, OF received_arrives] obtain la1 a1 a2 bs1 where
    2: "on_socket (arrives bs other_address) (blank_locals, blank_peer) = Some (la1, a1)" "main_flush (la1, a1) = Some (la1, a2)"
      "sent a2 = sent blank_peer @ [(neighbor_to_sockaddr6 (sockaddr6_to_neighbor other_address), bs1)]"
    and r2: "\<forall>e2. received e2 = Some (bs1, blank_address) \<longrightarrow>
          (\<exists>lb1 b1 b2 bs2. on_socket e2 (lb, b) = Some (lb1, b1) \<and> main_flush (lb1, b1) = Some (lb1, b2) \<and>
            heard b b1 (sockaddr6_to_neighbor blank_address) \<and>
            sent b2 = sent b @ [(neighbor_to_sockaddr6 (sockaddr6_to_neighbor blank_address), bs2)] \<and>
            (\<forall>e3. received e3 = Some (bs2, other_address) \<longrightarrow>
              (\<exists>la3 a3. on_socket e3 (la1, a2) = Some (la3, a3) \<and> heard a2 a3 (sockaddr6_to_neighbor other_address))))"
    by blast
  from r2 [THEN spec, THEN mp, OF received_arrives] obtain lb1 b1 b2 bs2 where
    3: "on_socket (arrives bs1 blank_address) (lb, b) = Some (lb1, b1)" "main_flush (lb1, b1) = Some (lb1, b2)"
      "heard b b1 (sockaddr6_to_neighbor blank_address)"
      "sent b2 = sent b @ [(neighbor_to_sockaddr6 (sockaddr6_to_neighbor blank_address), bs2)]"
    and r3: "\<forall>e3. received e3 = Some (bs2, other_address) \<longrightarrow>
              (\<exists>la3 a3. on_socket e3 (la1, a2) = Some (la3, a3) \<and> heard a2 a3 (sockaddr6_to_neighbor other_address))"
    by blast
  from r3 [THEN spec, THEN mp, OF received_arrives] 1 2 3 n(3) show ?thesis by fastforce
qed

end
