(* ===== verification/Network.thy ===== *)
theory Network
  imports Handshake
begin

text \<open>
  A network of peers: what a peer receives is what some peer of the network has sent.  Datagrams
  are lost, doubled, reordered and delivered to anybody; they are not made up.  The assumption of the
  single peer on what it receives then holds by itself.
\<close>

section \<open>What a peer sends a peer can receive\<close>



section \<open>The network\<close>









section \<open>Every peer of the network is a reachable peer\<close>




section \<open>Two peers\<close>




end
