(* ===== verification/Lws_Callbacks.thy ===== *)
theory Lws_Callbacks
  imports Prelude
begin

text \<open>
  \<open>lws-callbacks.h\<close>, the reasons for which libwebsockets calls a protocol's callback: one
  data type per section of \<open>enum lws_callback_reasons\<close>, with the values the enumeration gives
  its constants, and the two smaller enumerations of the header.
\<close>

section \<open>Certificates\<close>

datatype lws_cert_update_state =
  LWS_CUS_IDLE | LWS_CUS_STARTING | LWS_CUS_SUCCESS | LWS_CUS_FAILED | LWS_CUS_CREATE_KEYS
  | LWS_CUS_REG | LWS_CUS_AUTH | LWS_CUS_CHALLENGE | LWS_CUS_CREATE_REQ | LWS_CUS_REQ
  | LWS_CUS_CONFIRM | LWS_CUS_ISSUE

primrec cert_update_code :: "lws_cert_update_state \<Rightarrow> nat" where
  "cert_update_code LWS_CUS_IDLE = 0"
| "cert_update_code LWS_CUS_STARTING = 1"
| "cert_update_code LWS_CUS_SUCCESS = 2"
| "cert_update_code LWS_CUS_FAILED = 3"
| "cert_update_code LWS_CUS_CREATE_KEYS = 4"
| "cert_update_code LWS_CUS_REG = 5"
| "cert_update_code LWS_CUS_AUTH = 6"
| "cert_update_code LWS_CUS_CHALLENGE = 7"
| "cert_update_code LWS_CUS_CREATE_REQ = 8"
| "cert_update_code LWS_CUS_REQ = 9"
| "cert_update_code LWS_CUS_CONFIRM = 10"
| "cert_update_code LWS_CUS_ISSUE = 11"

definition LWS_TLS_REQ_ELEMENT_COUNTRY :: nat where "LWS_TLS_REQ_ELEMENT_COUNTRY = 0"
definition LWS_TLS_REQ_ELEMENT_STATE :: nat where "LWS_TLS_REQ_ELEMENT_STATE = 1"
definition LWS_TLS_REQ_ELEMENT_LOCALITY :: nat where "LWS_TLS_REQ_ELEMENT_LOCALITY = 2"
definition LWS_TLS_REQ_ELEMENT_ORGANIZATION :: nat where "LWS_TLS_REQ_ELEMENT_ORGANIZATION = 3"
definition LWS_TLS_REQ_ELEMENT_COMMON_NAME :: nat where "LWS_TLS_REQ_ELEMENT_COMMON_NAME = 4"
definition LWS_TLS_REQ_ELEMENT_EMAIL :: nat where "LWS_TLS_REQ_ELEMENT_EMAIL = 5"
definition LWS_TLS_REQ_ELEMENT_COUNT :: nat where "LWS_TLS_REQ_ELEMENT_COUNT = 6"
abbreviation LWS_TLS_SET_DIR_URL :: nat where "LWS_TLS_SET_DIR_URL \<equiv> LWS_TLS_REQ_ELEMENT_COUNT"
definition LWS_TLS_SET_AUTH_PATH :: nat where "LWS_TLS_SET_AUTH_PATH = 7"
definition LWS_TLS_SET_CERT_PATH :: nat where "LWS_TLS_SET_CERT_PATH = 8"
definition LWS_TLS_SET_KEY_PATH :: nat where "LWS_TLS_SET_KEY_PATH = 9"
definition LWS_TLS_TOTAL_COUNT :: nat where "LWS_TLS_TOTAL_COUNT = 10"

section \<open>Reasons\<close>

text \<open>Callbacks related to wsi and protocol binding lifecycle.\<close>

datatype lifecycle_reason =
  LWS_CALLBACK_PROTOCOL_INIT | LWS_CALLBACK_PROTOCOL_DESTROY | LWS_CALLBACK_WSI_CREATE
  | LWS_CALLBACK_WSI_DESTROY

primrec lifecycle_code :: "lifecycle_reason \<Rightarrow> nat" where
  "lifecycle_code LWS_CALLBACK_PROTOCOL_INIT = 27"
| "lifecycle_code LWS_CALLBACK_PROTOCOL_DESTROY = 28"
| "lifecycle_code LWS_CALLBACK_WSI_CREATE = 29"
| "lifecycle_code LWS_CALLBACK_WSI_DESTROY = 30"

text \<open>Callbacks related to Server TLS.\<close>

datatype server_tls_reason =
  LWS_CALLBACK_OPENSSL_LOAD_EXTRA_CLIENT_VERIFY_CERTS
  | LWS_CALLBACK_OPENSSL_LOAD_EXTRA_SERVER_VERIFY_CERTS
  | LWS_CALLBACK_OPENSSL_PERFORM_CLIENT_CERT_VERIFICATION
  | LWS_CALLBACK_OPENSSL_CONTEXT_REQUIRES_PRIVATE_KEY | LWS_CALLBACK_SSL_INFO

primrec server_tls_code :: "server_tls_reason \<Rightarrow> nat" where
  "server_tls_code LWS_CALLBACK_OPENSSL_LOAD_EXTRA_CLIENT_VERIFY_CERTS = 21"
| "server_tls_code LWS_CALLBACK_OPENSSL_LOAD_EXTRA_SERVER_VERIFY_CERTS = 22"
| "server_tls_code LWS_CALLBACK_OPENSSL_PERFORM_CLIENT_CERT_VERIFICATION = 23"
| "server_tls_code LWS_CALLBACK_OPENSSL_CONTEXT_REQUIRES_PRIVATE_KEY = 37"
| "server_tls_code LWS_CALLBACK_SSL_INFO = 67"

text \<open>Callbacks related to Client TLS.\<close>

datatype client_tls_reason =
  LWS_CALLBACK_OPENSSL_PERFORM_SERVER_CERT_VERIFICATION

primrec client_tls_code :: "client_tls_reason \<Rightarrow> nat" where
  "client_tls_code LWS_CALLBACK_OPENSSL_PERFORM_SERVER_CERT_VERIFICATION = 58"

text \<open>Callbacks related to HTTP Server.\<close>

datatype http_server_reason =
  LWS_CALLBACK_SERVER_NEW_CLIENT_INSTANTIATED | LWS_CALLBACK_HTTP | LWS_CALLBACK_HTTP_BODY
  | LWS_CALLBACK_HTTP_BODY_COMPLETION | LWS_CALLBACK_HTTP_FILE_COMPLETION
  | LWS_CALLBACK_HTTP_WRITEABLE | LWS_CALLBACK_CLOSED_HTTP | LWS_CALLBACK_FILTER_HTTP_CONNECTION
  | LWS_CALLBACK_ADD_HEADERS | LWS_CALLBACK_CHECK_ACCESS_RIGHTS | LWS_CALLBACK_PROCESS_HTML
  | LWS_CALLBACK_HTTP_BIND_PROTOCOL | LWS_CALLBACK_HTTP_DROP_PROTOCOL
  | LWS_CALLBACK_HTTP_CONFIRM_UPGRADE

primrec http_server_code :: "http_server_reason \<Rightarrow> nat" where
  "http_server_code LWS_CALLBACK_SERVER_NEW_CLIENT_INSTANTIATED = 19"
| "http_server_code LWS_CALLBACK_HTTP = 12"
| "http_server_code LWS_CALLBACK_HTTP_BODY = 13"
| "http_server_code LWS_CALLBACK_HTTP_BODY_COMPLETION = 14"
| "http_server_code LWS_CALLBACK_HTTP_FILE_COMPLETION = 15"
| "http_server_code LWS_CALLBACK_HTTP_WRITEABLE = 16"
| "http_server_code LWS_CALLBACK_CLOSED_HTTP = 5"
| "http_server_code LWS_CALLBACK_FILTER_HTTP_CONNECTION = 18"
| "http_server_code LWS_CALLBACK_ADD_HEADERS = 53"
| "http_server_code LWS_CALLBACK_CHECK_ACCESS_RIGHTS = 51"
| "http_server_code LWS_CALLBACK_PROCESS_HTML = 52"
| "http_server_code LWS_CALLBACK_HTTP_BIND_PROTOCOL = 49"
| "http_server_code LWS_CALLBACK_HTTP_DROP_PROTOCOL = 50"
| "http_server_code LWS_CALLBACK_HTTP_CONFIRM_UPGRADE = 86"

text \<open>Callbacks related to HTTP Client.\<close>

datatype http_client_reason =
  LWS_CALLBACK_ESTABLISHED_CLIENT_HTTP | LWS_CALLBACK_CLOSED_CLIENT_HTTP
  | LWS_CALLBACK_RECEIVE_CLIENT_HTTP_READ | LWS_CALLBACK_RECEIVE_CLIENT_HTTP
  | LWS_CALLBACK_COMPLETED_CLIENT_HTTP | LWS_CALLBACK_CLIENT_HTTP_WRITEABLE
  | LWS_CALLBACK_CLIENT_HTTP_BIND_PROTOCOL | LWS_CALLBACK_CLIENT_HTTP_DROP_PROTOCOL

primrec http_client_code :: "http_client_reason \<Rightarrow> nat" where
  "http_client_code LWS_CALLBACK_ESTABLISHED_CLIENT_HTTP = 44"
| "http_client_code LWS_CALLBACK_CLOSED_CLIENT_HTTP = 45"
| "http_client_code LWS_CALLBACK_RECEIVE_CLIENT_HTTP_READ = 48"
| "http_client_code LWS_CALLBACK_RECEIVE_CLIENT_HTTP = 46"
| "http_client_code LWS_CALLBACK_COMPLETED_CLIENT_HTTP = 47"
| "http_client_code LWS_CALLBACK_CLIENT_HTTP_WRITEABLE = 57"
| "http_client_code LWS_CALLBACK_CLIENT_HTTP_BIND_PROTOCOL = 85"
| "http_client_code LWS_CALLBACK_CLIENT_HTTP_DROP_PROTOCOL = 76"

text \<open>Callbacks related to Websocket Server.\<close>

datatype ws_server_reason =
  LWS_CALLBACK_ESTABLISHED | LWS_CALLBACK_CLOSED | LWS_CALLBACK_SERVER_WRITEABLE
  | LWS_CALLBACK_RECEIVE | LWS_CALLBACK_RECEIVE_PONG | LWS_CALLBACK_WS_PEER_INITIATED_CLOSE
  | LWS_CALLBACK_FILTER_PROTOCOL_CONNECTION | LWS_CALLBACK_CONFIRM_EXTENSION_OKAY
  | LWS_CALLBACK_WS_SERVER_BIND_PROTOCOL | LWS_CALLBACK_WS_SERVER_DROP_PROTOCOL

primrec ws_server_code :: "ws_server_reason \<Rightarrow> nat" where
  "ws_server_code LWS_CALLBACK_ESTABLISHED = 0"
| "ws_server_code LWS_CALLBACK_CLOSED = 4"
| "ws_server_code LWS_CALLBACK_SERVER_WRITEABLE = 11"
| "ws_server_code LWS_CALLBACK_RECEIVE = 6"
| "ws_server_code LWS_CALLBACK_RECEIVE_PONG = 7"
| "ws_server_code LWS_CALLBACK_WS_PEER_INITIATED_CLOSE = 38"
| "ws_server_code LWS_CALLBACK_FILTER_PROTOCOL_CONNECTION = 20"
| "ws_server_code LWS_CALLBACK_CONFIRM_EXTENSION_OKAY = 25"
| "ws_server_code LWS_CALLBACK_WS_SERVER_BIND_PROTOCOL = 77"
| "ws_server_code LWS_CALLBACK_WS_SERVER_DROP_PROTOCOL = 78"

text \<open>Callbacks related to Websocket Client.\<close>

datatype ws_client_reason =
  LWS_CALLBACK_CLIENT_CONNECTION_ERROR | LWS_CALLBACK_CLIENT_FILTER_PRE_ESTABLISH
  | LWS_CALLBACK_CLIENT_ESTABLISHED | LWS_CALLBACK_CLIENT_CLOSED
  | LWS_CALLBACK_CLIENT_APPEND_HANDSHAKE_HEADER | LWS_CALLBACK_CLIENT_RECEIVE
  | LWS_CALLBACK_CLIENT_RECEIVE_PONG | LWS_CALLBACK_CLIENT_WRITEABLE
  | LWS_CALLBACK_CLIENT_CONFIRM_EXTENSION_SUPPORTED | LWS_CALLBACK_WS_EXT_DEFAULTS
  | LWS_CALLBACK_FILTER_NETWORK_CONNECTION | LWS_CALLBACK_WS_CLIENT_BIND_PROTOCOL
  | LWS_CALLBACK_WS_CLIENT_DROP_PROTOCOL

primrec ws_client_code :: "ws_client_reason \<Rightarrow> nat" where
  "ws_client_code LWS_CALLBACK_CLIENT_CONNECTION_ERROR = 1"
| "ws_client_code LWS_CALLBACK_CLIENT_FILTER_PRE_ESTABLISH = 2"
| "ws_client_code LWS_CALLBACK_CLIENT_ESTABLISHED = 3"
| "ws_client_code LWS_CALLBACK_CLIENT_CLOSED = 75"
| "ws_client_code LWS_CALLBACK_CLIENT_APPEND_HANDSHAKE_HEADER = 24"
| "ws_client_code LWS_CALLBACK_CLIENT_RECEIVE = 8"
| "ws_client_code LWS_CALLBACK_CLIENT_RECEIVE_PONG = 9"
| "ws_client_code LWS_CALLBACK_CLIENT_WRITEABLE = 10"
| "ws_client_code LWS_CALLBACK_CLIENT_CONFIRM_EXTENSION_SUPPORTED = 26"
| "ws_client_code LWS_CALLBACK_WS_EXT_DEFAULTS = 39"
| "ws_client_code LWS_CALLBACK_FILTER_NETWORK_CONNECTION = 17"
| "ws_client_code LWS_CALLBACK_WS_CLIENT_BIND_PROTOCOL = 79"
| "ws_client_code LWS_CALLBACK_WS_CLIENT_DROP_PROTOCOL = 80"

text \<open>Callbacks related to external poll loop integration.\<close>

datatype poll_reason =
  LWS_CALLBACK_GET_THREAD_ID | LWS_CALLBACK_ADD_POLL_FD | LWS_CALLBACK_DEL_POLL_FD
  | LWS_CALLBACK_CHANGE_MODE_POLL_FD | LWS_CALLBACK_LOCK_POLL | LWS_CALLBACK_UNLOCK_POLL

primrec poll_code :: "poll_reason \<Rightarrow> nat" where
  "poll_code LWS_CALLBACK_GET_THREAD_ID = 31"
| "poll_code LWS_CALLBACK_ADD_POLL_FD = 32"
| "poll_code LWS_CALLBACK_DEL_POLL_FD = 33"
| "poll_code LWS_CALLBACK_CHANGE_MODE_POLL_FD = 34"
| "poll_code LWS_CALLBACK_LOCK_POLL = 35"
| "poll_code LWS_CALLBACK_UNLOCK_POLL = 36"

text \<open>Callbacks related to CGI serving.\<close>

datatype cgi_reason =
  LWS_CALLBACK_CGI | LWS_CALLBACK_CGI_TERMINATED | LWS_CALLBACK_CGI_STDIN_DATA
  | LWS_CALLBACK_CGI_STDIN_COMPLETED | LWS_CALLBACK_CGI_PROCESS_ATTACH

primrec cgi_code :: "cgi_reason \<Rightarrow> nat" where
  "cgi_code LWS_CALLBACK_CGI = 40"
| "cgi_code LWS_CALLBACK_CGI_TERMINATED = 41"
| "cgi_code LWS_CALLBACK_CGI_STDIN_DATA = 42"
| "cgi_code LWS_CALLBACK_CGI_STDIN_COMPLETED = 43"
| "cgi_code LWS_CALLBACK_CGI_PROCESS_ATTACH = 70"

text \<open>Callbacks related to Generic Sessions.\<close>

datatype sessions_reason =
  LWS_CALLBACK_SESSION_INFO | LWS_CALLBACK_GS_EVENT | LWS_CALLBACK_HTTP_PMO

primrec sessions_code :: "sessions_reason \<Rightarrow> nat" where
  "sessions_code LWS_CALLBACK_SESSION_INFO = 54"
| "sessions_code LWS_CALLBACK_GS_EVENT = 55"
| "sessions_code LWS_CALLBACK_HTTP_PMO = 56"

text \<open>Callbacks related to RAW PROXY.\<close>

datatype raw_proxy_reason =
  LWS_CALLBACK_RAW_PROXY_CLI_RX | LWS_CALLBACK_RAW_PROXY_SRV_RX | LWS_CALLBACK_RAW_PROXY_CLI_CLOSE
  | LWS_CALLBACK_RAW_PROXY_SRV_CLOSE | LWS_CALLBACK_RAW_PROXY_CLI_WRITEABLE
  | LWS_CALLBACK_RAW_PROXY_SRV_WRITEABLE | LWS_CALLBACK_RAW_PROXY_CLI_ADOPT
  | LWS_CALLBACK_RAW_PROXY_SRV_ADOPT | LWS_CALLBACK_RAW_PROXY_CLI_BIND_PROTOCOL
  | LWS_CALLBACK_RAW_PROXY_SRV_BIND_PROTOCOL | LWS_CALLBACK_RAW_PROXY_CLI_DROP_PROTOCOL
  | LWS_CALLBACK_RAW_PROXY_SRV_DROP_PROTOCOL

primrec raw_proxy_code :: "raw_proxy_reason \<Rightarrow> nat" where
  "raw_proxy_code LWS_CALLBACK_RAW_PROXY_CLI_RX = 89"
| "raw_proxy_code LWS_CALLBACK_RAW_PROXY_SRV_RX = 90"
| "raw_proxy_code LWS_CALLBACK_RAW_PROXY_CLI_CLOSE = 91"
| "raw_proxy_code LWS_CALLBACK_RAW_PROXY_SRV_CLOSE = 92"
| "raw_proxy_code LWS_CALLBACK_RAW_PROXY_CLI_WRITEABLE = 93"
| "raw_proxy_code LWS_CALLBACK_RAW_PROXY_SRV_WRITEABLE = 94"
| "raw_proxy_code LWS_CALLBACK_RAW_PROXY_CLI_ADOPT = 95"
| "raw_proxy_code LWS_CALLBACK_RAW_PROXY_SRV_ADOPT = 96"
| "raw_proxy_code LWS_CALLBACK_RAW_PROXY_CLI_BIND_PROTOCOL = 97"
| "raw_proxy_code LWS_CALLBACK_RAW_PROXY_SRV_BIND_PROTOCOL = 98"
| "raw_proxy_code LWS_CALLBACK_RAW_PROXY_CLI_DROP_PROTOCOL = 99"
| "raw_proxy_code LWS_CALLBACK_RAW_PROXY_SRV_DROP_PROTOCOL = 100"

text \<open>Callbacks related to RAW sockets.\<close>

datatype raw_socket_reason =
  LWS_CALLBACK_RAW_RX | LWS_CALLBACK_RAW_CLOSE | LWS_CALLBACK_RAW_WRITEABLE
  | LWS_CALLBACK_RAW_ADOPT | LWS_CALLBACK_RAW_CONNECTED | LWS_CALLBACK_RAW_SKT_BIND_PROTOCOL
  | LWS_CALLBACK_RAW_SKT_DROP_PROTOCOL

primrec raw_socket_code :: "raw_socket_reason \<Rightarrow> nat" where
  "raw_socket_code LWS_CALLBACK_RAW_RX = 59"
| "raw_socket_code LWS_CALLBACK_RAW_CLOSE = 60"
| "raw_socket_code LWS_CALLBACK_RAW_WRITEABLE = 61"
| "raw_socket_code LWS_CALLBACK_RAW_ADOPT = 62"
| "raw_socket_code LWS_CALLBACK_RAW_CONNECTED = 101"
| "raw_socket_code LWS_CALLBACK_RAW_SKT_BIND_PROTOCOL = 81"
| "raw_socket_code LWS_CALLBACK_RAW_SKT_DROP_PROTOCOL = 82"

text \<open>Callbacks related to RAW file handles.\<close>

datatype raw_file_reason =
  LWS_CALLBACK_RAW_ADOPT_FILE | LWS_CALLBACK_RAW_RX_FILE | LWS_CALLBACK_RAW_WRITEABLE_FILE
  | LWS_CALLBACK_RAW_CLOSE_FILE | LWS_CALLBACK_RAW_FILE_BIND_PROTOCOL
  | LWS_CALLBACK_RAW_FILE_DROP_PROTOCOL

primrec raw_file_code :: "raw_file_reason \<Rightarrow> nat" where
  "raw_file_code LWS_CALLBACK_RAW_ADOPT_FILE = 63"
| "raw_file_code LWS_CALLBACK_RAW_RX_FILE = 64"
| "raw_file_code LWS_CALLBACK_RAW_WRITEABLE_FILE = 65"
| "raw_file_code LWS_CALLBACK_RAW_CLOSE_FILE = 66"
| "raw_file_code LWS_CALLBACK_RAW_FILE_BIND_PROTOCOL = 83"
| "raw_file_code LWS_CALLBACK_RAW_FILE_DROP_PROTOCOL = 84"

text \<open>Callbacks related to generic wsi events.\<close>

datatype wsi_reason =
  LWS_CALLBACK_TIMER | LWS_CALLBACK_EVENT_WAIT_CANCELLED | LWS_CALLBACK_CHILD_CLOSING

primrec wsi_code :: "wsi_reason \<Rightarrow> nat" where
  "wsi_code LWS_CALLBACK_TIMER = 73"
| "wsi_code LWS_CALLBACK_EVENT_WAIT_CANCELLED = 71"
| "wsi_code LWS_CALLBACK_CHILD_CLOSING = 69"

text \<open>Callbacks related to TLS certificate management.\<close>

datatype cert_reason =
  LWS_CALLBACK_VHOST_CERT_AGING | LWS_CALLBACK_VHOST_CERT_UPDATE

primrec cert_code :: "cert_reason \<Rightarrow> nat" where
  "cert_code LWS_CALLBACK_VHOST_CERT_AGING = 72"
| "cert_code LWS_CALLBACK_VHOST_CERT_UPDATE = 74"

text \<open>User reasons.\<close>

datatype user_reason =
  LWS_CALLBACK_USER

primrec user_code :: "user_reason \<Rightarrow> nat" where
  "user_code LWS_CALLBACK_USER = 1000"

text \<open>The enumeration itself.\<close>

datatype lws_callback_reasons =
    Lifecycle lifecycle_reason
  | ServerTls server_tls_reason
  | ClientTls client_tls_reason
  | HttpServer http_server_reason
  | HttpClient http_client_reason
  | WsServer ws_server_reason
  | WsClient ws_client_reason
  | Poll poll_reason
  | Cgi cgi_reason
  | Sessions sessions_reason
  | RawProxy raw_proxy_reason
  | RawSocket raw_socket_reason
  | RawFile raw_file_reason
  | Wsi wsi_reason
  | Cert cert_reason
  | User user_reason

primrec reason_code :: "lws_callback_reasons \<Rightarrow> nat" where
  "reason_code (Lifecycle r) = lifecycle_code r"
| "reason_code (ServerTls r) = server_tls_code r"
| "reason_code (ClientTls r) = client_tls_code r"
| "reason_code (HttpServer r) = http_server_code r"
| "reason_code (HttpClient r) = http_client_code r"
| "reason_code (WsServer r) = ws_server_code r"
| "reason_code (WsClient r) = ws_client_code r"
| "reason_code (Poll r) = poll_code r"
| "reason_code (Cgi r) = cgi_code r"
| "reason_code (Sessions r) = sessions_code r"
| "reason_code (RawProxy r) = raw_proxy_code r"
| "reason_code (RawSocket r) = raw_socket_code r"
| "reason_code (RawFile r) = raw_file_code r"
| "reason_code (Wsi r) = wsi_code r"
| "reason_code (Cert r) = cert_code r"
| "reason_code (User r) = user_code r"

definition all_reasons :: "lws_callback_reasons list" where
  "all_reasons =
       map Lifecycle [LWS_CALLBACK_PROTOCOL_INIT, LWS_CALLBACK_PROTOCOL_DESTROY,
       LWS_CALLBACK_WSI_CREATE, LWS_CALLBACK_WSI_DESTROY] @
       map ServerTls [LWS_CALLBACK_OPENSSL_LOAD_EXTRA_CLIENT_VERIFY_CERTS,
       LWS_CALLBACK_OPENSSL_LOAD_EXTRA_SERVER_VERIFY_CERTS,
       LWS_CALLBACK_OPENSSL_PERFORM_CLIENT_CERT_VERIFICATION,
       LWS_CALLBACK_OPENSSL_CONTEXT_REQUIRES_PRIVATE_KEY, LWS_CALLBACK_SSL_INFO] @
       map ClientTls [LWS_CALLBACK_OPENSSL_PERFORM_SERVER_CERT_VERIFICATION] @
       map HttpServer [LWS_CALLBACK_SERVER_NEW_CLIENT_INSTANTIATED, LWS_CALLBACK_HTTP,
       LWS_CALLBACK_HTTP_BODY, LWS_CALLBACK_HTTP_BODY_COMPLETION,
       LWS_CALLBACK_HTTP_FILE_COMPLETION, LWS_CALLBACK_HTTP_WRITEABLE, LWS_CALLBACK_CLOSED_HTTP,
       LWS_CALLBACK_FILTER_HTTP_CONNECTION, LWS_CALLBACK_ADD_HEADERS,
       LWS_CALLBACK_CHECK_ACCESS_RIGHTS, LWS_CALLBACK_PROCESS_HTML,
       LWS_CALLBACK_HTTP_BIND_PROTOCOL, LWS_CALLBACK_HTTP_DROP_PROTOCOL,
       LWS_CALLBACK_HTTP_CONFIRM_UPGRADE] @
       map HttpClient [LWS_CALLBACK_ESTABLISHED_CLIENT_HTTP, LWS_CALLBACK_CLOSED_CLIENT_HTTP,
       LWS_CALLBACK_RECEIVE_CLIENT_HTTP_READ, LWS_CALLBACK_RECEIVE_CLIENT_HTTP,
       LWS_CALLBACK_COMPLETED_CLIENT_HTTP, LWS_CALLBACK_CLIENT_HTTP_WRITEABLE,
       LWS_CALLBACK_CLIENT_HTTP_BIND_PROTOCOL, LWS_CALLBACK_CLIENT_HTTP_DROP_PROTOCOL] @
       map WsServer [LWS_CALLBACK_ESTABLISHED, LWS_CALLBACK_CLOSED,
       LWS_CALLBACK_SERVER_WRITEABLE, LWS_CALLBACK_RECEIVE, LWS_CALLBACK_RECEIVE_PONG,
       LWS_CALLBACK_WS_PEER_INITIATED_CLOSE, LWS_CALLBACK_FILTER_PROTOCOL_CONNECTION,
       LWS_CALLBACK_CONFIRM_EXTENSION_OKAY, LWS_CALLBACK_WS_SERVER_BIND_PROTOCOL,
       LWS_CALLBACK_WS_SERVER_DROP_PROTOCOL] @
       map WsClient [LWS_CALLBACK_CLIENT_CONNECTION_ERROR,
       LWS_CALLBACK_CLIENT_FILTER_PRE_ESTABLISH, LWS_CALLBACK_CLIENT_ESTABLISHED,
       LWS_CALLBACK_CLIENT_CLOSED, LWS_CALLBACK_CLIENT_APPEND_HANDSHAKE_HEADER,
       LWS_CALLBACK_CLIENT_RECEIVE, LWS_CALLBACK_CLIENT_RECEIVE_PONG,
       LWS_CALLBACK_CLIENT_WRITEABLE, LWS_CALLBACK_CLIENT_CONFIRM_EXTENSION_SUPPORTED,
       LWS_CALLBACK_WS_EXT_DEFAULTS, LWS_CALLBACK_FILTER_NETWORK_CONNECTION,
       LWS_CALLBACK_WS_CLIENT_BIND_PROTOCOL, LWS_CALLBACK_WS_CLIENT_DROP_PROTOCOL] @
       map Poll [LWS_CALLBACK_GET_THREAD_ID, LWS_CALLBACK_ADD_POLL_FD, LWS_CALLBACK_DEL_POLL_FD,
       LWS_CALLBACK_CHANGE_MODE_POLL_FD, LWS_CALLBACK_LOCK_POLL, LWS_CALLBACK_UNLOCK_POLL] @
       map Cgi [LWS_CALLBACK_CGI, LWS_CALLBACK_CGI_TERMINATED, LWS_CALLBACK_CGI_STDIN_DATA,
       LWS_CALLBACK_CGI_STDIN_COMPLETED, LWS_CALLBACK_CGI_PROCESS_ATTACH] @
       map Sessions [LWS_CALLBACK_SESSION_INFO, LWS_CALLBACK_GS_EVENT, LWS_CALLBACK_HTTP_PMO] @
       map RawProxy [LWS_CALLBACK_RAW_PROXY_CLI_RX, LWS_CALLBACK_RAW_PROXY_SRV_RX,
       LWS_CALLBACK_RAW_PROXY_CLI_CLOSE, LWS_CALLBACK_RAW_PROXY_SRV_CLOSE,
       LWS_CALLBACK_RAW_PROXY_CLI_WRITEABLE, LWS_CALLBACK_RAW_PROXY_SRV_WRITEABLE,
       LWS_CALLBACK_RAW_PROXY_CLI_ADOPT, LWS_CALLBACK_RAW_PROXY_SRV_ADOPT,
       LWS_CALLBACK_RAW_PROXY_CLI_BIND_PROTOCOL, LWS_CALLBACK_RAW_PROXY_SRV_BIND_PROTOCOL,
       LWS_CALLBACK_RAW_PROXY_CLI_DROP_PROTOCOL, LWS_CALLBACK_RAW_PROXY_SRV_DROP_PROTOCOL] @
       map RawSocket [LWS_CALLBACK_RAW_RX, LWS_CALLBACK_RAW_CLOSE, LWS_CALLBACK_RAW_WRITEABLE,
       LWS_CALLBACK_RAW_ADOPT, LWS_CALLBACK_RAW_CONNECTED, LWS_CALLBACK_RAW_SKT_BIND_PROTOCOL,
       LWS_CALLBACK_RAW_SKT_DROP_PROTOCOL] @
       map RawFile [LWS_CALLBACK_RAW_ADOPT_FILE, LWS_CALLBACK_RAW_RX_FILE,
       LWS_CALLBACK_RAW_WRITEABLE_FILE, LWS_CALLBACK_RAW_CLOSE_FILE,
       LWS_CALLBACK_RAW_FILE_BIND_PROTOCOL, LWS_CALLBACK_RAW_FILE_DROP_PROTOCOL] @
       map Wsi [LWS_CALLBACK_TIMER, LWS_CALLBACK_EVENT_WAIT_CANCELLED, LWS_CALLBACK_CHILD_CLOSING] @
       map Cert [LWS_CALLBACK_VHOST_CERT_AGING, LWS_CALLBACK_VHOST_CERT_UPDATE] @
       map User [LWS_CALLBACK_USER]"

text \<open>The constant of a code, if it has one.\<close>

definition reason_of :: "nat \<Rightarrow> lws_callback_reasons option" where
  "reason_of n = List.find (\<lambda>r. reason_code r = n) all_reasons"

lemma lifecycle_complete: "Lifecycle r \<in> set all_reasons"
  unfolding all_reasons_def set_append list.set_map by (cases r) simp_all

lemma server_tls_complete: "ServerTls r \<in> set all_reasons"
  unfolding all_reasons_def set_append list.set_map by (cases r) simp_all

lemma client_tls_complete: "ClientTls r \<in> set all_reasons"
  unfolding all_reasons_def set_append list.set_map by (cases r) simp_all

lemma http_server_complete: "HttpServer r \<in> set all_reasons"
  unfolding all_reasons_def set_append list.set_map by (cases r) simp_all

lemma http_client_complete: "HttpClient r \<in> set all_reasons"
  unfolding all_reasons_def set_append list.set_map by (cases r) simp_all

lemma ws_server_complete: "WsServer r \<in> set all_reasons"
  unfolding all_reasons_def set_append list.set_map by (cases r) simp_all

lemma ws_client_complete: "WsClient r \<in> set all_reasons"
  unfolding all_reasons_def set_append list.set_map by (cases r) simp_all

lemma poll_complete: "Poll r \<in> set all_reasons"
  unfolding all_reasons_def set_append list.set_map by (cases r) simp_all

lemma cgi_complete: "Cgi r \<in> set all_reasons"
  unfolding all_reasons_def set_append list.set_map by (cases r) simp_all

lemma sessions_complete: "Sessions r \<in> set all_reasons"
  unfolding all_reasons_def set_append list.set_map by (cases r) simp_all

lemma raw_proxy_complete: "RawProxy r \<in> set all_reasons"
  unfolding all_reasons_def set_append list.set_map by (cases r) simp_all

lemma raw_socket_complete: "RawSocket r \<in> set all_reasons"
  unfolding all_reasons_def set_append list.set_map by (cases r) simp_all

lemma raw_file_complete: "RawFile r \<in> set all_reasons"
  unfolding all_reasons_def set_append list.set_map by (cases r) simp_all

lemma wsi_complete: "Wsi r \<in> set all_reasons"
  unfolding all_reasons_def set_append list.set_map by (cases r) simp_all

lemma cert_complete: "Cert r \<in> set all_reasons"
  unfolding all_reasons_def set_append list.set_map by (cases r) simp_all

lemma user_complete: "User r \<in> set all_reasons"
  unfolding all_reasons_def set_append list.set_map by (cases r) simp_all

lemma all_reasons_complete: "r \<in> set all_reasons"
  by (cases r) (simp_all add: lifecycle_complete server_tls_complete client_tls_complete http_server_complete
    http_client_complete ws_server_complete ws_client_complete poll_complete cgi_complete
    sessions_complete raw_proxy_complete raw_socket_complete raw_file_complete wsi_complete
    cert_complete user_complete)

lemma codes_of_reasons:
  "map reason_code all_reasons =
      [27, 28, 29, 30, 21, 22, 23, 37, 67, 58, 19, 12, 13, 14, 15, 16, 5, 18, 53, 51, 52, 49, 50,
      86, 44, 45, 48, 46, 47, 57, 85, 76, 0, 4, 11, 6, 7, 38, 20, 25, 77, 78, 1, 2, 3, 75, 24, 8,
      9, 10, 26, 39, 17, 79, 80, 31, 32, 33, 34, 35, 36, 40, 41, 42, 43, 70, 54, 55, 56, 89, 90,
      91, 92, 93, 94, 95, 96, 97, 98, 99, 100, 59, 60, 61, 62, 101, 81, 82, 63, 64, 65, 66, 83,
      84, 73, 71, 69, 72, 74, 1000]"
  by (simp add: all_reasons_def)

lemma distinct_reason_codes: "distinct (map reason_code all_reasons)"
  unfolding codes_of_reasons by simp

lemma inj_reason_code: "inj reason_code"
  using distinct_reason_codes all_reasons_complete by (auto simp: distinct_map inj_on_def)

end
