(* ===== verification/Lws_Api.thy ===== *)
theory Lws_Api
  imports Lws_Callbacks
begin

text \<open>
  The other parts of the libwebsockets interface that \<open>websocket.c\<close> uses: the padding before
  a buffer and the kinds of a write (\<open>lws-write.h\<close>), the log levels (\<open>lws-logs.h\<close>), the kinds of
  descriptor to adopt (\<open>lws-adopt.h\<close>) and \<open>struct lws_protocols\<close>.
\<close>

section \<open>lws-write.h\<close>

text \<open>The padding on \<open>x86_64\<close>, where pointers have eight bytes.\<close>

definition LWS_PAD_SIZE :: nat where "LWS_PAD_SIZE = 16"

definition LWS_PAD :: "nat \<Rightarrow> nat" where
  "LWS_PAD n = (if n mod LWS_PAD_SIZE \<noteq> 0 then n + (LWS_PAD_SIZE - n mod LWS_PAD_SIZE) else n)"

definition LWS_PRE :: nat where "LWS_PRE = LWS_PAD (4 + 10 + 2)"

datatype lws_write_protocol =
  LWS_WRITE_TEXT | LWS_WRITE_BINARY | LWS_WRITE_CONTINUATION | LWS_WRITE_HTTP | LWS_WRITE_PING
  | LWS_WRITE_PONG | LWS_WRITE_HTTP_FINAL | LWS_WRITE_HTTP_HEADERS
  | LWS_WRITE_HTTP_HEADERS_CONTINUATION | LWS_WRITE_BUFLIST | LWS_WRITE_NO_FIN
  | LWS_WRITE_H2_STREAM_END | LWS_WRITE_CLIENT_IGNORE_XOR_MASK

primrec write_code :: "lws_write_protocol \<Rightarrow> nat" where
  "write_code LWS_WRITE_TEXT = 0"
| "write_code LWS_WRITE_BINARY = 1"
| "write_code LWS_WRITE_CONTINUATION = 2"
| "write_code LWS_WRITE_HTTP = 3"
| "write_code LWS_WRITE_PING = 5"
| "write_code LWS_WRITE_PONG = 6"
| "write_code LWS_WRITE_HTTP_FINAL = 7"
| "write_code LWS_WRITE_HTTP_HEADERS = 8"
| "write_code LWS_WRITE_HTTP_HEADERS_CONTINUATION = 9"
| "write_code LWS_WRITE_BUFLIST = 0x20"
| "write_code LWS_WRITE_NO_FIN = 0x40"
| "write_code LWS_WRITE_H2_STREAM_END = 0x80"
| "write_code LWS_WRITE_CLIENT_IGNORE_XOR_MASK = 0x80"

section \<open>lws-logs.h\<close>

datatype lws_log_levels =
  LLL_ERR | LLL_WARN | LLL_NOTICE | LLL_INFO | LLL_DEBUG | LLL_PARSER | LLL_HEADER | LLL_EXT
  | LLL_CLIENT | LLL_LATENCY | LLL_USER | LLL_THREAD

primrec log_level_code :: "lws_log_levels \<Rightarrow> u32" where
  "log_level_code LLL_ERR = push_bit 0 1"
| "log_level_code LLL_WARN = push_bit 1 1"
| "log_level_code LLL_NOTICE = push_bit 2 1"
| "log_level_code LLL_INFO = push_bit 3 1"
| "log_level_code LLL_DEBUG = push_bit 4 1"
| "log_level_code LLL_PARSER = push_bit 5 1"
| "log_level_code LLL_HEADER = push_bit 6 1"
| "log_level_code LLL_EXT = push_bit 7 1"
| "log_level_code LLL_CLIENT = push_bit 8 1"
| "log_level_code LLL_LATENCY = push_bit 9 1"
| "log_level_code LLL_USER = push_bit 10 1"
| "log_level_code LLL_THREAD = push_bit 11 1"

definition LLL_COUNT :: nat where "LLL_COUNT = 12"

section \<open>lws-adopt.h\<close>

text \<open>Flags, combined bitwise.\<close>

unbundle bit_operations_syntax

definition LWS_ADOPT_RAW_FILE_DESC :: u32 where "LWS_ADOPT_RAW_FILE_DESC = 0"
definition LWS_ADOPT_HTTP :: u32 where "LWS_ADOPT_HTTP = 1"
definition LWS_ADOPT_SOCKET :: u32 where "LWS_ADOPT_SOCKET = 2"
definition LWS_ADOPT_ALLOW_SSL :: u32 where "LWS_ADOPT_ALLOW_SSL = 4"
definition LWS_ADOPT_FLAG_UDP :: u32 where "LWS_ADOPT_FLAG_UDP = 16"
definition LWS_ADOPT_FLAG_RAW_PROXY :: u32 where "LWS_ADOPT_FLAG_RAW_PROXY = 32"
definition LWS_ADOPT_RAW_SOCKET_UDP :: u32 where "LWS_ADOPT_RAW_SOCKET_UDP = LWS_ADOPT_SOCKET OR LWS_ADOPT_FLAG_UDP"

section \<open>lws-protocols-plugins.h\<close>

text \<open>The type of the callbacks is a parameter.\<close>

record 'cb lws_protocols =
  protocol_name :: "string option"
  callback :: "'cb option"
  per_session_data_size :: size_t
  rx_buffer_size :: size_t
  protocol_id :: u32
  protocol_user :: ptr
  tx_packet_size :: size_t

end
