(* ===== verification/Lws_Context.thy ===== *)
theory Lws_Context
  imports Lws_Api
begin

text \<open>
  \<open>lws-context-vhost.h\<close>: the option flags of a context, and the structures \<open>handle_gui\<close> fills
  in to create one.  Pointers the program leaves null are \<open>ptr\<close>; strings and the structures
  it points to are option values.
\<close>

unbundle bit_operations_syntax

section \<open>Options\<close>

definition LWS_SERVER_OPTION_REQUIRE_VALID_OPENSSL_CLIENT_CERT :: u32 where
  "LWS_SERVER_OPTION_REQUIRE_VALID_OPENSSL_CLIENT_CERT = push_bit 1 1 OR push_bit 12 1"

definition LWS_SERVER_OPTION_SKIP_SERVER_CANONICAL_NAME :: u32 where
  "LWS_SERVER_OPTION_SKIP_SERVER_CANONICAL_NAME = push_bit 2 1"

definition LWS_SERVER_OPTION_ALLOW_NON_SSL_ON_SSL_PORT :: u32 where
  "LWS_SERVER_OPTION_ALLOW_NON_SSL_ON_SSL_PORT = push_bit 3 1 OR push_bit 12 1"

definition LWS_SERVER_OPTION_LIBEV :: u32 where
  "LWS_SERVER_OPTION_LIBEV = push_bit 4 1"

definition LWS_SERVER_OPTION_DISABLE_IPV6 :: u32 where
  "LWS_SERVER_OPTION_DISABLE_IPV6 = push_bit 5 1"

definition LWS_SERVER_OPTION_DISABLE_OS_CA_CERTS :: u32 where
  "LWS_SERVER_OPTION_DISABLE_OS_CA_CERTS = push_bit 6 1"

definition LWS_SERVER_OPTION_PEER_CERT_NOT_REQUIRED :: u32 where
  "LWS_SERVER_OPTION_PEER_CERT_NOT_REQUIRED = push_bit 7 1"

definition LWS_SERVER_OPTION_VALIDATE_UTF8 :: u32 where
  "LWS_SERVER_OPTION_VALIDATE_UTF8 = push_bit 8 1"

definition LWS_SERVER_OPTION_SSL_ECDH :: u32 where
  "LWS_SERVER_OPTION_SSL_ECDH = push_bit 9 1 OR push_bit 12 1"

definition LWS_SERVER_OPTION_LIBUV :: u32 where
  "LWS_SERVER_OPTION_LIBUV = push_bit 10 1"

definition LWS_SERVER_OPTION_REDIRECT_HTTP_TO_HTTPS :: u32 where
  "LWS_SERVER_OPTION_REDIRECT_HTTP_TO_HTTPS = push_bit 11 1 OR push_bit 12 1"

definition LWS_SERVER_OPTION_DO_SSL_GLOBAL_INIT :: u32 where
  "LWS_SERVER_OPTION_DO_SSL_GLOBAL_INIT = push_bit 12 1"

definition LWS_SERVER_OPTION_EXPLICIT_VHOSTS :: u32 where
  "LWS_SERVER_OPTION_EXPLICIT_VHOSTS = push_bit 13 1"

definition LWS_SERVER_OPTION_UNIX_SOCK :: u32 where
  "LWS_SERVER_OPTION_UNIX_SOCK = push_bit 14 1"

definition LWS_SERVER_OPTION_STS :: u32 where
  "LWS_SERVER_OPTION_STS = push_bit 15 1"

definition LWS_SERVER_OPTION_IPV6_V6ONLY_MODIFY :: u32 where
  "LWS_SERVER_OPTION_IPV6_V6ONLY_MODIFY = push_bit 16 1"

definition LWS_SERVER_OPTION_IPV6_V6ONLY_VALUE :: u32 where
  "LWS_SERVER_OPTION_IPV6_V6ONLY_VALUE = push_bit 17 1"

definition LWS_SERVER_OPTION_UV_NO_SIGSEGV_SIGFPE_SPIN :: u32 where
  "LWS_SERVER_OPTION_UV_NO_SIGSEGV_SIGFPE_SPIN = push_bit 18 1"

definition LWS_SERVER_OPTION_JUST_USE_RAW_ORIGIN :: u32 where
  "LWS_SERVER_OPTION_JUST_USE_RAW_ORIGIN = push_bit 19 1"

definition LWS_SERVER_OPTION_FALLBACK_TO_RAW :: u32 where
  "LWS_SERVER_OPTION_FALLBACK_TO_RAW = push_bit 20 1"

definition LWS_SERVER_OPTION_FALLBACK_TO_APPLY_LISTEN_ACCEPT_CONFIG :: u32 where
  "LWS_SERVER_OPTION_FALLBACK_TO_APPLY_LISTEN_ACCEPT_CONFIG = push_bit 20 1"

definition LWS_SERVER_OPTION_LIBEVENT :: u32 where
  "LWS_SERVER_OPTION_LIBEVENT = push_bit 21 1"

definition LWS_SERVER_OPTION_ONLY_RAW :: u32 where
  "LWS_SERVER_OPTION_ONLY_RAW = push_bit 22 1"

definition LWS_SERVER_OPTION_ADOPT_APPLY_LISTEN_ACCEPT_CONFIG :: u32 where
  "LWS_SERVER_OPTION_ADOPT_APPLY_LISTEN_ACCEPT_CONFIG = push_bit 22 1"

definition LWS_SERVER_OPTION_ALLOW_LISTEN_SHARE :: u32 where
  "LWS_SERVER_OPTION_ALLOW_LISTEN_SHARE = push_bit 23 1"

definition LWS_SERVER_OPTION_CREATE_VHOST_SSL_CTX :: u32 where
  "LWS_SERVER_OPTION_CREATE_VHOST_SSL_CTX = push_bit 24 1"

definition LWS_SERVER_OPTION_SKIP_PROTOCOL_INIT :: u32 where
  "LWS_SERVER_OPTION_SKIP_PROTOCOL_INIT = push_bit 25 1"

definition LWS_SERVER_OPTION_IGNORE_MISSING_CERT :: u32 where
  "LWS_SERVER_OPTION_IGNORE_MISSING_CERT = push_bit 26 1"

definition LWS_SERVER_OPTION_VHOST_UPG_STRICT_HOST_CHECK :: u32 where
  "LWS_SERVER_OPTION_VHOST_UPG_STRICT_HOST_CHECK = push_bit 27 1"

definition LWS_SERVER_OPTION_HTTP_HEADERS_SECURITY_BEST_PRACTICES_ENFORCE :: u32 where
  "LWS_SERVER_OPTION_HTTP_HEADERS_SECURITY_BEST_PRACTICES_ENFORCE = push_bit 28 1"

definition LWS_SERVER_OPTION_ALLOW_HTTP_ON_HTTPS_LISTENER :: u32 where
  "LWS_SERVER_OPTION_ALLOW_HTTP_ON_HTTPS_LISTENER = push_bit 29 1"

definition lws_check_opt :: "u32 \<Rightarrow> u32 \<Rightarrow> bool" where
  "lws_check_opt c f \<longleftrightarrow> c AND f = f"

text \<open>The flags, by name.\<close>

definition vhost_options :: "(string \<times> u32) list" where
  "vhost_options =
     [(''REQUIRE_VALID_OPENSSL_CLIENT_CERT'', LWS_SERVER_OPTION_REQUIRE_VALID_OPENSSL_CLIENT_CERT),
      (''SKIP_SERVER_CANONICAL_NAME'', LWS_SERVER_OPTION_SKIP_SERVER_CANONICAL_NAME),
      (''ALLOW_NON_SSL_ON_SSL_PORT'', LWS_SERVER_OPTION_ALLOW_NON_SSL_ON_SSL_PORT),
      (''LIBEV'', LWS_SERVER_OPTION_LIBEV),
      (''DISABLE_IPV6'', LWS_SERVER_OPTION_DISABLE_IPV6),
      (''DISABLE_OS_CA_CERTS'', LWS_SERVER_OPTION_DISABLE_OS_CA_CERTS),
      (''PEER_CERT_NOT_REQUIRED'', LWS_SERVER_OPTION_PEER_CERT_NOT_REQUIRED),
      (''VALIDATE_UTF8'', LWS_SERVER_OPTION_VALIDATE_UTF8),
      (''SSL_ECDH'', LWS_SERVER_OPTION_SSL_ECDH),
      (''LIBUV'', LWS_SERVER_OPTION_LIBUV),
      (''REDIRECT_HTTP_TO_HTTPS'', LWS_SERVER_OPTION_REDIRECT_HTTP_TO_HTTPS),
      (''DO_SSL_GLOBAL_INIT'', LWS_SERVER_OPTION_DO_SSL_GLOBAL_INIT),
      (''EXPLICIT_VHOSTS'', LWS_SERVER_OPTION_EXPLICIT_VHOSTS),
      (''UNIX_SOCK'', LWS_SERVER_OPTION_UNIX_SOCK),
      (''STS'', LWS_SERVER_OPTION_STS),
      (''IPV6_V6ONLY_MODIFY'', LWS_SERVER_OPTION_IPV6_V6ONLY_MODIFY),
      (''IPV6_V6ONLY_VALUE'', LWS_SERVER_OPTION_IPV6_V6ONLY_VALUE),
      (''UV_NO_SIGSEGV_SIGFPE_SPIN'', LWS_SERVER_OPTION_UV_NO_SIGSEGV_SIGFPE_SPIN),
      (''JUST_USE_RAW_ORIGIN'', LWS_SERVER_OPTION_JUST_USE_RAW_ORIGIN),
      (''FALLBACK_TO_RAW'', LWS_SERVER_OPTION_FALLBACK_TO_RAW),
      (''FALLBACK_TO_APPLY_LISTEN_ACCEPT_CONFIG'', LWS_SERVER_OPTION_FALLBACK_TO_APPLY_LISTEN_ACCEPT_CONFIG),
      (''LIBEVENT'', LWS_SERVER_OPTION_LIBEVENT),
      (''ONLY_RAW'', LWS_SERVER_OPTION_ONLY_RAW),
      (''ADOPT_APPLY_LISTEN_ACCEPT_CONFIG'', LWS_SERVER_OPTION_ADOPT_APPLY_LISTEN_ACCEPT_CONFIG),
      (''ALLOW_LISTEN_SHARE'', LWS_SERVER_OPTION_ALLOW_LISTEN_SHARE),
      (''CREATE_VHOST_SSL_CTX'', LWS_SERVER_OPTION_CREATE_VHOST_SSL_CTX),
      (''SKIP_PROTOCOL_INIT'', LWS_SERVER_OPTION_SKIP_PROTOCOL_INIT),
      (''IGNORE_MISSING_CERT'', LWS_SERVER_OPTION_IGNORE_MISSING_CERT),
      (''VHOST_UPG_STRICT_HOST_CHECK'', LWS_SERVER_OPTION_VHOST_UPG_STRICT_HOST_CHECK),
      (''HTTP_HEADERS_SECURITY_BEST_PRACTICES_ENFORCE'', LWS_SERVER_OPTION_HTTP_HEADERS_SECURITY_BEST_PRACTICES_ENFORCE),
      (''ALLOW_HTTP_ON_HTTPS_LISTENER'', LWS_SERVER_OPTION_ALLOW_HTTP_ON_HTTPS_LISTENER)]"

section \<open>Mounts\<close>

record lws_protocol_vhost_options =
  pvo_next :: ptr
  pvo_options :: ptr
  pvo_name :: "string option"
  pvo_value :: "string option"

datatype lws_mount_protocols =
  LWSMPRO_HTTP | LWSMPRO_HTTPS | LWSMPRO_FILE | LWSMPRO_CGI | LWSMPRO_REDIR_HTTP
  | LWSMPRO_REDIR_HTTPS | LWSMPRO_CALLBACK

primrec mount_protocol_code :: "lws_mount_protocols \<Rightarrow> u8" where
  "mount_protocol_code LWSMPRO_HTTP = 0"
| "mount_protocol_code LWSMPRO_HTTPS = 1"
| "mount_protocol_code LWSMPRO_FILE = 2"
| "mount_protocol_code LWSMPRO_CGI = 3"
| "mount_protocol_code LWSMPRO_REDIR_HTTP = 4"
| "mount_protocol_code LWSMPRO_REDIR_HTTPS = 5"
| "mount_protocol_code LWSMPRO_CALLBACK = 6"

record lws_http_mount =
  mount_next :: ptr
  mountpoint :: "string option"
  origin :: "string option"
  def_file :: "string option"
  protocol :: "string option"
  cgienv :: "lws_protocol_vhost_options option"
  extra_mimetypes :: "lws_protocol_vhost_options option"
  interpret_as :: "lws_protocol_vhost_options option"
  cgi_timeout :: int
  cache_max_age :: int
  auth_mask :: u32
  cache_reusable :: "1 word"
  cache_revalidate :: "1 word"
  cache_intermediaries :: "1 word"
  origin_protocol :: u8
  mountpoint_len :: u8
  basic_auth_login_file :: "string option"
  mount_unused :: "ptr list"

section \<open>struct lws\_context\_creation\_info\<close>

text \<open>In five parts, in the order of its members.\<close>

record 'cb creation_listen =
  listen_port :: int
  iface :: "string option"
  protocols :: "('cb lws_protocols list) option"
  extensions :: ptr
  token_limits :: ptr
  ssl_private_key_password :: "string option"
  ssl_cert_filepath :: "string option"
  ssl_private_key_filepath :: "string option"
  ssl_ca_filepath :: "string option"
  ssl_cipher_list :: "string option"
  http_proxy_address :: "string option"
  http_proxy_port :: u32
  gid :: int
  uid :: int
  options :: u32
  user :: ptr
  ka_time :: int
  ka_probes :: int
  ka_interval :: int

record 'cb creation_vhost = "'cb creation_listen" +
  provided_client_ssl_ctx :: ptr
  max_http_header_data :: u16
  max_http_header_pool :: u16
  count_threads :: u32
  fd_limit_per_thread :: u32
  timeout_secs :: u32
  ecdh_curve :: "string option"
  vhost_name :: "string option"
  plugin_dirs :: ptr
  pvo :: "lws_protocol_vhost_options option"
  keepalive_timeout :: int
  log_filepath :: "string option"
  mounts :: "lws_http_mount option"
  server_string :: "string option"
  pt_serv_buf_size :: u32
  max_http_header_data2 :: u32
  ssl_options_set :: int
  ssl_options_clear :: int
  ws_ping_pong_interval :: u16
  headers :: "lws_protocol_vhost_options option"
  reject_service_keywords :: "lws_protocol_vhost_options option"
  external_baggage_free_on_destroy :: ptr

record 'cb creation_client = "'cb creation_vhost" +
  client_ssl_private_key_password :: "string option"
  client_ssl_cert_filepath :: "string option"
  client_ssl_cert_mem :: ptr
  client_ssl_cert_mem_len :: u32
  client_ssl_private_key_filepath :: "string option"
  client_ssl_ca_filepath :: "string option"
  client_ssl_ca_mem :: ptr
  client_ssl_ca_mem_len :: u32
  client_ssl_cipher_list :: "string option"
  fops :: ptr
  simultaneous_ssl_restriction :: int
  socks_proxy_address :: "string option"
  socks_proxy_port :: u32
  bind_iface :: int
  ssl_info_event_mask :: int
  timeout_secs_ah_idle :: u32
  ip_limit_ah :: u16
  ip_limit_wsi :: u16

record 'cb creation_events = "'cb creation_client" +
  http2_settings :: "u32 list"
  error_document_404 :: "string option"
  alpn :: "string option"
  foreign_loops :: ptr
  signal_cb :: ptr
  pcontext :: ptr
  finalize :: ptr
  finalize_arg :: ptr
  max_http_header_pool2 :: u32
  ssl_client_options_set :: int
  ssl_client_options_clear :: int
  tls1_3_plus_cipher_list :: "string option"
  client_tls_1_3_plus_cipher_list :: "string option"
  listen_accept_role :: "string option"
  listen_accept_protocol :: "string option"
  pprotocols :: ptr

record 'cb lws_context_creation_info = "'cb creation_events" +
  server_ssl_cert_mem :: ptr
  server_ssl_cert_mem_len :: u32
  server_ssl_private_key_mem :: ptr
  server_ssl_private_key_mem_len :: u32
  server_ssl_ca_mem :: ptr
  server_ssl_ca_mem_len :: u32
  username :: "string option"
  groupname :: "string option"
  unix_socket_perms :: "string option"
  unused :: "ptr list"

text \<open>\<open>memset(&info, 0, sizeof info)\<close>.\<close>

definition zero_info :: "'cb lws_context_creation_info" where
  "zero_info =
      \<lparr>listen_port = 0, iface = None, protocols = None, extensions = None,
      token_limits = None, ssl_private_key_password = None, ssl_cert_filepath = None,
      ssl_private_key_filepath = None, ssl_ca_filepath = None, ssl_cipher_list = None,
      http_proxy_address = None, http_proxy_port = 0, gid = 0, uid = 0, options = 0, user = None,
      ka_time = 0, ka_probes = 0, ka_interval = 0, provided_client_ssl_ctx = None,
      max_http_header_data = 0, max_http_header_pool = 0, count_threads = 0,
      fd_limit_per_thread = 0, timeout_secs = 0, ecdh_curve = None, vhost_name = None,
      plugin_dirs = None, pvo = None, keepalive_timeout = 0, log_filepath = None, mounts = None,
      server_string = None, pt_serv_buf_size = 0, max_http_header_data2 = 0, ssl_options_set = 0,
      ssl_options_clear = 0, ws_ping_pong_interval = 0, headers = None,
      reject_service_keywords = None, external_baggage_free_on_destroy = None,
      client_ssl_private_key_password = None, client_ssl_cert_filepath = None,
      client_ssl_cert_mem = None, client_ssl_cert_mem_len = 0,
      client_ssl_private_key_filepath = None, client_ssl_ca_filepath = None,
      client_ssl_ca_mem = None, client_ssl_ca_mem_len = 0, client_ssl_cipher_list = None,
      fops = None, simultaneous_ssl_restriction = 0, socks_proxy_address = None,
      socks_proxy_port = 0, bind_iface = 0, ssl_info_event_mask = 0, timeout_secs_ah_idle = 0,
      ip_limit_ah = 0, ip_limit_wsi = 0, http2_settings = replicate 7 0,
      error_document_404 = None, alpn = None, foreign_loops = None, signal_cb = None,
      pcontext = None, finalize = None, finalize_arg = None, max_http_header_pool2 = 0,
      ssl_client_options_set = 0, ssl_client_options_clear = 0, tls1_3_plus_cipher_list = None,
      client_tls_1_3_plus_cipher_list = None, listen_accept_role = None,
      listen_accept_protocol = None, pprotocols = None, server_ssl_cert_mem = None,
      server_ssl_cert_mem_len = 0, server_ssl_private_key_mem = None,
      server_ssl_private_key_mem_len = 0, server_ssl_ca_mem = None, server_ssl_ca_mem_len = 0,
      username = None, groupname = None, unix_socket_perms = None, unused = replicate 4 None\<rparr>"

end
