(* ===== verification/Gui.thy ===== *)
theory Gui
  imports Lws_Context
begin

text \<open>
  \<open>websocket.c\<close>: the process that serves the chat page and relays bytes between the browser's
  websocket and the peer, over two pipes.  libwebsockets itself is not in the repository; what
  its calls return is an argument (\<open>chat_io\<close>, and the functions given to \<open>handle_gui\<close>).
\<close>

section \<open>Configuration\<close>

datatype gui_callback = Lws_callback_http_dummy | Callback_chat

definition mount :: lws_http_mount where
  "mount =
     \<lparr>mount_next = None, mountpoint = Some ''/'', origin = Some ''.'', def_file = Some ''chat.html'',
      protocol = None, cgienv = None, extra_mimetypes = None, interpret_as = None,
      cgi_timeout = 0, cache_max_age = 0, auth_mask = 0, cache_reusable = 0,
      cache_revalidate = 0, cache_intermediaries = 0,
      origin_protocol = mount_protocol_code LWSMPRO_FILE, mountpoint_len = 1,
      basic_auth_login_file = None, mount_unused = [None, None]\<rparr>"

definition gui_protocols :: "gui_callback lws_protocols list" where
  "gui_protocols =
     [\<lparr>protocol_name = Some ''http-only'', callback = Some Lws_callback_http_dummy,
       per_session_data_size = 0, rx_buffer_size = 0, protocol_id = 0, protocol_user = None,
       tx_packet_size = 0\<rparr>,
      \<lparr>protocol_name = Some ''chat-protocol'', callback = Some Callback_chat,
       per_session_data_size = 0, rx_buffer_size = 0, protocol_id = 0, protocol_user = None,
       tx_packet_size = 0\<rparr>,
      \<lparr>protocol_name = None, callback = None,
       per_session_data_size = 0, rx_buffer_size = 0, protocol_id = 0, protocol_user = None,
       tx_packet_size = 0\<rparr>]"

definition gui_info :: "gui_callback lws_context_creation_info" where
  "gui_info = zero_info
     \<lparr>listen_port := 8000, mounts := Some mount, protocols := Some gui_protocols,
      vhost_name := Some ''localhost'',
      options := LWS_SERVER_OPTION_HTTP_HEADERS_SECURITY_BEST_PRACTICES_ENFORCE\<rparr>"

definition gui_logs :: u32 where
  "gui_logs = log_level_code LLL_USER OR log_level_code LLL_ERR OR log_level_code LLL_WARN OR
     log_level_code LLL_NOTICE"

section \<open>callback\_chat\<close>

text \<open>
  The globals of the file; the storage the library keeps for the virtual host (\<open>vhd\<close>, the
  descriptor of \<open>struct myupd_fd\<close>, once allocated); and, as a record of what was done, the
  bytes written to each descriptor, the messages given to \<open>lws_write\<close> with their kind, the
  descriptors adopted and closed.
\<close>

record gui_state =
  FD_MAGIC_READ :: int
  FD_MAGIC_WRITE :: int
  counter :: int
  vhd :: "int option"
  piped :: "(int \<times> u8 list) list"
  ws_out :: "(u8 list \<times> nat) list"
  adopted :: "(int \<times> u32 \<times> string) list"
  closed :: "int list"

text \<open>
  What the calls return: whether \<open>lws_protocol_vh_priv_zalloc\<close> and
  \<open>lws_adopt_descriptor_vhost\<close> succeed, the bytes available to \<open>read\<close> (\<open>None\<close> for an error),
  and what the uninitialised buffer holds.
\<close>

record chat_io =
  zalloc_ok :: bool
  adopt_ok :: bool
  available :: "u8 list option"
  stack :: "nat \<Rightarrow> u8"

definition chat_buffer_size :: nat where
  "chat_buffer_size = LWS_PRE + 2 ^ 16 + 1"

text \<open>\<open>printf("%s")\<close> reads up to a zero byte, and must find one in the buffer.\<close>

definition print_string :: "u8 list \<Rightarrow> u8 list option" where
  "print_string bs = (if 0 \<in> set bs then Some (takeWhile (\<lambda>c. c \<noteq> 0) bs) else None)"

definition on_established :: "chat_io \<Rightarrow> gui_state \<Rightarrow> (int \<times> gui_state) option" where
  "on_established e s =
     (if \<not> zalloc_ok e then None
      else let fd = FD_MAGIC_READ s in
           if adopt_ok e
           then Some (0, s\<lparr>vhd := Some fd,
                  adopted := adopted s @ [(fd, LWS_ADOPT_RAW_FILE_DESC, ''chat-protocol'')]\<rparr>)
           else Some (1, s\<lparr>vhd := Some (-1), closed := closed s @ [fd]\<rparr>))"

definition on_receive :: "u8 list \<Rightarrow> nat \<Rightarrow> gui_state \<Rightarrow> (int \<times> gui_state) option" where
  "on_receive inb len s =
     do { bs \<leftarrow> peek inb 0 len; Some (0, s\<lparr>piped := piped s @ [(FD_MAGIC_WRITE s, bs)]\<rparr>) }"

text \<open>\<open>read\<close> is given the size of the whole buffer, and writes \<open>LWS_PRE\<close> bytes into it.\<close>

definition on_rx_file :: "chat_io \<Rightarrow> nat \<Rightarrow> gui_state \<Rightarrow> (int \<times> gui_state) option" where
  "on_rx_file e len s =
     do { b0 \<leftarrow> poke 0 (replicate (LWS_PRE + len) 0) (map (stack e) [0..<chat_buffer_size]);
          _ \<leftarrow> vhd s;
          case available e of
            None \<Rightarrow> Some (0, s)
          | Some bs \<Rightarrow>
              let d = take chat_buffer_size bs in
              do { b \<leftarrow> poke LWS_PRE d b0;
                   _ \<leftarrow> print_string (drop LWS_PRE b);
                   out \<leftarrow> peek b LWS_PRE (length d);
                   Some (0, s\<lparr>ws_out := ws_out s @ [(out, write_code LWS_WRITE_TEXT)]\<rparr>) } }"

definition callback_chat :: "chat_io \<Rightarrow> nat \<Rightarrow> u8 list \<Rightarrow> nat \<Rightarrow> gui_state \<Rightarrow> (int \<times> gui_state) option" where
  "callback_chat e reason inb len s0 =
     (let s = s0\<lparr>counter := to_int (counter s0 + 1)\<rparr> in
      if reason = reason_code (WsServer LWS_CALLBACK_ESTABLISHED) then on_established e s
      else if reason = reason_code (WsServer LWS_CALLBACK_RECEIVE) then on_receive inb len s
      else if reason = reason_code (RawFile LWS_CALLBACK_RAW_ADOPT_FILE) then Some (0, s)
      else if reason = reason_code (RawFile LWS_CALLBACK_RAW_RX_FILE) then on_rx_file e len s
      else Some (0, s))"

section \<open>handle\_gui\<close>

text \<open>
  The loop around \<open>lws_service\<close>: \<open>svc i\<close> is what the \<open>i\<close>-th call returns, \<open>intr i\<close> the value of
  \<open>interrupted\<close> before it.  It may run for ever.
\<close>

partial_function (option) service_loop :: "(nat \<Rightarrow> int) \<Rightarrow> (nat \<Rightarrow> bool) \<Rightarrow> nat \<Rightarrow> int \<Rightarrow> nat option" where
  "service_loop svc intr i n =
     (if n \<ge> 0 \<and> \<not> intr i then service_loop svc intr (i + 1) (svc i) else Some i)"

text \<open>\<open>sigint_handler\<close> sets \<open>interrupted\<close>; no call of \<open>signal\<close> installs it.\<close>

definition sigint_handler :: "bool \<Rightarrow> bool" where "sigint_handler interrupted = True"

record magic_fds =
  magic_read :: int
  magic_write :: int
  closed_ends :: "int list"

text \<open>
  What \<open>main\<close> is left with when \<open>handle_gui\<close> returns; \<open>None\<close> when it does not.  \<open>fd\<close> and \<open>fd2\<close> are
  the ends of the pipes (reading end first), \<open>pid\<close> the result of \<open>fork\<close>.
\<close>

definition handle_gui :: "int \<times> int \<Rightarrow> int \<times> int \<Rightarrow> int \<Rightarrow> (gui_callback lws_context_creation_info \<Rightarrow> 'ctx option)
    \<Rightarrow> ('ctx \<Rightarrow> nat \<Rightarrow> int) \<Rightarrow> (nat \<Rightarrow> bool) \<Rightarrow> magic_fds option" where
  "handle_gui fd fd2 pid create svc intr =
     (if pid = 0
      then Some \<lparr>magic_read = fst fd2, magic_write = snd fd, closed_ends = [fst fd, snd fd2]\<rparr>
      else let m = \<lparr>magic_read = fst fd, magic_write = snd fd2, closed_ends = [snd fd, fst fd2]\<rparr> in
           case create gui_info of
             None \<Rightarrow> Some m
           | Some ctx \<Rightarrow> do { _ \<leftarrow> service_loop (svc ctx) intr 0 0; Some m })"

section \<open>Laws\<close>

lemma reason_code_eq [simp]: "reason_code r = reason_code q \<longleftrightarrow> r = q"
  using inj_reason_code by (simp add: inj_eq)

lemma LWS_PRE_16 [simp]: "LWS_PRE = 16"
  by (simp add: LWS_PRE_def LWS_PAD_def LWS_PAD_SIZE_def)

lemma chat_buffer_size_eq: "chat_buffer_size = 65553"
  by (simp add: chat_buffer_size_def)

text \<open>\<open>lws_service\<close> is called again until it fails or \<open>interrupted\<close> is set.\<close>

definition stops :: "(nat \<Rightarrow> int) \<Rightarrow> (nat \<Rightarrow> bool) \<Rightarrow> nat \<Rightarrow> int \<Rightarrow> nat \<Rightarrow> bool" where
  "stops svc intr i n j \<longleftrightarrow> i \<le> j \<and> (intr j \<or> (if j = i then n else svc (j - 1)) < 0)"

lemma service_loop_stops:
  assumes r: "service_loop svc intr i n = Some j"
  shows "stops svc intr i n j"
proof (rule service_loop.raw_induct [OF _ r])
  fix sl :: "(nat \<Rightarrow> int) \<Rightarrow> (nat \<Rightarrow> bool) \<Rightarrow> nat \<Rightarrow> int \<Rightarrow> nat option" and svc intr i k and n :: int
  assume IH: "\<And>svc intr i n y. sl svc intr i n = Some y \<Longrightarrow> stops svc intr i n y"
    and body: "(if 0 \<le> n \<and> \<not> intr i then sl svc intr (i + 1) (svc i) else Some i) = Some k"
  show "stops svc intr i n k"
  proof (cases "n \<ge> 0 \<and> \<not> intr i")
    case True
    then have "stops svc intr (i + 1) (svc i) k" using IH body by simp
    then show ?thesis by (auto simp: stops_def split: if_splits)
  next
    case False
    then have "k = i" using body by (simp only: if_False option.inject)
    then show ?thesis using False by (auto simp: stops_def)
  qed
qed

lemma service_loop_returns: "stops svc intr i n j \<Longrightarrow> \<exists>k. service_loop svc intr i n = Some k"
proof (induction "j - i" arbitrary: i n)
  case 0
  then have "\<not> (n \<ge> 0 \<and> \<not> intr i)" by (auto simp: stops_def split: if_splits)
  then have "service_loop svc intr i n = Some i" by (subst service_loop.simps) (simp only: if_False)
  then show ?case by blast
next
  case (Suc d)
  show ?case
  proof (cases "n \<ge> 0 \<and> \<not> intr i")
    case True
    have "stops svc intr (i + 1) (svc i) j" using Suc.prems Suc.hyps(2) True by (auto simp: stops_def split: if_splits)
    then obtain k where "service_loop svc intr (i + 1) (svc i) = Some k"
      using Suc.hyps(1) [of "i + 1" "svc i"] Suc.hyps(2) by fastforce
    then show ?thesis using True by (subst service_loop.simps) simp
  next
    case False
    then have "service_loop svc intr i n = Some i" by (subst service_loop.simps) (simp only: if_False)
    then show ?thesis by blast
  qed
qed

section \<open>Properties\<close>

text \<open>
  What the peer writes to its pipe reaches the browser unchanged: up to 65537 bytes with a
  NUL among them, which is how the peer marks a message, are sent as one text message.
\<close>

lemma pipe_to_websocket:
  assumes "vhd s = Some fd" "available e = Some bs" "length bs \<le> 65537" "0 \<in> set bs" "len \<le> 65537"
  shows "callback_chat e (reason_code (RawFile LWS_CALLBACK_RAW_RX_FILE)) inb len s =
    Some (0, s\<lparr>counter := to_int (counter s + 1), ws_out := ws_out s @ [(bs, write_code LWS_WRITE_TEXT)]\<rparr>)"
proof -
  let ?s = "s\<lparr>counter := to_int (counter s + 1)\<rparr>"
  let ?b = "map (stack e) [0..<chat_buffer_size]"
  obtain b0 where b0: "poke 0 (replicate (LWS_PRE + len) 0) ?b = Some b0" "length b0 = 65553"
    using assms(5) by (auto simp: poke_def chat_buffer_size_eq)
  have t: "take chat_buffer_size bs = bs" using assms(3) by (simp add: chat_buffer_size_eq)
  let ?b1 = "take LWS_PRE b0 @ bs @ drop (LWS_PRE + length bs) b0"
  have "poke LWS_PRE bs b0 = Some ?b1" using assms(3) b0(2) by (simp add: poke_def)
  moreover have "print_string (drop LWS_PRE ?b1) \<noteq> None" using assms(4) b0(2) by (simp add: print_string_def)
  moreover have "peek ?b1 LWS_PRE (length bs) = Some bs" using b0(2) by (simp add: peek_def)
  ultimately have "on_rx_file e len ?s = Some (0, ?s\<lparr>ws_out := ws_out s @ [(bs, write_code LWS_WRITE_TEXT)]\<rparr>)"
    using assms(1,2) b0(1) t by (auto simp: on_rx_file_def)
  then show ?thesis by (simp add: callback_chat_def Let_def)
qed

definition quiet_gui :: gui_state where
  "quiet_gui = \<lparr>FD_MAGIC_READ = 3, FD_MAGIC_WRITE = 4, counter = 0, vhd = Some 3, piped = [], ws_out = [],
     adopted = [], closed = []\<rparr>"

definition giving :: "u8 list \<Rightarrow> chat_io" where
  "giving bs = \<lparr>zalloc_ok = True, adopt_ok = True, available = Some bs, stack = (\<lambda>_. 1)\<rparr>"

lemma pipe_to_websocket_example:
  "\<exists>s'. callback_chat (giving [0, 72, 105]) 64 [] 0 quiet_gui = Some (0, s') \<and> ws_out s' = [([0, 72, 105], 0)]"
  using pipe_to_websocket [of quiet_gui 3 "giving [0, 72, 105]" "[0, 72, 105]" 0 "[]"]
  by (simp add: quiet_gui_def giving_def)

text \<open>
  C39: \<open>read\<close> is told that the whole buffer, padding included, lies behind the padding: a pipe
  that holds more than 65537 bytes overflows the buffer by up to \<open>LWS_PRE\<close> bytes.
\<close>

theorem pipe_overflows_buffer:
  assumes "available e = Some bs" "65537 < length bs"
  shows "callback_chat e (reason_code (RawFile LWS_CALLBACK_RAW_RX_FILE)) inb len s = None"
proof -
  have "poke LWS_PRE (take chat_buffer_size bs) b0 = None" if "length b0 = 65553" for b0
    using that assms(2) by (simp add: poke_def chat_buffer_size_eq)
  moreover have "length b0 = 65553"
    if "poke 0 (replicate (LWS_PRE + len) 0) (map (stack e) [0..<chat_buffer_size]) = Some b0" for b0
    using poke_length [OF that] by (simp add: chat_buffer_size_eq)
  ultimately have "on_rx_file e len s1 = None" for s1
    using assms(1) by (auto simp: on_rx_file_def split: bind_splits)
  then show ?thesis by (simp add: callback_chat_def Let_def)
qed

theorem pipe_overflows_buffer_witness:
  "callback_chat (giving (replicate 65538 65)) 64 [] 0 quiet_gui = None"
  using pipe_overflows_buffer [of "giving (replicate 65538 65)" "replicate 65538 65" "[]" 0 quiet_gui]
  by (simp add: giving_def)

text \<open>
  C27: the child process always leaves \<open>handle_gui\<close>; the parent leaves it, to run \<open>main\<close> as a
  second peer, exactly when the context cannot be created, a call of \<open>lws_service\<close> fails or
  \<open>interrupted\<close> is set.  Each process then reads the pipe the other one writes, and has closed
  the two ends it does not use.
\<close>

theorem handle_gui_returns:
  "handle_gui fd fd2 pid create svc intr =
     (if pid = 0
      then Some \<lparr>magic_read = fst fd2, magic_write = snd fd, closed_ends = [fst fd, snd fd2]\<rparr>
      else if create gui_info = None \<or> (\<exists>i. intr i \<or> svc (the (create gui_info)) i < 0)
      then Some \<lparr>magic_read = fst fd, magic_write = snd fd2, closed_ends = [snd fd, fst fd2]\<rparr>
      else None)"
proof (cases "create gui_info")
  case (Some ctx)
  have "(\<exists>k. service_loop (svc ctx) intr 0 0 = Some k) \<longleftrightarrow> (\<exists>i. intr i \<or> svc ctx i < 0)"
  proof
    assume "\<exists>k. service_loop (svc ctx) intr 0 0 = Some k"
    then obtain k where "stops (svc ctx) intr 0 0 k" using service_loop_stops by blast
    then show "\<exists>i. intr i \<or> svc ctx i < 0" by (auto simp: stops_def split: if_splits)
  next
    assume "\<exists>i. intr i \<or> svc ctx i < 0"
    then obtain i where "intr i \<or> svc ctx i < 0" by blast
    then have "stops (svc ctx) intr 0 0 i \<or> stops (svc ctx) intr 0 0 (i + 1)" by (auto simp: stops_def)
    then show "\<exists>k. service_loop (svc ctx) intr 0 0 = Some k" using service_loop_returns by blast
  qed
  then show ?thesis
    using Some by (cases "service_loop (svc ctx) intr 0 0") (auto simp: handle_gui_def)
qed (simp add: handle_gui_def)

text \<open>
  The server is set up as plain HTTP: of the options the library knows only the strict
  security headers are on; no certificate or key is given; the page is served from the current
  directory under the path whose length is announced; and the list of protocols has distinct
  names and ends where the library looks for its end.
\<close>

lemma gui_configuration:
  "map fst (filter (\<lambda>(n, f). lws_check_opt (options gui_info) f) vhost_options) =
      [''HTTP_HEADERS_SECURITY_BEST_PRACTICES_ENFORCE''] \<and>
    listen_port gui_info = 8000 \<and> ssl_cert_filepath gui_info = None \<and> ssl_private_key_filepath gui_info = None \<and>
    server_ssl_cert_mem gui_info = None \<and> unat (mountpoint_len mount) = length (the (mountpoint mount)) \<and>
    distinct (map protocol_name gui_protocols) \<and> callback (last gui_protocols) = None \<and>
    map_of (map (\<lambda>p. (protocol_name p, callback p)) gui_protocols) (Some ''chat-protocol'') = Some (Some Callback_chat)"
proof -
  have "map fst (filter (\<lambda>(n, f). lws_check_opt (options gui_info) f) vhost_options) =
      [''HTTP_HEADERS_SECURITY_BEST_PRACTICES_ENFORCE'']"
    by code_simp
  then show ?thesis
    by (simp add: gui_info_def zero_info_def mount_def gui_protocols_def)
qed

end
