(* ===== verification/End_To_End.thy ===== *)
theory End_To_End
  imports Exchange Gui
begin

text \<open>
  The whole way of a chat message: from the websocket of one browser through the process that
  serves it, the pipe, the peer, a datagram, the other peer and its pipe to the other browser.
\<close>

section \<open>The process that serves the page\<close>

lemma websocket_to_pipe:
  assumes "len \<le> length inb"
  shows "callback_chat io (reason_code (WsServer LWS_CALLBACK_RECEIVE)) inb len g =
    Some (0, g\<lparr>counter := to_int (counter g + 1), piped := piped g @ [(FD_MAGIC_WRITE g, take len inb)]\<rparr>)"
  using assms by (simp add: callback_chat_def on_receive_def peek_def Let_def)

text \<open>A message as \<open>print_on_screen\<close> writes it, a zero byte and the text, in two writes.\<close>

lemma message_to_websocket:
  assumes "vhd h = Some fd" "available io = Some (concat [[0], t])" "length t \<le> 65536" "len \<le> 65537"
  shows "\<exists>h1. callback_chat io (reason_code (RawFile LWS_CALLBACK_RAW_RX_FILE)) inb len h = Some (0, h1) \<and>
    ws_out h1 = ws_out h @ [(0 # t, write_code LWS_WRITE_TEXT)]"
  using pipe_to_websocket [of h fd io "0 # t" len inb] assms by simp

section \<open>From browser to browser\<close>

text \<open>
  C5: what is typed in one browser is shown in the other.  A message received from the
  websocket is written to the pipe as it is; the peer that reads it there files it under a
  new address; when a datagram with the filed TLV reaches a peer that has nothing of the first,
  this one appends exactly two writes to its pipe; and once they are there, the process that
  serves the other browser sends it one text message, the zero byte and the text, no byte of it changed.
\<close>

theorem browser_to_browser:
  assumes len: "len \<le> length inb"
    and a: "peer_ok a" "gui_ok e a" "typed e = Some (take len inb)"
    and b: "peer_ok b" "locals_ok lb" "\<forall>q g. floods b q = Some g \<longrightarrow> index_id (flood_index g) \<noteq> ID a"
    and sa: "length (sin6_addr sa) = 16"
  shows "\<exists>g1 a1 fl f.
    callback_chat io (reason_code (WsServer LWS_CALLBACK_RECEIVE)) inb len g = Some (0, g1) \<and>
    piped g1 = piped g @ [(FD_MAGIC_WRITE g, take len inb)] \<and>
    on_gui e a = Some a1 \<and> floods a fl = None \<and> floods a1 fl = Some f \<and>
    (\<forall>e2. received e2 = Some (packet (encode_tlv 4 (datum f)), sa) \<longrightarrow>
      (\<exists>lb1 b1 w. on_socket e2 (lb, b) = Some (lb1, b1) \<and> gui b1 = gui b @ w \<and> length w = 2 \<and>
        (\<forall>h fd io2 inb2 len2. vhd h = Some fd \<longrightarrow> available io2 = Some (concat w) \<longrightarrow> len2 \<le> 65537 \<longrightarrow>
          (\<exists>h1. callback_chat io2 (reason_code (RawFile LWS_CALLBACK_RAW_RX_FILE)) inb2 len2 h = Some (0, h1) \<and>
            ws_out h1 = ws_out h @ [(0 # gui_text (take len inb), write_code LWS_WRITE_TEXT)]))))"
proof -
  let ?t = "gui_text (take len inb)"
  have t: "length ?t \<le> 65536" using a(2,3) by (auto simp: gui_ok_def)
  obtain a1 fl f where f: "on_gui e a = Some a1" "floods a fl = None" "floods a1 fl = Some f"
    "\<forall>e2. received e2 = Some (packet (encode_tlv 4 (datum f)), sa) \<longrightarrow>
      (\<exists>lb1 b1 t. on_socket e2 (lb, b) = Some (lb1, b1) \<and>
        tty b1 = tty b @ [?t] @ t \<and> set t \<subseteq> {[10]} \<and> gui b1 = gui b @ [[0], ?t])"
    using typed_line_shown [OF a b sa] by blast
  have "\<exists>lb1 b1 w. on_socket e2 (lb, b) = Some (lb1, b1) \<and> gui b1 = gui b @ w \<and> length w = 2 \<and>
      (\<forall>h fd io2 inb2 len2. vhd h = Some fd \<longrightarrow> available io2 = Some (concat w) \<longrightarrow> len2 \<le> 65537 \<longrightarrow>
        (\<exists>h1. callback_chat io2 (reason_code (RawFile LWS_CALLBACK_RAW_RX_FILE)) inb2 len2 h = Some (0, h1) \<and>
          ws_out h1 = ws_out h @ [(0 # ?t, write_code LWS_WRITE_TEXT)]))"
    if r: "received e2 = Some (packet (encode_tlv 4 (datum f)), sa)" for e2
  proof -
    obtain lb1 b1 where "on_socket e2 (lb, b) = Some (lb1, b1)" "gui b1 = gui b @ [[0], ?t]" using f(4) r by blast
    moreover have "length [[0], ?t] = 2" by simp
    moreover note message_to_websocket [OF _ _ t]
    ultimately show ?thesis by blast
  qed
  with f(1-3) show ?thesis using websocket_to_pipe [OF len] by fastforce
qed

theorem browser_to_browser_witness:
  "\<exists>g1 a1 f lb1 b1 h1.
    callback_chat (giving []) (reason_code (WsServer LWS_CALLBACK_RECEIVE)) [72, 105, 10] 3 quiet_gui = Some (0, g1) \<and>
    piped g1 = [(4, [72, 105, 10])] \<and> on_gui typed_hi one_neighbor = Some a1 \<and>
    on_socket (arrives (packet (encode_tlv 4 (datum f))) blank_address) (blank_locals, blank_peer) = Some (lb1, b1) \<and>
    callback_chat (giving (concat (gui b1))) (reason_code (RawFile LWS_CALLBACK_RAW_RX_FILE)) [] 0 quiet_gui = Some (0, h1) \<and>
    ws_out h1 = [([0, 72, 105], 0)]"
proof -
  have t: "typed typed_hi = Some (take 3 [72, 105, 10])" "gui_text (take 3 [72, 105, 10]) = [72, 105]"
    by (simp_all add: typed_hi_def gui_text_def strip_last_def)
  have b: "\<forall>q g. floods blank_peer q = Some g \<longrightarrow> index_id (flood_index g) \<noteq> ID one_neighbor" by (simp add: blank_peer_def)
  have sa: "length (sin6_addr blank_address) = 16" by (simp add: blank_address_def)
  have o: "gui blank_peer = []" "piped quiet_gui = []" "FD_MAGIC_WRITE quiet_gui = 4" "ws_out quiet_gui = []"
    "vhd quiet_gui = Some 3" "write_code LWS_WRITE_TEXT = 0" by (simp_all add: blank_peer_def quiet_gui_def)
  have l: "3 \<le> length [72, 105, 10 :: u8]" by simp
  obtain g1 a1 f where 1: "callback_chat (giving []) (reason_code (WsServer LWS_CALLBACK_RECEIVE)) [72, 105, 10] 3 quiet_gui = Some (0, g1)"
    "piped g1 = piped quiet_gui @ [(FD_MAGIC_WRITE quiet_gui, take 3 [72, 105, 10])]" "on_gui typed_hi one_neighbor = Some a1"
    and 2: "\<forall>e2. received e2 = Some (packet (encode_tlv 4 (datum f)), blank_address) \<longrightarrow>
      (\<exists>lb1 b1 w. on_socket e2 (blank_locals, blank_peer) = Some (lb1, b1) \<and> gui b1 = gui blank_peer @ w \<and> length w = 2 \<and>
        (\<forall>h fd io2 inb2 len2. vhd h = Some fd \<longrightarrow> available io2 = Some (concat w) \<longrightarrow> len2 \<le> 65537 \<longrightarrow>
          (\<exists>h1. callback_chat io2 (reason_code (RawFile LWS_CALLBACK_RAW_RX_FILE)) inb2 len2 h = Some (0, h1) \<and>
            ws_out h1 = ws_out h @ [(0 # [72, 105], write_code LWS_WRITE_TEXT)])))"
    using browser_to_browser [OF l one_neighbor_ok typed_hi_ok t(1) blank_peer_ok blank_ok(3) b sa, of "giving []" quiet_gui]
    unfolding t(2) by blast
  have "received (arrives (packet (encode_tlv 4 (datum f))) blank_address) =
      Some (packet (encode_tlv 4 (datum f)), blank_address)" by (simp add: arrives_def)
  then obtain lb1 b1 w where 3: "on_socket (arrives (packet (encode_tlv 4 (datum f))) blank_address) (blank_locals, blank_peer) = Some (lb1, b1)"
    "gui b1 = w"
    and 4: "\<forall>h fd io2 inb2 len2. vhd h = Some fd \<longrightarrow> available io2 = Some (concat w) \<longrightarrow> len2 \<le> 65537 \<longrightarrow>
          (\<exists>h1. callback_chat io2 (reason_code (RawFile LWS_CALLBACK_RAW_RX_FILE)) inb2 len2 h = Some (0, h1) \<and>
            ws_out h1 = ws_out h @ [(0 # [72, 105], write_code LWS_WRITE_TEXT)])"
    using 2 o(1) by fastforce
  obtain h1 where "callback_chat (giving (concat w)) (reason_code (RawFile LWS_CALLBACK_RAW_RX_FILE)) [] 0 quiet_gui = Some (0, h1)"
    "ws_out h1 = ws_out quiet_gui @ [(0 # [72, 105], write_code LWS_WRITE_TEXT)]"
    using 4 [rule_format, of quiet_gui 3 "giving (concat w)" 0 "[]"] o(5) by (auto simp: giving_def)
  then show ?thesis using 1 3 o t(1) by auto
qed

end
