(* ===== verification/Big_Data.thy ===== *)
theory Big_Data
  imports Display
begin

text \<open>
  Functions of the program that nothing calls any more: sending and receiving data longer
  than one TLV (\<open>tlv.c\<close>, with \<open>struct big_data\<close>), and a few helpers of \<open>net_lib.c\<close>,
  \<open>list.c\<close> and \<open>abr.c\<close>.
\<close>

section \<open>Data in fragments\<close>

definition tlv_types :: "string list" where
  "tlv_types = [''pad1'', ''padN'', ''hello'', ''neighbour'', ''data'', ''ack'', ''goaway'', ''warning'']"

definition nb_tlv :: nat where "nb_tlv = length tlv_types"

text \<open>
  The 240 bytes of a fragment: the nonce of the whole, its type and length, the position,
  and 231 bytes of \<open>buf\<close>.
\<close>

definition fragment :: "u8 list \<Rightarrow> u8 \<Rightarrow> nat \<Rightarrow> nat \<Rightarrow> u8 list \<Rightarrow> nat \<Rightarrow> u8 list option" where
  "fragment t ty tot pos buf i =
     do { src \<leftarrow> peek buf (i + 1) 231;
          Some (t @ [ty] @ le_bytes 2 (htons (of_nat tot)) @ le_bytes 2 (htons (of_nat pos)) @ src) }"

text \<open>
  \<open>tlv_data\<close> into the local array, \<open>print_tlv\<close>, and \<open>add_message_to_flood\<close>.
\<close>

definition flood_data_tlv :: "u8 list \<Rightarrow> u8 \<Rightarrow> u8 list \<Rightarrow> u8 \<Rightarrow> 'z peer_scheme \<Rightarrow> (int \<times> u8 list \<times> 'z peer_scheme) option" where
  "flood_data_tlv msg_to_send ty bs n s =
     do { (r, m, s1) \<leftarrow> tlv_data msg_to_send 0 (2 ^ 8 - 1) (ID s) ty bs n s;
          _ \<leftarrow> print_tlv m 0;
          len \<leftarrow> peek1 m 1;
          s2 \<leftarrow> add_message_to_flood (drop 2 m) len None s1;
          Some (r, m, s2) }"

text \<open>The loop over the full fragments; \<open>i\<close> advances by what \<open>tlv_data\<close> wrote, less 24.\<close>

partial_function (option) big_loop :: "u8 list \<Rightarrow> u8 \<Rightarrow> int \<Rightarrow> u8 list \<Rightarrow> int \<Rightarrow> u8 list \<Rightarrow> 'z peer_scheme
    \<Rightarrow> (int \<times> u8 list \<times> 'z peer_scheme) option" where
  "big_loop t ty tmp buf i m s =
     (if i + 231 < tmp
      then if i < 0 then None
      else do { b \<leftarrow> fragment t ty (nat tmp) (nat i) buf (nat i);
                (n, m1, s1) \<leftarrow> flood_data_tlv m 220 b 240 s;
                big_loop t ty tmp buf (i + (n - 24)) m1 s1 }
      else Some (i, m, s))"

definition at :: "u8 list \<Rightarrow> int \<Rightarrow> u8 option" where
  "at buf i = (if i < 0 then None else peek1 buf (nat i))"

text \<open>\<open>printf("%s")\<close> needs a zero byte in what it prints.\<close>

definition printable :: "u8 list \<Rightarrow> nat \<Rightarrow> unit option" where
  "printable buf off = (if 0 \<in> set (drop off buf) then Some () else None)"

definition write_big_data :: "u8 list \<Rightarrow> int \<Rightarrow> 'z peer_scheme \<Rightarrow> (int \<times> 'z peer_scheme) option" where
  "write_big_data buf tmp0 s =
     do { c \<leftarrow> at buf tmp0;
          let tmp1 = (if c = 0 then tmp0 - 1 else tmp0) in
          do { c \<leftarrow> at buf tmp1;
               let tmp = (if c = 10 then tmp1 - 1 else tmp1); ty = (0 :: u8); m = replicate (2 ^ 8 - 1) 0 in
               do { s3 \<leftarrow>
                      (if tmp < 240 then
                         do { _ \<leftarrow> printable buf 1;
                              (_, _, s1) \<leftarrow> flood_data_tlv m ty (drop 1 buf) (word_of_int (tmp - 1)) s;
                              Some s1 }
                       else
                         let (t, s1) = random_on_octets 4 s in
                         do { (i, m1, s2) \<leftarrow> big_loop t ty tmp buf 0 m s1;
                              let j = tmp - i in
                              do { b \<leftarrow> fragment t ty (nat tmp) (nat j) buf (nat i);
                                   _ \<leftarrow> printable buf (nat i + 1);
                                   (_, _, s3) \<leftarrow> flood_data_tlv m1 220 b (word_of_int (tmp - 1 - i)) s2;
                                   Some s3 } });
                    s4 \<leftarrow> print_on_screen buf 0 (size_of_int tmp) s3;
                    Some (1, s4) } } }"

section \<open>Receiving fragments\<close>

record submessages =
  actual_length :: int
  length_received :: int
  sub_text :: "u8 list"

record big_data =
  global_nonce :: u32
  total_length :: u16
  received_length :: u16
  start_time :: int
  big_type :: int
  message :: ptr

text \<open>The list \<open>BIGDATA\<close>, the objects it points to, and the blocks their messages are stored in.\<close>

record big_peer = peer +
  BIGDATA :: "ptr clist"
  bigs :: "addr \<Rightarrow> big_data option"
  blocks :: "addr \<Rightarrow> u8 list option"

text \<open>The difference of two \<open>u_int32_t\<close>, returned as a \<open>short\<close>.\<close>

definition compare_b :: "u32 \<Rightarrow> u32 \<Rightarrow> int" where
  "compare_b b1 b2 = to_short (uint (b1 - b2))"

definition compare_big :: "big_peer \<Rightarrow> ptr \<Rightarrow> u32 \<Rightarrow> int option" where
  "compare_big s p non = do { a \<leftarrow> p; b \<leftarrow> bigs s a; Some (compare_b (global_nonce b) non) }"

text \<open>\<open>memcpy\<close> to an address; the integer 0 given as an address is the null pointer.\<close>

definition as_pointer :: "nat \<Rightarrow> ptr" where
  "as_pointer n = (if n = 0 then None else Some n)"

definition memcpy_to :: "ptr \<Rightarrow> nat \<Rightarrow> u8 list \<Rightarrow> big_peer \<Rightarrow> big_peer option" where
  "memcpy_to p off bs s =
     do { a \<leftarrow> p; b \<leftarrow> blocks s a; b1 \<leftarrow> poke off bs b; Some (s\<lparr>blocks := (blocks s)(a \<mapsto> b1)\<rparr>) }"

text \<open>Taking a message out of the list and freeing it.\<close>

definition drop_big :: "addr \<Rightarrow> u32 \<Rightarrow> big_peer \<Rightarrow> big_peer option" where
  "drop_big a non s =
     do { (tmp, l) \<leftarrow> remove_elem (compare_big s) (BIGDATA s) non;
          let s1 = s\<lparr>BIGDATA := l\<rparr> in
          case tmp of
            None \<Rightarrow> Some s1
          | Some p \<Rightarrow>
              do { a1 \<leftarrow> p;
                   b \<leftarrow> bigs s1 a1;
                   let s2 = (case message b of None \<Rightarrow> s1 | Some c \<Rightarrow> s1\<lparr>blocks := (blocks s1)(c := None)\<rparr>) in
                   do { _ \<leftarrow> bigs s2 a; Some (s2\<lparr>bigs := (bigs s2)(a := None)\<rparr>) } } }"

text \<open>
  \<open>bigdata\<close> passes the values of \<open>nonce\<close> (which is 0) and of the uninitialised
  \<open>bg->total_length\<close> to \<open>memcpy\<close> where their addresses were meant.
\<close>

definition bigdata :: "u8 list \<Rightarrow> u8 \<Rightarrow> big_peer \<Rightarrow> (int \<times> big_peer) option" where
  "bigdata tlv len s =
     do { nonb \<leftarrow> peek tlv 13 4;
          let non = (0 :: u32) in
          do { s \<leftarrow> memcpy_to (as_pointer (unat non)) 0 nonb s;
               bg \<leftarrow> GenList.get (compare_big s) (BIGDATA s) non;
               ty \<leftarrow> peek1 tlv 17;
               if bg = None \<and> signed_char ty \<noteq> 220 then
                 (let (p, s1) = malloc s in
                  case p of
                    None \<Rightarrow> Some (0, s1)
                  | Some a \<Rightarrow>
                      do { tl \<leftarrow> peek tlv 18 2;
                           let garbage = (le_word [junk s1 0, junk s1 1] :: u16) in
                           do { s2 \<leftarrow> memcpy_to (as_pointer (unat garbage)) 0 tl s1;
                                let (now, s3) = get_seconds s2;
                                    (q, s4) = malloc s3;
                                    b = \<lparr>global_nonce = non, total_length = garbage,
                                         received_length = word_of_int (int (unat len) - 22),
                                         start_time = now, big_type = signed_char ty, message = q\<rparr>;
                                    s5 = s4\<lparr>bigs := (bigs s4)(a \<mapsto> b),
                                            blocks := (case q of None \<Rightarrow> blocks s4
                                              | Some c \<Rightarrow> (blocks s4)(c \<mapsto> map (junk s4) [0..<unat garbage]))\<rparr>
                                in do { src \<leftarrow> peek tlv 22 (unat (size_of_int (int (unat len) - 22)));
                                        s6 \<leftarrow> memcpy_to q 0 src s5;
                                        (r, l, s7) \<leftarrow> add_elem (\<lambda>x y. do { b \<leftarrow> y; e \<leftarrow> bigs s6 b; compare_big s6 x (global_nonce e) })
                                                       (BIGDATA s6) (Some a) s6;
                                        Some (r, s7\<lparr>BIGDATA := l\<rparr>) } } })
               else
                 do { p \<leftarrow> bg;
                      a \<leftarrow> p;
                      b \<leftarrow> bigs s a;
                      let (now, s1) = get_seconds s; n = int (unat len) - 22 in
                      if now - start_time b \<ge> 180 \<or> signed_char ty \<noteq> big_type b \<or>
                         int (unat (received_length b)) + n > int (unat (total_length b))
                      then do { s2 \<leftarrow> drop_big a (global_nonce b) s1; Some (0, s2) }
                      else
                        do { src \<leftarrow> peek tlv 22 (unat (size_of_int n));
                             s2 \<leftarrow> memcpy_to (message b) (unat (received_length b)) src s1;
                             let b1 = b\<lparr>received_length := received_length b + word_of_int n\<rparr>;
                                 s3 = s2\<lparr>bigs := (bigs s2)(a \<mapsto> b1)\<rparr> in
                             if received_length b1 = total_length b1
                             then do { c \<leftarrow> message b1;
                                       whole \<leftarrow> blocks s3 c;
                                       s4 \<leftarrow> print_on_screen whole 0 (ucast (total_length b1)) s3;
                                       s5 \<leftarrow> drop_big a (global_nonce b1) s4;
                                       Some (1, s5) }
                             else Some (1, s3) } } } }"

section \<open>Helpers\<close>

text \<open>
  \<open>add_neighbor_to_flood\<close> searches \<open>DATAF\<close> for a \<open>data_index\<close> where \<open>compare_flood\<close> expects a
  \<open>flood_entry\<close>: the identifier is used as a pointer, as soon as there is anything to compare.
\<close>

definition add_neighbor_to_flood :: "data_index \<Rightarrow> nptr \<Rightarrow> 'z peer_scheme \<Rightarrow> (int \<times> 'z peer_scheme) option" where
  "add_neighbor_to_flood ix p s =
     do { found \<leftarrow> GenList.get (\<lambda>_ _. None) (DATAF s) ix;
          case found of
            Some (Some a) \<Rightarrow>
              do { f \<leftarrow> floods s a;
                   (e, s1) \<leftarrow> init_ngb_entry p 0 s;
                   x \<leftarrow> e;
                   let (r, l, s2) = addLast (sym_neighbors f) x s1 in
                   Some (r, s2\<lparr>floods := (floods s2)(a \<mapsto> f\<lparr>sym_neighbors := l\<rparr>)\<rparr>) }
          | _ \<Rightarrow> Some (0, s) }"

text \<open>\<open>clean\<close> frees the nodes of a tree; the keys freed, in order.  A null tree is dereferenced.\<close>

fun clean :: "tree \<Rightarrow> addr list option" where
  "clean Null = None"
| "clean (Tree a k v l r) =
     do { f1 \<leftarrow> (if l = Null then Some [] else clean l);
          f2 \<leftarrow> (if r = Null then Some [] else clean r);
          Some (f1 @ f2 @ [a]) }"

definition init_socket_client_udp_v2 :: "int \<Rightarrow> int \<Rightarrow> int option" where
  "init_socket_client_udp_v2 soc rc = (if rc < 0 then None else Some soc)"

text \<open>
  \<open>read_socket\<close>: \<open>sel k\<close> is what the \<open>k\<close>-th \<open>select\<close> returns, \<open>rd k\<close> the bytes of the \<open>k\<close>-th
  \<open>read\<close>, or \<open>None\<close> for its result \<open>-1\<close>, which is added to the \<open>unsigned int\<close> count like any other.
\<close>

partial_function (option) read_socket :: "(nat \<Rightarrow> int) \<Rightarrow> (nat \<Rightarrow> u8 list option) \<Rightarrow> nat \<Rightarrow> u32 \<Rightarrow> size_t
    \<Rightarrow> u8 list \<Rightarrow> (int \<times> u8 list) option" where
  "read_socket sel rd k count size_buf buf =
     (if (ucast count :: size_t) < size_buf
      then if sel k = 0 then Some (0, buf)
           else (case rd k of
                   None \<Rightarrow> read_socket sel rd (k + 1) (count - 1) size_buf buf
                 | Some bs \<Rightarrow>
                     let d = take (unat (size_buf - ucast count)) bs in
                     do { b \<leftarrow> poke (unat count) d buf;
                          read_socket sel rd (k + 1) (count + of_nat (length d)) size_buf b })
      else Some (1, buf))"

section \<open>Properties\<close>

lemma sint_zero_iff: "sint (w :: u16) = 0 \<longleftrightarrow> w = 0"
  by (metis signed_0 signed_word_eqI)

text \<open>
  \<open>compare_b\<close>, which orders the messages in reassembly by nonce, returns the difference of
  the nonces as a \<open>short\<close>: it takes two of them for equal exactly when their lower 16 bits agree.
\<close>

lemma compare_b_collisions:
  "compare_b b1 b2 = 0 \<longleftrightarrow> uint b1 mod 65536 = uint b2 mod 65536"
proof -
  have "compare_b b1 b2 = 0 \<longleftrightarrow> (word_of_int (uint (b1 - b2)) :: u16) = 0"
    unfolding compare_b_def to_short_def by (rule sint_zero_iff)
  also have "\<dots> \<longleftrightarrow> (65536 :: int) dvd uint (b1 - b2)"
    by (simp only: word_of_int_eq_0_iff) simp
  also have "\<dots> \<longleftrightarrow> (65536 :: int) dvd uint b1 - uint b2"
    by (simp add: uint_word_ariths dvd_mod_iff)
  also have "\<dots> \<longleftrightarrow> uint b1 mod 65536 = uint b2 mod 65536"
    by (simp add: mod_eq_dvd_iff)
  finally show ?thesis .
qed

text \<open>
  \<open>read_socket\<close> reports success when its first \<open>read\<close> fails: the result \<open>-1\<close> is added to the
  unsigned count, which passes any size below \<open>2\<^sup>3\<^sup>2-1\<close>.
\<close>

lemma read_socket_hides_error:
  assumes "0 < size_buf" "size_buf < 2 ^ 32 - 1" "sel 0 \<noteq> 0" "rd 0 = None"
  shows "read_socket sel rd 0 0 size_buf buf = Some (1, buf)"
proof -
  have "(ucast (- 1 :: u32) :: size_t) = 2 ^ 32 - 1"
    by code_simp
  then have "\<not> (ucast (0 - 1 :: u32) :: size_t) < size_buf" using assms(2) by simp
  then have "read_socket sel rd (0 + 1) (0 - 1) size_buf buf = Some (1, buf)"
    by (subst read_socket.simps) simp
  then show ?thesis
    using assms(1,3,4) by (subst read_socket.simps) simp
qed

lemma read_socket_hides_error_example:
  "read_socket (\<lambda>_. 1) (\<lambda>_. None) 0 0 8 (replicate 8 0) = Some (1, replicate 8 0)"
  using read_socket_hides_error [of 8 "\<lambda>_. 1" "\<lambda>_. None"] by simp

end
