(* ===== verification/Compiler_Id.thy ===== *)
theory Compiler_Id
  imports Display
begin

text \<open>
  The probe with which the recorded \<open>cmake\<close> build of libwebsockets asks the compiler who it is
  (\<open>CMakeCCompilerId.c\<close>).  The file is a preprocessor program: its input is the macros the
  compiler predefines, its output the \<open>INFO:\<close> strings that \<open>cmake\<close> looks for in the object
  file.  An environment gives the value of the macros that are defined; a macro's value is
  a nonnegative integer literal in decimal.  An undefined name is zero in a \<open>#if\<close> and an undeclared
  identifier, so no compilation, in a version number.
\<close>

type_synonym env = "string \<Rightarrow> nat option"

definition defd :: "env \<Rightarrow> string \<Rightarrow> bool" where
  "defd e x = (e x \<noteq> None)"

definition val :: "env \<Rightarrow> string \<Rightarrow> nat" where
  "val e x = (case e x of None \<Rightarrow> 0 | Some n \<Rightarrow> n)"

section \<open>Digits\<close>

definition DEC :: "nat \<Rightarrow> string" where
  "DEC n = map (\<lambda>d. char_of (48 + (n div d) mod 10))
     [10000000, 1000000, 100000, 10000, 1000, 100, 10, 1]"

definition HEX :: "nat \<Rightarrow> string" where
  "HEX n = map (\<lambda>k. char_of (48 + (n div 2 ^ k) mod 16)) [28, 24, 20, 16, 12, 8, 4, 0]"

text \<open>A version component: its digits, or \<open>None\<close> when it uses an undefined name.\<close>

type_synonym component = "string option"

abbreviation dec_of :: "env \<Rightarrow> string \<Rightarrow> (nat \<Rightarrow> nat) \<Rightarrow> component option" where
  "dec_of e x f \<equiv> Some (map_option (\<lambda>n. DEC (f n)) (e x))"

abbreviation hex_of :: "env \<Rightarrow> string \<Rightarrow> (nat \<Rightarrow> nat) \<Rightarrow> component option" where
  "hex_of e x f \<equiv> Some (map_option (\<lambda>n. HEX (f n)) (e x))"

text \<open>The macros the first part of the file defines; \<open>None\<close> for one that stays undefined.\<close>

record id_macros =
  COMPILER_ID :: string
  SIMULATE_ID :: "string option"
  VERSION_MAJOR :: "component option"
  VERSION_MINOR :: "component option"
  VERSION_PATCH :: "component option"
  VERSION_TWEAK :: "component option"
  SIMULATE_MAJOR :: "component option"
  SIMULATE_MINOR :: "component option"

definition compiler :: "string \<Rightarrow> id_macros" where
  "compiler s = \<lparr> COMPILER_ID = s, SIMULATE_ID = None, VERSION_MAJOR = None, VERSION_MINOR = None,
     VERSION_PATCH = None, VERSION_TWEAK = None, SIMULATE_MAJOR = None, SIMULATE_MINOR = None \<rparr>"

text \<open>A version in three parts; a part may be absent.\<close>

definition versioned ::
  "string \<Rightarrow> component option \<Rightarrow> component option \<Rightarrow> component option \<Rightarrow> id_macros" where
  "versioned s a b c =
     (compiler s)\<lparr> VERSION_MAJOR := a, VERSION_MINOR := b, VERSION_PATCH := c \<rparr>"

text \<open>What Intel's compiler and clang add when they stand in for Microsoft's.\<close>

definition simulating :: "env \<Rightarrow> id_macros \<Rightarrow> id_macros" where
  "simulating e m =
     (if defd e ''_MSC_VER''
      then m\<lparr> SIMULATE_ID := Some ''MSVC'', SIMULATE_MAJOR := dec_of e ''_MSC_VER'' (\<lambda>n. n div 100),
              SIMULATE_MINOR := dec_of e ''_MSC_VER'' (\<lambda>n. n mod 100) \<rparr>
      else m)"

section \<open>The compiler\<close>

definition first_compilers :: "env \<Rightarrow> id_macros option" where
  "first_compilers e = (
     if defd e ''__INTEL_COMPILER'' \<or> defd e ''__ICC'' then Some (simulating e ((versioned ''Intel''
       (dec_of e ''__INTEL_COMPILER'' (\<lambda>n. n div 100))
       (dec_of e ''__INTEL_COMPILER'' (\<lambda>n. n div 10 mod 10))
       (if defd e ''__INTEL_COMPILER_UPDATE'' then dec_of e ''__INTEL_COMPILER_UPDATE'' (\<lambda>n. n)
        else dec_of e ''__INTEL_COMPILER'' (\<lambda>n. n mod 10)))
       \<lparr> VERSION_TWEAK := (if defd e ''__INTEL_COMPILER_BUILD_DATE'' then dec_of e ''__INTEL_COMPILER_BUILD_DATE'' (\<lambda>n. n) else None) \<rparr>)) else
     if defd e ''__PATHCC__'' then Some (versioned ''PathScale''
       (dec_of e ''__PATHCC__'' (\<lambda>n. n))
       (dec_of e ''__PATHCC_MINOR__'' (\<lambda>n. n))
       (if defd e ''__PATHCC_PATCHLEVEL__'' then dec_of e ''__PATHCC_PATCHLEVEL__'' (\<lambda>n. n) else None)) else
     if defd e ''__BORLANDC__'' \<and> defd e ''__CODEGEARC_VERSION__'' then Some (versioned ''Embarcadero''
       (hex_of e ''__CODEGEARC_VERSION__'' (\<lambda>n. n div 2 ^ 24 mod 256))
       (hex_of e ''__CODEGEARC_VERSION__'' (\<lambda>n. n div 2 ^ 16 mod 256))
       (dec_of e ''__CODEGEARC_VERSION__'' (\<lambda>n. n mod 65536))) else
     if defd e ''__BORLANDC__'' then Some (versioned ''Borland''
       (hex_of e ''__BORLANDC__'' (\<lambda>n. n div 2 ^ 8))
       (hex_of e ''__BORLANDC__'' (\<lambda>n. n mod 256))
       None) else
     if defd e ''__WATCOMC__'' \<and> val e ''__WATCOMC__'' < 1200 then Some (versioned ''Watcom''
       (dec_of e ''__WATCOMC__'' (\<lambda>n. n div 100))
       (dec_of e ''__WATCOMC__'' (\<lambda>n. n div 10 mod 10))
       (if val e ''__WATCOMC__'' mod 10 > 0 then dec_of e ''__WATCOMC__'' (\<lambda>n. n mod 10) else None)) else
     if defd e ''__WATCOMC__'' then Some (versioned ''OpenWatcom''
       (dec_of e ''__WATCOMC__'' (\<lambda>n. (n - 1100) div 100))
       (dec_of e ''__WATCOMC__'' (\<lambda>n. n div 10 mod 10))
       (if val e ''__WATCOMC__'' mod 10 > 0 then dec_of e ''__WATCOMC__'' (\<lambda>n. n mod 10) else None)) else
     if defd e ''__SUNPRO_C'' then Some (if val e ''__SUNPRO_C'' \<ge> 0x5100
     then versioned ''SunPro''
       (hex_of e ''__SUNPRO_C'' (\<lambda>n. n div 2 ^ 12))
       (hex_of e ''__SUNPRO_C'' (\<lambda>n. n div 2 ^ 4 mod 256))
       (hex_of e ''__SUNPRO_C'' (\<lambda>n. n mod 16))
     else versioned ''SunPro''
       (hex_of e ''__SUNPRO_C'' (\<lambda>n. n div 2 ^ 8))
       (hex_of e ''__SUNPRO_C'' (\<lambda>n. n div 2 ^ 4 mod 16))
       (hex_of e ''__SUNPRO_C'' (\<lambda>n. n mod 16))) else
     if defd e ''__HP_cc'' then Some (versioned ''HP''
       (dec_of e ''__HP_cc'' (\<lambda>n. n div 10000))
       (dec_of e ''__HP_cc'' (\<lambda>n. n div 100 mod 100))
       (dec_of e ''__HP_cc'' (\<lambda>n. n mod 100))) else
     if defd e ''__DECC'' then Some (versioned ''Compaq''
       (dec_of e ''__DECC_VER'' (\<lambda>n. n div 10000000))
       (dec_of e ''__DECC_VER'' (\<lambda>n. n div 100000 mod 100))
       (dec_of e ''__DECC_VER'' (\<lambda>n. n mod 10000))) else
     if defd e ''__IBMC__'' \<and> defd e ''__COMPILER_VER__'' then Some (versioned ''zOS''
       (dec_of e ''__IBMC__'' (\<lambda>n. n div 100))
       (dec_of e ''__IBMC__'' (\<lambda>n. n div 10 mod 10))
       (dec_of e ''__IBMC__'' (\<lambda>n. n mod 10))) else
     if defd e ''__IBMC__'' \<and> \<not> defd e ''__COMPILER_VER__'' \<and> val e ''__IBMC__'' \<ge> 800 then Some (versioned ''XL''
       (dec_of e ''__IBMC__'' (\<lambda>n. n div 100))
       (dec_of e ''__IBMC__'' (\<lambda>n. n div 10 mod 10))
       (dec_of e ''__IBMC__'' (\<lambda>n. n mod 10))) else
     if defd e ''__IBMC__'' \<and> \<not> defd e ''__COMPILER_VER__'' \<and> val e ''__IBMC__'' < 800 then Some (versioned ''VisualAge''
       (dec_of e ''__IBMC__'' (\<lambda>n. n div 100))
       (dec_of e ''__IBMC__'' (\<lambda>n. n div 10 mod 10))
       (dec_of e ''__IBMC__'' (\<lambda>n. n mod 10))) else
     if defd e ''__PGI'' then Some (versioned ''PGI''
       (dec_of e ''__PGIC__'' (\<lambda>n. n))
       (dec_of e ''__PGIC_MINOR__'' (\<lambda>n. n))
       (if defd e ''__PGIC_PATCHLEVEL__'' then dec_of e ''__PGIC_PATCHLEVEL__'' (\<lambda>n. n) else None)) else
     if defd e ''_CRAYC'' then Some (versioned ''Cray''
       (dec_of e ''_RELEASE_MAJOR'' (\<lambda>n. n))
       (dec_of e ''_RELEASE_MINOR'' (\<lambda>n. n))
       None) else
     None)"

definition more_compilers :: "env \<Rightarrow> id_macros option" where
  "more_compilers e = (
     if defd e ''__TI_COMPILER_VERSION__'' then Some (versioned ''TI''
       (dec_of e ''__TI_COMPILER_VERSION__'' (\<lambda>n. n div 1000000))
       (dec_of e ''__TI_COMPILER_VERSION__'' (\<lambda>n. n div 1000 mod 1000))
       (dec_of e ''__TI_COMPILER_VERSION__'' (\<lambda>n. n mod 1000))) else
     if defd e ''__FUJITSU'' \<or> defd e ''__FCC_VERSION'' \<or> defd e ''__fcc_version'' then Some (compiler ''Fujitsu'') else
     if defd e ''__TINYC__'' then Some (compiler ''TinyCC'') else
     if defd e ''__SCO_VERSION__'' then Some (compiler ''SCO'') else
     if defd e ''__clang__'' \<and> defd e ''__apple_build_version__'' then Some (simulating e ((versioned ''AppleClang''
       (dec_of e ''__clang_major__'' (\<lambda>n. n))
       (dec_of e ''__clang_minor__'' (\<lambda>n. n))
       (dec_of e ''__clang_patchlevel__'' (\<lambda>n. n)))
       \<lparr> VERSION_TWEAK := dec_of e ''__apple_build_version__'' (\<lambda>n. n) \<rparr>)) else
     if defd e ''__clang__'' then Some (simulating e (versioned ''Clang''
       (dec_of e ''__clang_major__'' (\<lambda>n. n))
       (dec_of e ''__clang_minor__'' (\<lambda>n. n))
       (dec_of e ''__clang_patchlevel__'' (\<lambda>n. n)))) else
     if defd e ''__GNUC__'' then Some (versioned ''GNU''
       (dec_of e ''__GNUC__'' (\<lambda>n. n))
       (if defd e ''__GNUC_MINOR__'' then dec_of e ''__GNUC_MINOR__'' (\<lambda>n. n) else None)
       (if defd e ''__GNUC_PATCHLEVEL__'' then dec_of e ''__GNUC_PATCHLEVEL__'' (\<lambda>n. n) else None)) else
     if defd e ''_MSC_VER'' then Some ((versioned ''MSVC''
       (dec_of e ''_MSC_VER'' (\<lambda>n. n div 100))
       (dec_of e ''_MSC_VER'' (\<lambda>n. n mod 100))
       (if defd e ''_MSC_FULL_VER''
        then if val e ''_MSC_VER'' \<ge> 1400 then dec_of e ''_MSC_FULL_VER'' (\<lambda>n. n mod 100000)
             else dec_of e ''_MSC_FULL_VER'' (\<lambda>n. n mod 10000) else None))
       \<lparr> VERSION_TWEAK := (if defd e ''_MSC_BUILD'' then dec_of e ''_MSC_BUILD'' (\<lambda>n. n) else None) \<rparr>) else
     None)"

definition last_compilers :: "env \<Rightarrow> id_macros option" where
  "last_compilers e = (
     if defd e ''__VISUALDSPVERSION__'' \<or> defd e ''__ADSPBLACKFIN__'' \<or> defd e ''__ADSPTS__'' \<or> defd e ''__ADSP21000__'' then Some (if defd e ''__VISUALDSPVERSION__''
     then versioned ''ADSP''
       (hex_of e ''__VISUALDSPVERSION__'' (\<lambda>n. n div 2 ^ 24))
       (hex_of e ''__VISUALDSPVERSION__'' (\<lambda>n. n div 2 ^ 16 mod 256))
       (hex_of e ''__VISUALDSPVERSION__'' (\<lambda>n. n div 2 ^ 8 mod 256))
     else compiler ''ADSP'') else
     if defd e ''__IAR_SYSTEMS_ICC__'' \<or> defd e ''__IAR_SYSTEMS_ICC'' then Some (compiler ''IAR'') else
     if defd e ''__ARMCC_VERSION'' then Some (if val e ''__ARMCC_VERSION'' \<ge> 1000000
     then versioned ''ARMCC''
       (dec_of e ''__ARMCC_VERSION'' (\<lambda>n. n div 1000000))
       (dec_of e ''__ARMCC_VERSION'' (\<lambda>n. n div 10000 mod 100))
       (dec_of e ''__ARMCC_VERSION'' (\<lambda>n. n mod 10000))
     else versioned ''ARMCC''
       (dec_of e ''__ARMCC_VERSION'' (\<lambda>n. n div 100000))
       (dec_of e ''__ARMCC_VERSION'' (\<lambda>n. n div 10000 mod 10))
       (dec_of e ''__ARMCC_VERSION'' (\<lambda>n. n mod 10000))) else
     if defd e ''SDCC'' then Some (versioned ''SDCC''
       (dec_of e ''SDCC'' (\<lambda>n. n div 100))
       (dec_of e ''SDCC'' (\<lambda>n. n div 10 mod 10))
       (dec_of e ''SDCC'' (\<lambda>n. n mod 10))) else
     if defd e ''_SGI_COMPILER_VERSION'' \<or> defd e ''_COMPILER_VERSION'' then Some (if defd e ''_SGI_COMPILER_VERSION''
     then versioned ''MIPSpro''
       (dec_of e ''_SGI_COMPILER_VERSION'' (\<lambda>n. n div 100))
       (dec_of e ''_SGI_COMPILER_VERSION'' (\<lambda>n. n div 10 mod 10))
       (dec_of e ''_SGI_COMPILER_VERSION'' (\<lambda>n. n mod 10))
     else versioned ''MIPSpro''
       (dec_of e ''_COMPILER_VERSION'' (\<lambda>n. n div 100))
       (dec_of e ''_COMPILER_VERSION'' (\<lambda>n. n div 10 mod 10))
       (dec_of e ''_COMPILER_VERSION'' (\<lambda>n. n mod 10))) else
     if defd e ''__sgi'' then Some (compiler ''MIPSpro'') else
     if defd e ''__hpux'' \<or> defd e ''__hpua'' then Some (compiler ''HP'') else
     None)"

definition identify :: "env \<Rightarrow> id_macros" where
  "identify e =
     (case first_compilers e of Some m \<Rightarrow> m | None \<Rightarrow>
      case more_compilers e of Some m \<Rightarrow> m | None \<Rightarrow>
      case last_compilers e of Some m \<Rightarrow> m | None \<Rightarrow> compiler '''')"

section \<open>The platform and the architecture\<close>

text \<open>The names that give a platform away, in the order they are tried.\<close>

definition platforms :: "(string \<times> string list) list" where
  "platforms =
    [(''Linux'', [''__linux'', ''__linux__'', ''linux'']),
     (''Cygwin'', [''__CYGWIN__'']),
     (''MinGW'', [''__MINGW32__'']),
     (''Darwin'', [''__APPLE__'']),
     (''Windows'', [''_WIN32'', ''__WIN32__'', ''WIN32'']),
     (''FreeBSD'', [''__FreeBSD__'', ''__FreeBSD'']),
     (''NetBSD'', [''__NetBSD__'', ''__NetBSD'']),
     (''OpenBSD'', [''__OpenBSD__'', ''__OPENBSD'']),
     (''SunOS'', [''__sun'', ''sun'']),
     (''AIX'', [''_AIX'', ''__AIX'', ''__AIX__'', ''__aix'', ''__aix__'']),
     (''IRIX'', [''__sgi'', ''__sgi__'', ''_SGI'']),
     (''HP-UX'', [''__hpux'', ''__hpux__'']),
     (''Haiku'', [''__HAIKU__'']),
     (''BeOS'', [''__BeOS'', ''__BEOS__'', ''_BEOS'']),
     (''QNX'', [''__QNX__'', ''__QNXNTO__'']),
     (''Tru64'', [''__tru64'', ''_tru64'', ''__TRU64__'']),
     (''RISCos'', [''__riscos'', ''__riscos__'']),
     (''SINIX'', [''__sinix'', ''__sinix__'', ''__SINIX__'']),
     (''UNIX_SV'', [''__UNIX_SV__'']),
     (''BSDOS'', [''__bsdos__'']),
     (''MP-RAS'', [''_MPRAS'', ''MPRAS'']),
     (''OSF1'', [''__osf'', ''__osf__'']),
     (''SCO_SV'', [''_SCO_SV'', ''SCO_SV'', ''sco_sv'']),
     (''ULTRIX'', [''__ultrix'', ''__ultrix__'', ''_ULTRIX'']),
     (''Xenix'', [''__XENIX__'', ''_XENIX'', ''XENIX''])]"

definition watcom_platform :: "env \<Rightarrow> string" where
  "watcom_platform e =
     (if defd e ''__LINUX__'' then ''Linux'' else
      if defd e ''__DOS__'' then ''DOS'' else
      if defd e ''__OS2__'' then ''OS2'' else
      if defd e ''__WINDOWS__'' then ''Windows3x'' else '''')"

definition platform_id :: "env \<Rightarrow> string" where
  "platform_id e =
     (case List.find (\<lambda>(_, names). list_ex (defd e) names) platforms of
        Some (p, _) \<Rightarrow> p
      | None \<Rightarrow> if defd e ''__WATCOMC__'' then watcom_platform e else '''')"

definition windows_arch :: "env \<Rightarrow> string" where
  "windows_arch e =
     (if defd e ''_M_IA64'' then ''IA64'' else
      if defd e ''_M_X64'' \<or> defd e ''_M_AMD64'' then ''x64'' else
      if defd e ''_M_IX86'' then ''X86'' else
      if defd e ''_M_ARM'' then
        if val e ''_M_ARM'' = 4 then ''ARMV4I'' else
        if val e ''_M_ARM'' = 5 then ''ARMV5I'' else ''ARMV'' @ dec (val e ''_M_ARM'') else
      if defd e ''_M_MIPS'' then ''MIPS'' else
      if defd e ''_M_SH'' then ''SHx'' else '''')"

definition architecture_id :: "env \<Rightarrow> string" where
  "architecture_id e =
     (if defd e ''_WIN32'' \<and> defd e ''_MSC_VER'' then windows_arch e else
      if defd e ''__WATCOMC__'' then
        if defd e ''_M_I86'' then ''I86'' else if defd e ''_M_IX86'' then ''X86'' else ''''
      else '''')"

section \<open>The strings\<close>

text \<open>
  A version string: the parts up to the first that is not defined, joined by dots.  It is
  \<open>None\<close>, as are all values of type \<open>string option\<close> below, when the file does not compile.
\<close>

fun dotted :: "component option list \<Rightarrow> string option" where
  "dotted [] = Some ''''"
| "dotted (None # _) = Some ''''"
| "dotted (Some c # cs) = do { d \<leftarrow> c; ds \<leftarrow> dotted cs; Some (''.'' @ d @ ds) }"

definition bracketed :: "string \<Rightarrow> component option list \<Rightarrow> string option" where
  "bracketed what cs = do { v \<leftarrow> dotted cs; Some (''INFO:'' @ what @ ''['' @ tl v @ '']'') }"

definition info_version :: "id_macros \<Rightarrow> string option" where
  "info_version m = bracketed ''compiler_version''
     [VERSION_MAJOR m, VERSION_MINOR m, VERSION_PATCH m, VERSION_TWEAK m]"

text \<open>No branch defines a patch or tweak for the simulated compiler.\<close>

definition info_simulate_version :: "id_macros \<Rightarrow> string option" where
  "info_simulate_version m = bracketed ''simulate_version'' [SIMULATE_MAJOR m, SIMULATE_MINOR m]"

definition info_compiler :: "id_macros \<Rightarrow> string" where
  "info_compiler m = ''INFO:compiler['' @ COMPILER_ID m @ '']''"

definition info_simulate :: "string \<Rightarrow> string" where
  "info_simulate s = ''INFO:simulate['' @ s @ '']''"

definition info_platform :: "env \<Rightarrow> string" where
  "info_platform e = ''INFO:platform['' @ platform_id e @ '']''"

definition info_arch :: "env \<Rightarrow> string" where
  "info_arch e = ''INFO:arch['' @ architecture_id e @ '']''"

definition dialect :: "env \<Rightarrow> string" where
  "dialect e = ''INFO:dialect_default['' @
     (if \<not> defd e ''__STDC_VERSION__'' then ''90'' else
      if val e ''__STDC_VERSION__'' \<ge> 201000 then ''11'' else
      if val e ''__STDC_VERSION__'' \<ge> 199901 then ''99'' else '''') @ '']''"

definition info_cray :: "env \<Rightarrow> string list" where
  "info_cray e =
     (if defd e ''__CRAYXE'' \<or> defd e ''__CRAYXC'' then [''INFO:compiler_wrapper[CrayPrgEnv]''] else [])"

definition qnxnto :: "env \<Rightarrow> string list" where
  "qnxnto e = (if defd e ''__QNXNTO__'' then [''INFO:qnxnto[]''] else [])"

text \<open>The strings \<open>main\<close> refers to, in its order.\<close>

definition probe_strings :: "env \<Rightarrow> string list option" where
  "probe_strings e =
     (if defd e ''__cplusplus'' then None else
      let m = identify e in
      do { v \<leftarrow> info_version m;
           sv \<leftarrow> info_simulate_version m;
           Some ([info_compiler m, info_platform e, info_arch e] @
                 (if VERSION_MAJOR m = None then [] else [v]) @
                 (case SIMULATE_ID m of None \<Rightarrow> [] | Some s \<Rightarrow> [info_simulate s]) @
                 (if SIMULATE_MAJOR m = None then [] else [sv]) @
                 info_cray e @ [dialect e]) })"

text \<open>
  \<open>main\<close> adds up the byte number \<open>argc\<close> of every string, so that none is optimised away.  The
  terminating zero may be read, what lies after it not.
\<close>

datatype probe = Does_not_compile | No_value | Out_of_bounds | Returns nat

definition byte_at :: "string \<Rightarrow> nat \<Rightarrow> nat option" where
  "byte_at s i = (if i < length s then Some (of_char (s ! i)) else if i = length s then Some 0 else None)"

definition probe_main :: "env \<Rightarrow> nat \<Rightarrow> probe" where
  "probe_main e argc =
     (case probe_strings e of
        None \<Rightarrow> Does_not_compile
      | Some ss \<Rightarrow>
          if defd e ''__18CXX'' then No_value
          else case those (map (\<lambda>s. byte_at s argc) ss) of
                 None \<Rightarrow> Out_of_bounds
               | Some bs \<Rightarrow> Returns (sum_list bs))"

section \<open>Facts\<close>

text \<open>Every string starts with \<open>INFO:\<close>, so a run with at most five arguments reads inside all of them.\<close>

lemma bracketed_long: "bracketed w cs = Some s \<Longrightarrow> 5 \<le> length s"
  by (auto simp: bracketed_def split: Option.bind_splits)

lemma info_long:
  "5 \<le> length (info_compiler m)" "5 \<le> length (info_simulate t)" "5 \<le> length (info_platform e)"
  "5 \<le> length (info_arch e)" "5 \<le> length (dialect e)"
  by (simp_all add: info_compiler_def info_simulate_def info_platform_def info_arch_def dialect_def)

lemma info_cray_long: "s \<in> set (info_cray e) \<Longrightarrow> 5 \<le> length s"
  by (simp add: info_cray_def split: if_split_asm)

lemma probe_strings_long:
  assumes "probe_strings e = Some ss" and "s \<in> set ss"
  shows "5 \<le> length s"
proof -
  define m where "m = identify e"
  obtain v sv where v: "info_version m = Some v" and sv: "info_simulate_version m = Some sv"
    using assms(1) by (auto simp: probe_strings_def Let_def m_def split: if_splits Option.bind_splits)
  have l: "5 \<le> length v" "5 \<le> length sv"
    using v sv bracketed_long unfolding info_version_def info_simulate_version_def by blast+
  have "s = info_compiler m \<or> s = info_platform e \<or> s = info_arch e \<or> s = v \<or> s = sv
    \<or> (\<exists>t. s = info_simulate t) \<or> s \<in> set (info_cray e) \<or> s = dialect e"
    using assms v sv unfolding probe_strings_def Let_def m_def [symmetric]
    by (auto split: if_split_asm option.split_asm)
  then show ?thesis using l info_long info_cray_long by metis
qed

text \<open>A recorded build's compiler: the version's digits are padded with zeros.\<close>

lemma gcc: "identify [''__GNUC__'' \<mapsto> 5, ''__GNUC_MINOR__'' \<mapsto> 4, ''__GNUC_PATCHLEVEL__'' \<mapsto> 0,
     ''__linux__'' \<mapsto> 1, ''__STDC_VERSION__'' \<mapsto> 201112] =
  versioned ''GNU'' (Some (Some (DEC 5))) (Some (Some (DEC 4))) (Some (Some (DEC 0)))"
  by (simp add: identify_def first_compilers_def more_compilers_def defd_def)

lemma this_platform:
  "probe_strings [''__GNUC__'' \<mapsto> 5, ''__GNUC_MINOR__'' \<mapsto> 4, ''__GNUC_PATCHLEVEL__'' \<mapsto> 0,
     ''__linux__'' \<mapsto> 1, ''__STDC_VERSION__'' \<mapsto> 201112] =
   Some [''INFO:compiler[GNU]'', ''INFO:platform[Linux]'', ''INFO:arch[]'',
     ''INFO:compiler_version[00000005.00000004.00000000]'', ''INFO:dialect_default[11]'']"
  unfolding probe_strings_def gcc
  by (simp add: versioned_def compiler_def info_version_def info_simulate_version_def bracketed_def
     info_compiler_def info_platform_def platform_id_def platforms_def info_arch_def architecture_id_def
     info_cray_def dialect_def defd_def val_def DEC_def char_of_def bit_iff_odd)

lemma those_Some: "list_all (\<lambda>x. x \<noteq> None) xs \<Longrightarrow> those xs \<noteq> None"
  by (induction xs) auto

lemma probe_main_in_bounds:
  assumes "argc \<le> 5"
  shows "probe_main e argc \<noteq> Out_of_bounds"
proof (cases "probe_strings e")
  case (Some ss)
  have "byte_at s argc \<noteq> None" if "s \<in> set ss" for s
    using probe_strings_long [OF Some that] assms by (simp add: byte_at_def)
  then have "those (map (\<lambda>s. byte_at s argc) ss) \<noteq> None"
    by (intro those_Some) (simp add: list_all_iff)
  then show ?thesis
    using Some by (auto simp: probe_main_def)
qed (simp add: probe_main_def)

text \<open>
  Read back digit by digit, a component is the number it was made of: its last eight decimal
  digits, or its last thirty-two bits.  The hexadecimal digits from ten on are written with the
  characters that follow \<open>9\<close>, not with letters.
\<close>

definition undigits :: "nat \<Rightarrow> nat \<Rightarrow> string \<Rightarrow> nat" where
  "undigits b a s = foldl (\<lambda>a c. b * a + (of_char c - 48)) a s"

lemma undigits_digits:
  assumes "0 < b" "b \<le> 16"
  shows "undigits b a (map (\<lambda>k. char_of (48 + n div b ^ k mod b)) (rev [0..<k])) = a * b ^ k + n mod b ^ k"
proof (induction k arbitrary: a)
  case (Suc k)
  have d: "n div b ^ k mod b < 16" using assms mod_less_divisor [of b "n div b ^ k"] by linarith
  then have c: "of_char (char_of (48 + n div b ^ k mod b) :: char) - (48 :: nat) = n div b ^ k mod b"
    by simp
  have e: "n mod b ^ Suc k = b ^ k * (n div b ^ k mod b) + n mod b ^ k"
    by (simp add: mod_mult2_eq mult.commute [of b])
  have "undigits b a (map (\<lambda>k. char_of (48 + n div b ^ k mod b)) (rev [0..<Suc k])) =
    undigits b (b * a + n div b ^ k mod b) (map (\<lambda>k. char_of (48 + n div b ^ k mod b)) (rev [0..<k]))"
    using c by (simp add: undigits_def)
  also have "\<dots> = a * b ^ Suc k + n mod b ^ Suc k"
    unfolding Suc.IH e by (simp add: algebra_simps)
  finally show ?case .
qed (simp add: undigits_def)

lemma undigits_DEC: "undigits 10 0 (DEC n) = n mod 100000000"
  using undigits_digits [of 10 0 n 8] by (simp add: DEC_def upt_rec)

lemma undigits_HEX: "undigits 16 0 (HEX n) = n mod 4294967296"
  using undigits_digits [of 16 0 n 8] by (simp add: HEX_def upt_rec)

lemma HEX_not_hexadecimal: "HEX 10 = ''0000000:''"
  by (simp add: HEX_def char_of_def bit_iff_odd)

end
