(* ===== verification/Lws_Config.thy ===== *)
theory Lws_Config
  imports Prelude
begin

text \<open>
  What the recorded build of libwebsockets was configured with (\<open>lws_config.h\<close>,
  \<open>lws_config_private.h\<close>), what \<open>libwebsockets.h\<close> makes of it, that is, which headers a program
  that includes it sees and what it declares itself, and the numbering of the enumerations of
  \<open>lws-http.h\<close>.  A header is a sequence of directives acting on the macros defined so far and on
  the list of what was included and declared.
\<close>

section \<open>Directives\<close>

text \<open>The replacement of a macro; \<open>Params\<close> for one with parameters.\<close>

datatype macro = Empty | Num nat | Tokens string | Params string string

datatype item = Included string | Declared string

type_synonym macros = "string \<Rightarrow> macro option"

type_synonym directives = "(macros \<times> item list \<Rightarrow> macros \<times> item list) list"

definition is_def :: "macros \<Rightarrow> string \<Rightarrow> bool" where
  "is_def e x = (e x \<noteq> None)"

text \<open>A name that is not a number is zero in a condition.\<close>

definition num :: "macros \<Rightarrow> string \<Rightarrow> nat" where
  "num e x = (case e x of Some (Num n) \<Rightarrow> n | _ \<Rightarrow> 0)"

definition run :: "directives \<Rightarrow> macros \<times> item list \<Rightarrow> macros \<times> item list" where
  "run ds s = foldl (\<lambda>s d. d s) s ds"

definition inc :: "string \<Rightarrow> macros \<times> item list \<Rightarrow> macros \<times> item list" where
  "inc h = (\<lambda>(e, out). (e, out @ [Included h]))"

definition decl :: "string \<Rightarrow> macros \<times> item list \<Rightarrow> macros \<times> item list" where
  "decl d = (\<lambda>(e, out). (e, out @ [Declared d]))"

definition set_macro :: "string \<Rightarrow> macro \<Rightarrow> macros \<times> item list \<Rightarrow> macros \<times> item list" where
  "set_macro x v = (\<lambda>(e, out). (e(x \<mapsto> v), out))"

definition undef :: "string \<Rightarrow> macros \<times> item list \<Rightarrow> macros \<times> item list" where
  "undef x = (\<lambda>(e, out). (e(x := None), out))"

definition cond :: "(macros \<Rightarrow> bool) \<Rightarrow> directives \<Rightarrow> directives \<Rightarrow> macros \<times> item list \<Rightarrow> macros \<times> item list" where
  "cond c as bs = (\<lambda>s. if c (fst s) then run as s else run bs s)"

section \<open>The configuration\<close>

text \<open>All three files begin with the same lines.\<close>

definition debug :: "macros \<times> item list \<Rightarrow> macros \<times> item list" where
  "debug =
     cond (\<lambda>e. \<not> is_def e ''NDEBUG'')
       [cond (\<lambda>e. \<not> is_def e ''_DEBUG'')
          [set_macro ''_DEBUG'' Empty]
          []]
       []"

definition lws_config_macros :: "(string \<times> macro) list" where
  "lws_config_macros =
    [(''LWS_INSTALL_DATADIR'', Tokens ''\"/usr/local/share\"''),
     (''LWS_LIBRARY_VERSION_MAJOR'', Num 3),
     (''LWS_LIBRARY_VERSION_MINOR'', Num 1),
     (''LWS_LIBRARY_VERSION_PATCH'', Num 99),
     (''LWS_LIBRARY_VERSION_NUMBER'', Tokens ''(LWS_LIBRARY_VERSION_MAJOR * 1000000) + (LWS_LIBRARY_VERSION_MINOR * 1000) + LWS_LIBRARY_VERSION_PATCH''),
     (''LWS_MAX_SMP'', Num 1),
     (''LWS_BUILD_HASH'', Tokens ''\"v3.1.0-153-gf89aa40\"''),
     (''LWS_HAS_INTPTR_T'', Empty),
     (''LWS_HAS_GETOPT_LONG'', Empty),
     (''LWS_HAVE_ATOLL'', Empty),
     (''LWS_HAVE_BN_bn2binpad'', Empty),
     (''LWS_HAVE_EC_POINT_get_affine_coordinates'', Empty),
     (''LWS_HAVE_ECDSA_SIG_set0'', Empty),
     (''LWS_HAVE_EVP_MD_CTX_free'', Empty),
     (''LWS_HAVE_EVP_aes_128_wrap'', Empty),
     (''LWS_HAVE_MALLOC_H'', Empty),
     (''LWS_HAVE_MALLOC_TRIM'', Empty),
     (''LWS_HAVE_MALLOC_USABLE_SIZE'', Empty),
     (''LWS_HAVE_OPENSSL_ECDH_H'', Empty),
     (''LWS_HAVE_PIPE2'', Empty),
     (''LWS_HAVE_PTHREAD_H'', Empty),
     (''LWS_HAVE_RSA_SET0_KEY'', Empty),
     (''LWS_HAVE_SSL_CTX_get0_certificate'', Empty),
     (''LWS_HAVE_SSL_CTX_set1_param'', Empty),
     (''LWS_HAVE_SSL_CTX_set_ciphersuites'', Empty),
     (''LWS_HAVE_SSL_EXTRA_CHAIN_CERTS'', Empty),
     (''LWS_HAVE_SSL_get0_alpn_selected'', Empty),
     (''LWS_HAVE_SSL_set_alpn_protos'', Empty),
     (''LWS_HAVE_SSL_SET_INFO_CALLBACK'', Empty),
     (''LWS_HAVE_STDINT_H'', Empty),
     (''LWS_HAVE_TLS_CLIENT_METHOD'', Empty),
     (''LWS_HAVE_TLSV1_2_CLIENT_METHOD'', Empty),
     (''LWS_HAVE_X509_get_key_usage'', Empty),
     (''LWS_HAVE_X509_VERIFY_PARAM_set1_host'', Empty),
     (''LWS_LIBRARY_VERSION'', Tokens ''\"3.1.99\"''),
     (''LWS_NO_DAEMONIZE'', Empty),
     (''LWS_OPENSSL_CLIENT_CERTS'', Tokens ''\"../share\"''),
     (''LWS_OPENSSL_SUPPORT'', Empty),
     (''LWS_ROLE_H1'', Empty),
     (''LWS_ROLE_H2'', Empty),
     (''LWS_ROLE_RAW'', Empty),
     (''LWS_ROLE_WS'', Empty),
     (''LWS_SSL_CLIENT_USE_OS_CA_CERTS'', Empty),
     (''LWS_WITH_CUSTOM_HEADERS'', Empty),
     (''LWS_WITH_DIR'', Empty),
     (''LWS_WITH_HTTP2'', Empty),
     (''LWS_WITH_LEJP'', Empty),
     (''LWS_WITH_LWSAC'', Empty),
     (''LWS_WITH_NETWORK'', Empty),
     (''LWS_WITHOUT_EXTENSIONS'', Empty),
     (''LWS_WITH_POLL'', Empty),
     (''LWS_WITH_TLS'', Empty)]"

definition lws_config :: directives where
  "lws_config =
    [debug] @ map (\<lambda>(x, v). set_macro x v) lws_config_macros"

text \<open>The copy among the installed headers.\<close>

definition installed_config_macros :: "(string \<times> macro) list" where
  "installed_config_macros =
    [(''LWS_INSTALL_DATADIR'', Tokens ''\"/usr/local/share\"''),
     (''LWS_LIBRARY_VERSION_MAJOR'', Num 3),
     (''LWS_LIBRARY_VERSION_MINOR'', Num 1),
     (''LWS_LIBRARY_VERSION_PATCH'', Num 99),
     (''LWS_LIBRARY_VERSION_NUMBER'', Tokens ''(LWS_LIBRARY_VERSION_MAJOR * 1000000) + (LWS_LIBRARY_VERSION_MINOR * 1000) + LWS_LIBRARY_VERSION_PATCH''),
     (''LWS_MAX_SMP'', Num 1),
     (''LWS_BUILD_HASH'', Tokens ''\"v3.1.0-153-gf89aa40\"''),
     (''LWS_HAS_INTPTR_T'', Empty),
     (''LWS_HAS_GETOPT_LONG'', Empty),
     (''LWS_HAVE_ATOLL'', Empty),
     (''LWS_HAVE_BN_bn2binpad'', Empty),
     (''LWS_HAVE_EC_POINT_get_affine_coordinates'', Empty),
     (''LWS_HAVE_ECDSA_SIG_set0'', Empty),
     (''LWS_HAVE_EVP_MD_CTX_free'', Empty),
     (''LWS_HAVE_EVP_aes_128_wrap'', Empty),
     (''LWS_HAVE_MALLOC_H'', Empty),
     (''LWS_HAVE_MALLOC_TRIM'', Empty),
     (''LWS_HAVE_MALLOC_USABLE_SIZE'', Empty),
     (''LWS_HAVE_OPENSSL_ECDH_H'', Empty),
     (''LWS_HAVE_PIPE2'', Empty),
     (''LWS_HAVE_PTHREAD_H'', Empty),
     (''LWS_HAVE_RSA_SET0_KEY'', Empty),
     (''LWS_HAVE_SSL_CTX_get0_certificate'', Empty),
     (''LWS_HAVE_SSL_CTX_set1_param'', Empty),
     (''LWS_HAVE_SSL_CTX_set_ciphersuites'', Empty),
     (''LWS_HAVE_SSL_EXTRA_CHAIN_CERTS'', Empty),
     (''LWS_HAVE_SSL_get0_alpn_selected'', Empty),
     (''LWS_HAVE_SSL_set_alpn_protos'', Empty),
     (''LWS_HAVE_SSL_SET_INFO_CALLBACK'', Empty),
     (''LWS_HAVE_STDINT_H'', Empty),
     (''LWS_HAVE_TLS_CLIENT_METHOD'', Empty),
     (''LWS_HAVE_TLSV1_2_CLIENT_METHOD'', Empty),
     (''LWS_HAVE_X509_get_key_usage'', Empty),
     (''LWS_HAVE_X509_VERIFY_PARAM_set1_host'', Empty),
     (''LWS_LIBRARY_VERSION'', Tokens ''\"3.1.99\"''),
     (''LWS_NO_DAEMONIZE'', Empty),
     (''LWS_OPENSSL_CLIENT_CERTS'', Tokens ''\"../share\"''),
     (''LWS_OPENSSL_SUPPORT'', Empty),
     (''LWS_ROLE_H1'', Empty),
     (''LWS_ROLE_H2'', Empty),
     (''LWS_ROLE_RAW'', Empty),
     (''LWS_ROLE_WS'', Empty),
     (''LWS_SSL_CLIENT_USE_OS_CA_CERTS'', Empty),
     (''LWS_WITH_CUSTOM_HEADERS'', Empty),
     (''LWS_WITH_DIR'', Empty),
     (''LWS_WITH_HTTP2'', Empty),
     (''LWS_WITH_LEJP'', Empty),
     (''LWS_WITH_LWSAC'', Empty),
     (''LWS_WITH_NETWORK'', Empty),
     (''LWS_WITHOUT_EXTENSIONS'', Empty),
     (''LWS_WITH_POLL'', Empty),
     (''LWS_WITH_TLS'', Empty)]"

definition installed_config :: directives where
  "installed_config =
    [debug] @ map (\<lambda>(x, v). set_macro x v) installed_config_macros"

definition private_config_macros :: "(string \<times> macro) list" where
  "private_config_macros =
    [(''LWS_HAVE_BZERO'', Empty),
     (''LWS_HAVE_DLFCN_H'', Empty),
     (''LWS_HAVE_FCNTL_H'', Empty),
     (''LWS_HAVE_FORK'', Empty),
     (''LWS_HAVE_GETENV'', Empty),
     (''LWS_HAVE_MALLOC'', Empty),
     (''LWS_HAVE_MEMORY_H'', Empty),
     (''LWS_HAVE_MEMSET'', Empty),
     (''LWS_HAVE_NETINET_IN_H'', Empty),
     (''LWS_HAVE_REALLOC'', Empty),
     (''LWS_HAVE_SOCKET'', Empty),
     (''LWS_HAVE_STDINT_H'', Empty),
     (''LWS_HAVE_STDLIB_H'', Empty),
     (''LWS_HAVE_STRERROR'', Empty),
     (''LWS_HAVE_STRINGS_H'', Empty),
     (''LWS_HAVE_STRING_H'', Empty),
     (''LWS_HAVE_SYS_PRCTL_H'', Empty),
     (''LWS_HAVE_SYS_SOCKET_H'', Empty),
     (''LWS_HAVE_SYS_STAT_H'', Empty),
     (''LWS_HAVE_SYS_TYPES_H'', Empty),
     (''LWS_HAVE_UNISTD_H'', Empty),
     (''LWS_HAVE_TCP_USER_TIMEOUT'', Empty),
     (''LWS_HAVE_VFORK'', Empty),
     (''LWS_HAVE_WORKING_FORK'', Empty),
     (''LWS_HAVE_WORKING_VFORK'', Empty),
     (''LWS_HAVE_EXECVPE'', Empty),
     (''LWS_HAVE_GETLOADAVG'', Empty),
     (''LWS_HAVE_GETIFADDRS'', Empty),
     (''LWS_HAS_PTHREAD_SETNAME_NP'', Empty)]"

definition private_config :: directives where
  "private_config =
    [debug] @ map (\<lambda>(x, v). set_macro x v) private_config_macros @ [undef ''LT_OBJDIR'']"

section \<open>libwebsockets.h\<close>

definition lws_platform :: directives where
  "lws_platform =
    [cond (\<lambda>e. is_def e ''__cplusplus'')
       [inc ''cstddef'',
        inc ''cstdarg'',
        decl ''extern \"C\" {'']
       [inc ''stdarg.h''],
     inc ''string.h'',
     inc ''stdlib.h'',
     inc ''lws_config.h'',
     run installed_config,
     cond (\<lambda>e. is_def e ''LWS_HAS_INTPTR_T'')
       [inc ''stdint.h'',
        set_macro ''lws_intptr_t'' (Tokens ''intptr_t'')]
       [decl ''typedef unsigned long long lws_intptr_t;''],
     cond (\<lambda>e. is_def e ''WIN32'' \<or> is_def e ''_WIN32'')
       [cond (\<lambda>e. \<not> is_def e ''WIN32_LEAN_AND_MEAN'')
          [set_macro ''WIN32_LEAN_AND_MEAN'' Empty]
          [],
        inc ''winsock2.h'',
        inc ''ws2tcpip.h'',
        inc ''stddef.h'',
        inc ''basetsd.h'',
        inc ''io.h'',
        cond (\<lambda>e. \<not> is_def e ''_WIN32_WCE'')
          [inc ''fcntl.h'']
          [set_macro ''_O_RDONLY'' (Num 0x0000),
           set_macro ''O_RDONLY'' (Tokens ''_O_RDONLY'')],
        set_macro ''LWS_INLINE'' (Tokens ''__inline''),
        set_macro ''LWS_VISIBLE'' Empty,
        set_macro ''LWS_WARN_UNUSED_RESULT'' Empty,
        set_macro ''LWS_WARN_DEPRECATED'' Empty,
        set_macro ''LWS_FORMAT'' (Params ''(string_index)'' ''''),
        cond (\<lambda>e. \<not> is_def e ''LWS_EXTERN'')
          [cond (\<lambda>e. is_def e ''LWS_DLL'')
             [cond (\<lambda>e. is_def e ''LWS_INTERNAL'')
                [set_macro ''LWS_EXTERN'' (Tokens ''extern __declspec(dllexport)'')]
                [set_macro ''LWS_EXTERN'' (Tokens ''extern __declspec(dllimport)'')]]
             [set_macro ''LWS_EXTERN'' Empty]]
          [],
        set_macro ''LWS_INVALID_FILE'' (Tokens ''INVALID_HANDLE_VALUE''),
        set_macro ''LWS_SOCK_INVALID'' (Tokens ''(INVALID_SOCKET)''),
        set_macro ''LWS_O_RDONLY'' (Tokens ''_O_RDONLY''),
        set_macro ''LWS_O_WRONLY'' (Tokens ''_O_WRONLY''),
        set_macro ''LWS_O_CREAT'' (Tokens ''_O_CREAT''),
        set_macro ''LWS_O_TRUNC'' (Tokens ''_O_TRUNC''),
        cond (\<lambda>e. \<not> is_def e ''__func__'')
          [set_macro ''__func__'' (Tokens ''__FUNCTION__'')]
          []]
       [inc ''unistd.h'',
        cond (\<lambda>e. is_def e ''LWS_HAVE_SYS_CAPABILITY_H'' \<and> is_def e ''LWS_HAVE_LIBCAP'')
          [inc ''sys/capability.h'']
          [],
        cond (\<lambda>e. is_def e ''__NetBSD__'' \<or> is_def e ''__FreeBSD__'' \<or> is_def e ''__QNX__'' \<or> is_def e ''__OpenBSD__'')
          [inc ''sys/socket.h'',
           inc ''netinet/in.h'']
          [],
        set_macro ''LWS_INLINE'' (Tokens ''inline''),
        set_macro ''LWS_O_RDONLY'' (Tokens ''O_RDONLY''),
        set_macro ''LWS_O_WRONLY'' (Tokens ''O_WRONLY''),
        set_macro ''LWS_O_CREAT'' (Tokens ''O_CREAT''),
        set_macro ''LWS_O_TRUNC'' (Tokens ''O_TRUNC''),
        cond (\<lambda>e. \<not> is_def e ''LWS_PLAT_OPTEE'' \<and> \<not> is_def e ''OPTEE_TA'' \<and> \<not> is_def e ''LWS_WITH_ESP32'')
          [inc ''poll.h'',
           inc ''netdb.h'',
           set_macro ''LWS_INVALID_FILE'' (Tokens ''-1''),
           set_macro ''LWS_SOCK_INVALID'' (Tokens ''(-1)'')]
          [set_macro ''getdtablesize'' (Params ''()'' ''(30)''),
           cond (\<lambda>e. is_def e ''LWS_WITH_ESP32'')
             [set_macro ''LWS_INVALID_FILE'' (Tokens ''NULL''),
              set_macro ''LWS_SOCK_INVALID'' (Tokens ''(-1)'')]
             [set_macro ''LWS_INVALID_FILE'' (Tokens ''NULL''),
              set_macro ''LWS_SOCK_INVALID'' (Tokens ''(-1)'')]],
        cond (\<lambda>e. is_def e ''__GNUC__'')
          [cond (\<lambda>e. num e ''__GNUC__'' \<ge> 4 \<or> (num e ''__GNUC__'' = 3 \<and> num e ''__GNUC_MINOR__'' \<ge> 4))
             [set_macro ''LWS_WARN_UNUSED_RESULT'' (Tokens ''__attribute__((warn_unused_result))'')]
             [set_macro ''LWS_WARN_UNUSED_RESULT'' Empty],
           set_macro ''LWS_VISIBLE'' (Tokens ''__attribute__((visibility(\"default\")))''),
           set_macro ''LWS_WARN_DEPRECATED'' (Tokens ''__attribute__ ((deprecated))''),
           set_macro ''LWS_FORMAT'' (Params ''(string_index)'' ''__attribute__ ((format(printf, string_index, string_index+1)))'')]
          [set_macro ''LWS_VISIBLE'' Empty,
           set_macro ''LWS_WARN_UNUSED_RESULT'' Empty,
           set_macro ''LWS_WARN_DEPRECATED'' Empty,
           set_macro ''LWS_FORMAT'' (Params ''(string_index)'' '''')],
        cond (\<lambda>e. is_def e ''__ANDROID__'')
          [inc ''netinet/in.h'',
           inc ''unistd.h'',
           set_macro ''getdtablesize'' (Params ''()'' ''sysconf(_SC_OPEN_MAX)'')]
          []]]"

definition lws_event_loops :: directives where
  "lws_event_loops =
    [cond (\<lambda>e. is_def e ''LWS_WITH_LIBEV'')
       [inc ''ev.h'']
       [],
     cond (\<lambda>e. is_def e ''LWS_WITH_LIBUV'')
       [inc ''uv.h'',
        cond (\<lambda>e. is_def e ''LWS_HAVE_UV_VERSION_H'')
          [inc ''uv-version.h'']
          [],
        cond (\<lambda>e. is_def e ''LWS_HAVE_NEW_UV_VERSION_H'')
          [inc ''uv/version.h'']
          []]
       [],
     cond (\<lambda>e. is_def e ''LWS_WITH_LIBEVENT'')
       [inc ''event2/event.h'']
       [],
     cond (\<lambda>e. \<not> is_def e ''LWS_EXTERN'')
       [set_macro ''LWS_EXTERN'' (Tokens ''extern'')]
       [],
     cond (\<lambda>e. is_def e ''_WIN32'')
       [set_macro ''random'' (Tokens ''rand'')]
       [cond (\<lambda>e. \<not> is_def e ''LWS_PLAT_OPTEE'')
          [inc ''sys/time.h'',
           inc ''unistd.h'']
          []],
     cond (\<lambda>e. is_def e ''LWS_WITH_TLS'')
       [cond (\<lambda>e. is_def e ''USE_WOLFSSL'')
          [cond (\<lambda>e. is_def e ''USE_OLD_CYASSL'')
             [cond (\<lambda>e. is_def e ''_WIN32'')
                [inc ''IDE/WIN/user_settings.h'',
                 inc ''cyassl/ctaocrypt/settings.h'']
                [inc ''cyassl/options.h''],
              inc ''cyassl/openssl/ssl.h'',
              inc ''cyassl/error-ssl.h'']
             [cond (\<lambda>e. is_def e ''_WIN32'')
                [inc ''IDE/WIN/user_settings.h'',
                 inc ''wolfssl/wolfcrypt/settings.h'']
                [inc ''wolfssl/options.h''],
              inc ''wolfssl/openssl/ssl.h'',
              inc ''wolfssl/error-ssl.h'']]
          [cond (\<lambda>e. is_def e ''LWS_WITH_MBEDTLS'')
             [cond (\<lambda>e. is_def e ''LWS_WITH_ESP32'')
                [undef ''MBEDTLS_CONFIG_FILE'',
                 set_macro ''MBEDTLS_CONFIG_FILE'' (Tokens ''<mbedtls/esp_config.h>'')]
                [],
              inc ''mbedtls/ssl.h'']
             [inc ''openssl/ssl.h'',
              cond (\<lambda>e. \<not> is_def e ''LWS_WITH_MBEDTLS'')
                [inc ''openssl/err.h'']
                []]]]
       []]"

definition lws_threads :: directives where
  "lws_threads =
    [cond (\<lambda>e. num e ''LWS_MAX_SMP'' > 1)
       [inc ''pthread.h'',
        set_macro ''lws_pthread_mutex'' (Params ''(name)'' ''pthread_mutex_t name;''),
        decl ''static LWS_INLINE void lws_pthread_mutex_init(pthread_mutex_t *lock) { pthread_mutex_init(lock, NULL); }'',
        decl ''static LWS_INLINE void lws_pthread_mutex_destroy(pthread_mutex_t *lock) { pthread_mutex_destroy(lock); }'',
        decl ''static LWS_INLINE void lws_pthread_mutex_lock(pthread_mutex_t *lock) { pthread_mutex_lock(lock); }'',
        decl ''static LWS_INLINE void lws_pthread_mutex_unlock(pthread_mutex_t *lock) { pthread_mutex_unlock(lock); }'']
       [set_macro ''lws_pthread_mutex'' (Params ''(name)'' ''''),
        set_macro ''lws_pthread_mutex_init'' (Params ''(_a)'' ''''),
        set_macro ''lws_pthread_mutex_destroy'' (Params ''(_a)'' ''''),
        set_macro ''lws_pthread_mutex_lock'' (Params ''(_a)'' ''''),
        set_macro ''lws_pthread_mutex_unlock'' (Params ''(_a)'' '''')],
     set_macro ''CONTEXT_PORT_NO_LISTEN'' (Tokens ''-1''),
     set_macro ''CONTEXT_PORT_NO_LISTEN_SERVER'' (Tokens ''-2''),
     inc ''libwebsockets/lws-logs.h'',
     inc ''stddef.h'',
     cond (\<lambda>e. \<not> is_def e ''lws_container_of'')
       [set_macro ''lws_container_of'' (Params ''(P,T,M)'' ''((T *)((char *)(P) - offsetof(T, M)))'')]
       [],
     decl ''struct lws;'',
     decl ''typedef int64_t lws_usec_t;'',
     set_macro ''LWS_FEATURE_SERVE_HTTP_FILE_HAS_OTHER_HEADERS_ARG'' Empty,
     set_macro ''LWS_FEATURE_PROTOCOLS_HAS_ID_FIELD'' Empty,
     set_macro ''LWS_FEATURE_PROTOCOLS_HAS_PEER_WRITE_ALLOWANCE'' Empty,
     set_macro ''LWS_FEATURE_SERVE_HTTP_FILE_HAS_OTHER_HEADERS_LEN'' Empty,
     set_macro ''LWS_FEATURE_FOPS'' Empty]"

definition lws_types :: directives where
  "lws_types =
    [cond (\<lambda>e. is_def e ''_WIN32'')
       [cond (\<lambda>e. \<not> is_def e ''LWS_WIN32_HANDLE_TYPES'')
          [decl ''typedef SOCKET lws_sockfd_type;'',
           decl ''typedef HANDLE lws_filefd_type;'']
          [],
        decl ''struct lws_pollfd { lws_sockfd_type fd; SHORT events; SHORT revents; };'',
        set_macro ''LWS_POLLHUP'' (Tokens ''(FD_CLOSE)''),
        set_macro ''LWS_POLLIN'' (Tokens ''(FD_READ | FD_ACCEPT)''),
        set_macro ''LWS_POLLOUT'' (Tokens ''(FD_WRITE)'')]
       [cond (\<lambda>e. is_def e ''LWS_WITH_ESP32'')
          [inc ''libwebsockets/lws-esp32.h'']
          [decl ''typedef int lws_sockfd_type;'',
           decl ''typedef int lws_filefd_type;''],
        cond (\<lambda>e. is_def e ''LWS_PLAT_OPTEE'')
          [inc ''time.h'',
           decl ''struct timeval { time_t tv_sec; unsigned int tv_usec; };'',
           cond (\<lambda>e. is_def e ''LWS_WITH_NETWORK'')
             [set_macro ''lws_pollfd'' (Tokens ''pollfd''),
              decl ''struct timezone;'',
              decl ''int gettimeofday(struct timeval *tv, struct timezone *tz);'',
              decl ''struct in_addr { uint32_t s_addr; };'',
              decl ''typedef unsigned short sa_family_t;'',
              decl ''typedef unsigned short in_port_t;'',
              decl ''typedef uint32_t socklen_t;'',
              inc ''libwebsockets/lws-optee.h'',
              cond (\<lambda>e. \<not> is_def e ''TEE_SE_READER_NAME_MAX'')
                [decl ''struct addrinfo { int ai_flags; int ai_family; int ai_socktype; int ai_protocol; socklen_t ai_addrlen; struct sockaddr *ai_addr; char *ai_canonname; struct addrinfo *ai_next; };'']
                [],
              decl ''ssize_t recv(int sockfd, void *buf, size_t len, int flags);'',
              decl ''ssize_t send(int sockfd, const void *buf, size_t len, int flags);'',
              decl ''ssize_t read(int fd, void *buf, size_t count);'',
              decl ''int getsockopt(int sockfd, int level, int optname, void *optval, socklen_t *optlen);'',
              decl ''int setsockopt(int sockfd, int level, int optname, const void *optval, socklen_t optlen);'',
              decl ''int connect(int sockfd, const struct sockaddr *addr, socklen_t addrlen);'',
              decl ''extern int errno;'',
              decl ''uint16_t ntohs(uint16_t netshort);'',
              decl ''uint16_t htons(uint16_t hostshort);'',
              decl ''int bind(int sockfd, const struct sockaddr *addr, socklen_t addrlen);'',
              set_macro ''MSG_NOSIGNAL'' (Num 0x4000),
              set_macro ''EAGAIN'' (Num 11),
              set_macro ''EINTR'' (Num 4),
              set_macro ''EWOULDBLOCK'' (Tokens ''EAGAIN''),
              set_macro ''EADDRINUSE'' (Num 98),
              set_macro ''INADDR_ANY'' (Num 0),
              set_macro ''AF_INET'' (Num 2),
              set_macro ''SHUT_WR'' (Num 1),
              set_macro ''AF_UNSPEC'' (Num 0),
              set_macro ''PF_UNSPEC'' (Num 0),
              set_macro ''SOCK_STREAM'' (Num 1),
              set_macro ''SOCK_DGRAM'' (Num 2),
              set_macro ''AI_PASSIVE'' (Num 0x0001),
              set_macro ''IPPROTO_UDP'' (Num 17),
              set_macro ''SOL_SOCKET'' (Num 1),
              set_macro ''SO_SNDBUF'' (Num 7),
              set_macro ''EISCONN'' (Num 106),
              set_macro ''EALREADY'' (Num 114),
              set_macro ''EINPROGRESS'' (Num 115),
              decl ''int shutdown(int sockfd, int how);'',
              decl ''int close(int fd);'',
              decl ''int atoi(const char *nptr);'',
              decl ''long long atoll(const char *nptr);'',
              decl ''int socket(int domain, int type, int protocol);'',
              decl ''int getaddrinfo(const char *node, const char *service, const struct addrinfo *hints, struct addrinfo **res);'',
              decl ''void freeaddrinfo(struct addrinfo *res);'',
              cond (\<lambda>e. \<not> is_def e ''TEE_SE_READER_NAME_MAX'')
                [decl ''struct lws_pollfd { int fd; short int events; short int revents; };'']
                [],
              decl ''int poll(struct pollfd *fds, int nfds, int timeout);'',
              set_macro ''LWS_POLLHUP'' (Tokens ''(0x18)''),
              set_macro ''LWS_POLLIN'' (Tokens ''(1)''),
              set_macro ''LWS_POLLOUT'' (Tokens ''(4)'')]
             [decl ''struct lws_pollfd;'',
              decl ''struct sockaddr_in;'']]
          [set_macro ''lws_pollfd'' (Tokens ''pollfd''),
           set_macro ''LWS_POLLHUP'' (Tokens ''(POLLHUP | POLLERR)''),
           set_macro ''LWS_POLLIN'' (Tokens ''(POLLIN)''),
           set_macro ''LWS_POLLOUT'' (Tokens ''(POLLOUT)'')]]]"

definition lws_scalars :: directives where
  "lws_scalars =
    [cond (\<lambda>e. (is_def e ''WIN32'' \<or> is_def e ''_WIN32'') \<and> \<not> is_def e ''__MINGW32__'')
       [set_macro ''ssize_t'' (Tokens ''SSIZE_T'')]
       [],
     cond (\<lambda>e. is_def e ''WIN32'' \<and> is_def e ''LWS_HAVE__STAT32I64'')
       [inc ''sys/types.h'',
        inc ''sys/stat.h'']
       [],
     cond (\<lambda>e. is_def e ''LWS_HAVE_STDINT_H'')
       [inc ''stdint.h'']
       [cond (\<lambda>e. is_def e ''WIN32'' \<or> is_def e ''_WIN32'')
          [decl ''typedef unsigned __int32 uint32_t;'',
           decl ''typedef unsigned __int16 uint16_t;'',
           decl ''typedef unsigned __int8 uint8_t;'']
          [decl ''typedef unsigned int uint32_t;'',
           decl ''typedef unsigned short uint16_t;'',
           decl ''typedef unsigned char uint8_t;'']],
     decl ''typedef unsigned long long lws_filepos_t;'',
     decl ''typedef long long lws_fileofs_t;'',
     decl ''typedef uint32_t lws_fop_flags_t;'',
     set_macro ''lws_concat_temp'' (Params ''(_t, _l)'' ''(_t + sizeof(_t) - _l)''),
     set_macro ''lws_concat_used'' (Params ''(_t, _l)'' ''(sizeof(_t) - _l)''),
     decl ''struct lws_pollargs { lws_sockfd_type fd; int events; int prev_events; };'',
     decl ''struct lws_extension;'',
     decl ''struct lws_token_limits;'',
     decl ''struct lws_context;'',
     decl ''struct lws_tokens;'',
     decl ''struct lws_vhost;'',
     decl ''struct lws;'']"

definition lws_interface_headers :: directives where
  "lws_interface_headers =
    [inc ''libwebsockets/lws-ws-close.h'',
     inc ''libwebsockets/lws-callbacks.h'',
     inc ''libwebsockets/lws-ws-state.h'',
     inc ''libwebsockets/lws-ws-ext.h'',
     inc ''libwebsockets/lws-protocols-plugins.h'',
     inc ''libwebsockets/lws-plugin-generic-sessions.h'',
     inc ''libwebsockets/lws-context-vhost.h'',
     inc ''libwebsockets/lws-client.h'',
     inc ''libwebsockets/lws-http.h'',
     inc ''libwebsockets/lws-spa.h'',
     inc ''libwebsockets/lws-purify.h'',
     inc ''libwebsockets/lws-timeout-timer.h'',
     inc ''libwebsockets/lws-service.h'',
     inc ''libwebsockets/lws-write.h'',
     inc ''libwebsockets/lws-writeable.h'',
     inc ''libwebsockets/lws-adopt.h'',
     inc ''libwebsockets/lws-network-helper.h'',
     inc ''libwebsockets/lws-misc.h'',
     inc ''libwebsockets/lws-ring.h'',
     inc ''libwebsockets/lws-sha1-base64.h'',
     inc ''libwebsockets/lws-x509.h'',
     inc ''libwebsockets/lws-cgi.h'',
     inc ''libwebsockets/lws-vfs.h'',
     inc ''libwebsockets/lws-lejp.h'',
     inc ''libwebsockets/lws-stats.h'',
     inc ''libwebsockets/lws-struct.h'',
     inc ''libwebsockets/lws-threadpool.h'',
     inc ''libwebsockets/lws-tokenize.h'',
     inc ''libwebsockets/lws-lwsac.h'',
     inc ''libwebsockets/lws-fts.h'',
     inc ''libwebsockets/lws-diskcache.h'',
     inc ''libwebsockets/abstract/transports.h'',
     inc ''libwebsockets/abstract/smtp.h'',
     cond (\<lambda>e. is_def e ''LWS_WITH_TLS'')
       [cond (\<lambda>e. is_def e ''LWS_WITH_MBEDTLS'')
          [inc ''mbedtls/sha1.h'',
           inc ''mbedtls/sha256.h'',
           inc ''mbedtls/sha512.h'']
          [],
        inc ''libwebsockets/lws-gencrypto.h'',
        inc ''libwebsockets/lws-genhash.h'',
        inc ''libwebsockets/lws-genrsa.h'',
        inc ''libwebsockets/lws-genaes.h'',
        inc ''libwebsockets/lws-genec.h'',
        inc ''libwebsockets/lws-jwk.h'',
        inc ''libwebsockets/lws-jose.h'',
        inc ''libwebsockets/lws-jws.h'',
        inc ''libwebsockets/lws-jwe.h'']
       [],
     cond (\<lambda>e. is_def e ''__cplusplus'')
       [decl ''}'']
       []]"

definition libwebsockets_h :: directives where
  "libwebsockets_h =
    [cond (\<lambda>e. \<not> is_def e ''LIBWEBSOCKET_H_3060898B846849FF9F88F5DB59B5950C'')
       ([set_macro ''LIBWEBSOCKET_H_3060898B846849FF9F88F5DB59B5950C'' Empty] @ lws_platform @ lws_event_loops @ lws_threads @ lws_types @ lws_scalars @ lws_interface_headers)
       []]"

section \<open>feature\_tests.c\<close>

definition gcc_version :: "macros \<Rightarrow> nat" where
  "gcc_version e = num e ''__GNUC__'' * 100 + num e ''__GNUC_MINOR__''"

definition std_at_least :: "macros \<Rightarrow> nat \<Rightarrow> bool" where
  "std_at_least e n \<longleftrightarrow> is_def e ''__STDC_VERSION__'' \<and> num e ''__STDC_VERSION__'' \<ge> n"

definition feature :: "bool \<Rightarrow> string \<Rightarrow> string" where
  "feature b name = ''C_FEATURE:'' @ (if b then ''1'' else ''0'') @ name @ [CHR 0x0A]"

definition features :: "macros \<Rightarrow> string" where
  "features e =
     [CHR 0x0A] @ feature (gcc_version e \<ge> 404) ''c_function_prototypes'' @
     feature (gcc_version e \<ge> 404 \<and> std_at_least e 199901) ''c_restrict'' @
     feature (gcc_version e \<ge> 406 \<and> std_at_least e 201000) ''c_static_assert'' @
     feature (gcc_version e \<ge> 404 \<and> std_at_least e 199901) ''c_variadic_macros''"

section \<open>lws-http.h\<close>

text \<open>Numbering of an enumeration: without a value an enumerator is one more than the last.\<close>

fun enum_codes :: "int \<Rightarrow> (string \<times> int option) list \<Rightarrow> (string \<times> int) list" where
  "enum_codes n [] = []"
| "enum_codes n ((x, v) # es) = (let c = (case v of Some k \<Rightarrow> k | None \<Rightarrow> n) in (x, c) # enum_codes (c + 1) es)"

definition http_status :: "(string \<times> int) list" where
  "http_status = enum_codes 0
     [(''HTTP_STATUS_CONTINUE'', Some 100),
      (''HTTP_STATUS_OK'', Some 200),
      (''HTTP_STATUS_NO_CONTENT'', Some 204),
      (''HTTP_STATUS_PARTIAL_CONTENT'', Some 206),
      (''HTTP_STATUS_MOVED_PERMANENTLY'', Some 301),
      (''HTTP_STATUS_FOUND'', Some 302),
      (''HTTP_STATUS_SEE_OTHER'', Some 303),
      (''HTTP_STATUS_NOT_MODIFIED'', Some 304),
      (''HTTP_STATUS_BAD_REQUEST'', Some 400),
      (''HTTP_STATUS_UNAUTHORIZED'', None),
      (''HTTP_STATUS_PAYMENT_REQUIRED'', None),
      (''HTTP_STATUS_FORBIDDEN'', None),
      (''HTTP_STATUS_NOT_FOUND'', None),
      (''HTTP_STATUS_METHOD_NOT_ALLOWED'', None),
      (''HTTP_STATUS_NOT_ACCEPTABLE'', None),
      (''HTTP_STATUS_PROXY_AUTH_REQUIRED'', None),
      (''HTTP_STATUS_REQUEST_TIMEOUT'', None),
      (''HTTP_STATUS_CONFLICT'', None),
      (''HTTP_STATUS_GONE'', None),
      (''HTTP_STATUS_LENGTH_REQUIRED'', None),
      (''HTTP_STATUS_PRECONDITION_FAILED'', None),
      (''HTTP_STATUS_REQ_ENTITY_TOO_LARGE'', None),
      (''HTTP_STATUS_REQ_URI_TOO_LONG'', None),
      (''HTTP_STATUS_UNSUPPORTED_MEDIA_TYPE'', None),
      (''HTTP_STATUS_REQ_RANGE_NOT_SATISFIABLE'', None),
      (''HTTP_STATUS_EXPECTATION_FAILED'', None),
      (''HTTP_STATUS_INTERNAL_SERVER_ERROR'', Some 500),
      (''HTTP_STATUS_NOT_IMPLEMENTED'', None),
      (''HTTP_STATUS_BAD_GATEWAY'', None),
      (''HTTP_STATUS_SERVICE_UNAVAILABLE'', None),
      (''HTTP_STATUS_GATEWAY_TIMEOUT'', None),
      (''HTTP_STATUS_HTTP_VERSION_NOT_SUPPORTED'', None)]"

text \<open>The tokens of a header, one of them only when the library is built for custom headers.\<close>

definition token_indexes :: "macros \<Rightarrow> (string \<times> int) list" where
  "token_indexes e = enum_codes 0
     ([(''WSI_TOKEN_GET_URI'', Some 0),
      (''WSI_TOKEN_POST_URI'', Some 1),
      (''WSI_TOKEN_OPTIONS_URI'', Some 2),
      (''WSI_TOKEN_HOST'', Some 3),
      (''WSI_TOKEN_CONNECTION'', Some 4),
      (''WSI_TOKEN_UPGRADE'', Some 5),
      (''WSI_TOKEN_ORIGIN'', Some 6),
      (''WSI_TOKEN_DRAFT'', Some 7),
      (''WSI_TOKEN_CHALLENGE'', Some 8),
      (''WSI_TOKEN_EXTENSIONS'', Some 9),
      (''WSI_TOKEN_KEY1'', Some 10),
      (''WSI_TOKEN_KEY2'', Some 11),
      (''WSI_TOKEN_PROTOCOL'', Some 12),
      (''WSI_TOKEN_ACCEPT'', Some 13),
      (''WSI_TOKEN_NONCE'', Some 14),
      (''WSI_TOKEN_HTTP'', Some 15),
      (''WSI_TOKEN_HTTP2_SETTINGS'', Some 16),
      (''WSI_TOKEN_HTTP_ACCEPT'', Some 17),
      (''WSI_TOKEN_HTTP_AC_REQUEST_HEADERS'', Some 18),
      (''WSI_TOKEN_HTTP_IF_MODIFIED_SINCE'', Some 19),
      (''WSI_TOKEN_HTTP_IF_NONE_MATCH'', Some 20),
      (''WSI_TOKEN_HTTP_ACCEPT_ENCODING'', Some 21),
      (''WSI_TOKEN_HTTP_ACCEPT_LANGUAGE'', Some 22),
      (''WSI_TOKEN_HTTP_PRAGMA'', Some 23),
      (''WSI_TOKEN_HTTP_CACHE_CONTROL'', Some 24),
      (''WSI_TOKEN_HTTP_AUTHORIZATION'', Some 25),
      (''WSI_TOKEN_HTTP_COOKIE'', Some 26),
      (''WSI_TOKEN_HTTP_CONTENT_LENGTH'', Some 27),
      (''WSI_TOKEN_HTTP_CONTENT_TYPE'', Some 28),
      (''WSI_TOKEN_HTTP_DATE'', Some 29),
      (''WSI_TOKEN_HTTP_RANGE'', Some 30),
      (''WSI_TOKEN_HTTP_REFERER'', Some 31),
      (''WSI_TOKEN_KEY'', Some 32),
      (''WSI_TOKEN_VERSION'', Some 33),
      (''WSI_TOKEN_SWORIGIN'', Some 34),
      (''WSI_TOKEN_HTTP_COLON_AUTHORITY'', Some 35),
      (''WSI_TOKEN_HTTP_COLON_METHOD'', Some 36),
      (''WSI_TOKEN_HTTP_COLON_PATH'', Some 37),
      (''WSI_TOKEN_HTTP_COLON_SCHEME'', Some 38),
      (''WSI_TOKEN_HTTP_COLON_STATUS'', Some 39),
      (''WSI_TOKEN_HTTP_ACCEPT_CHARSET'', Some 40),
      (''WSI_TOKEN_HTTP_ACCEPT_RANGES'', Some 41),
      (''WSI_TOKEN_HTTP_ACCESS_CONTROL_ALLOW_ORIGIN'', Some 42),
      (''WSI_TOKEN_HTTP_AGE'', Some 43),
      (''WSI_TOKEN_HTTP_ALLOW'', Some 44),
      (''WSI_TOKEN_HTTP_CONTENT_DISPOSITION'', Some 45),
      (''WSI_TOKEN_HTTP_CONTENT_ENCODING'', Some 46),
      (''WSI_TOKEN_HTTP_CONTENT_LANGUAGE'', Some 47),
      (''WSI_TOKEN_HTTP_CONTENT_LOCATION'', Some 48),
      (''WSI_TOKEN_HTTP_CONTENT_RANGE'', Some 49),
      (''WSI_TOKEN_HTTP_ETAG'', Some 50),
      (''WSI_TOKEN_HTTP_EXPECT'', Some 51),
      (''WSI_TOKEN_HTTP_EXPIRES'', Some 52),
      (''WSI_TOKEN_HTTP_FROM'', Some 53),
      (''WSI_TOKEN_HTTP_IF_MATCH'', Some 54),
      (''WSI_TOKEN_HTTP_IF_RANGE'', Some 55),
      (''WSI_TOKEN_HTTP_IF_UNMODIFIED_SINCE'', Some 56),
      (''WSI_TOKEN_HTTP_LAST_MODIFIED'', Some 57),
      (''WSI_TOKEN_HTTP_LINK'', Some 58),
      (''WSI_TOKEN_HTTP_LOCATION'', Some 59),
      (''WSI_TOKEN_HTTP_MAX_FORWARDS'', Some 60),
      (''WSI_TOKEN_HTTP_PROXY_AUTHENTICATE'', Some 61),
      (''WSI_TOKEN_HTTP_PROXY_AUTHORIZATION'', Some 62),
      (''WSI_TOKEN_HTTP_REFRESH'', Some 63),
      (''WSI_TOKEN_HTTP_RETRY_AFTER'', Some 64),
      (''WSI_TOKEN_HTTP_SERVER'', Some 65),
      (''WSI_TOKEN_HTTP_SET_COOKIE'', Some 66),
      (''WSI_TOKEN_HTTP_STRICT_TRANSPORT_SECURITY'', Some 67),
      (''WSI_TOKEN_HTTP_TRANSFER_ENCODING'', Some 68),
      (''WSI_TOKEN_HTTP_USER_AGENT'', Some 69),
      (''WSI_TOKEN_HTTP_VARY'', Some 70),
      (''WSI_TOKEN_HTTP_VIA'', Some 71),
      (''WSI_TOKEN_HTTP_WWW_AUTHENTICATE'', Some 72),
      (''WSI_TOKEN_PATCH_URI'', Some 73),
      (''WSI_TOKEN_PUT_URI'', Some 74),
      (''WSI_TOKEN_DELETE_URI'', Some 75),
      (''WSI_TOKEN_HTTP_URI_ARGS'', Some 76),
      (''WSI_TOKEN_PROXY'', Some 77),
      (''WSI_TOKEN_HTTP_X_REAL_IP'', Some 78),
      (''WSI_TOKEN_HTTP1_0'', Some 79),
      (''WSI_TOKEN_X_FORWARDED_FOR'', Some 80),
      (''WSI_TOKEN_CONNECT'', Some 81),
      (''WSI_TOKEN_HEAD_URI'', Some 82),
      (''WSI_TOKEN_TE'', Some 83),
      (''WSI_TOKEN_REPLAY_NONCE'', Some 84),
      (''WSI_TOKEN_COLON_PROTOCOL'', Some 85),
      (''WSI_TOKEN_X_AUTH_TOKEN'', Some 86),
      (''_WSI_TOKEN_CLIENT_SENT_PROTOCOLS'', None),
      (''_WSI_TOKEN_CLIENT_PEER_ADDRESS'', None),
      (''_WSI_TOKEN_CLIENT_URI'', None),
      (''_WSI_TOKEN_CLIENT_HOST'', None),
      (''_WSI_TOKEN_CLIENT_ORIGIN'', None),
      (''_WSI_TOKEN_CLIENT_METHOD'', None),
      (''_WSI_TOKEN_CLIENT_IFACE'', None),
      (''_WSI_TOKEN_CLIENT_ALPN'', None),
      (''WSI_TOKEN_COUNT'', None),
      (''WSI_TOKEN_NAME_PART'', None)] @
      (if is_def e ''LWS_WITH_CUSTOM_HEADERS'' then [(''WSI_TOKEN_UNKNOWN_VALUE_PART'', None)] else []) @
      [(''WSI_TOKEN_SKIPPING'', None),
      (''WSI_TOKEN_SKIPPING_SAW_CR'', None),
      (''WSI_PARSING_COMPLETE'', None),
      (''WSI_INIT_TOKEN_MUXURL'', None)])"

section \<open>Facts\<close>

text \<open>
  What a program on the recorded machine (gcc 5 on Linux) sees: none of the optional event
  loops, OpenSSL as it is, no threads, \<open>int\<close>s as descriptors, and no POSIX capabilities.
\<close>

definition gcc_linux :: macros where
  "gcc_linux = [''__GNUC__'' \<mapsto> Num 5, ''__GNUC_MINOR__'' \<mapsto> Num 4, ''__linux__'' \<mapsto> Num 1,
     ''__STDC_VERSION__'' \<mapsto> Num 201112]"

lemma run_simps: "run [] s = s" "run (d # ds) s = run ds (d s)"
  by (simp_all add: run_def)

lemma cond_simps: "c e \<Longrightarrow> cond c as bs (e, out) = run as (e, out)"
  "\<not> c e \<Longrightarrow> cond c as bs (e, out) = run bs (e, out)"
  by (simp_all add: cond_def)

lemma item_simps:
  "inc h (e, out) = (e, out @ [Included h])" "decl d (e, out) = (e, out @ [Declared d])"
  "set_macro x v (e, out) = (e(x \<mapsto> v), out)" "undef x (e, out) = (e(x := None), out)"
  by (simp_all add: inc_def decl_def set_macro_def undef_def)

lemmas directive_simps = run_simps cond_simps item_simps

lemma run_append: "run (xs @ ys) s = run ys (run xs s)"
  by (simp add: run_def)

lemma run_table: "run (map (\<lambda>(x, v). set_macro x v) xs) (e, out) = (e ++ map_of (rev xs), out)"
  by (induction xs arbitrary: e) (auto simp: run_def set_macro_def)

lemma config_distinct: "distinct (map fst installed_config_macros)"
  by (simp add: installed_config_macros_def)

text \<open>What is defined after the configuration, apart from \<open>_DEBUG\<close>.\<close>

definition configured :: "macros \<Rightarrow> macros" where
  "configured e = fst (run installed_config (e, []))"

lemma debug_macros: "debug (e, out) = (fst (debug (e, [])), out)" "x \<noteq> ''_DEBUG'' \<Longrightarrow> fst (debug (e, [])) x = e x"
  by (simp_all add: debug_def cond_def run_simps set_macro_def)

lemma run_config: "run installed_config (e, out) = (configured e, out)"
  unfolding configured_def installed_config_def run_append run_simps
  using debug_macros(1) [of e out] debug_macros(1) [of e "[]"] by (metis run_table fst_conv)

lemma configured_lookup:
  assumes "x \<noteq> ''_DEBUG''"
  shows "configured e x = (case map_of installed_config_macros x of None \<Rightarrow> e x | Some v \<Rightarrow> Some v)"
proof -
  have "configured e = fst (debug (e, [])) ++ map_of (rev installed_config_macros)"
    unfolding configured_def installed_config_def run_append run_simps
    using debug_macros(1) [of e "[]"] by (metis run_table fst_conv)
  moreover have "map_of (rev installed_config_macros) = map_of installed_config_macros"
    using config_distinct by (simp add: map_of_inject_set flip: rev_map)
  ultimately show ?thesis
    using debug_macros(2) [OF assms] by (simp add: map_add_def split: option.split)
qed

definition library_version :: "macros \<Rightarrow> nat" where
  "library_version e = num e ''LWS_LIBRARY_VERSION_MAJOR'' * 1000000 + num e ''LWS_LIBRARY_VERSION_MINOR'' * 1000 +
     num e ''LWS_LIBRARY_VERSION_PATCH''"

lemma configured_version: "library_version (configured e) = 3001099"
  by (simp add: library_version_def num_def configured_lookup installed_config_macros_def)

lemma same_config: "installed_config = lws_config"
  by (simp add: installed_config_def lws_config_def installed_config_macros_def lws_config_macros_def)

definition here :: macros where
  "here = configured gcc_linux"

lemma here_lookup: "x \<noteq> ''_DEBUG'' \<Longrightarrow> here x =
    (case map_of installed_config_macros x of None \<Rightarrow> gcc_linux x | Some v \<Rightarrow> Some v)"
  by (simp add: here_def configured_lookup)

lemma here_macros:
  "here ''LWS_HAS_INTPTR_T'' = Some Empty" "here ''__GNUC__'' = Some (Num 5)"
  "here ''WIN32'' = None" "here ''_WIN32'' = None" "here ''LWS_HAVE_SYS_CAPABILITY_H'' = None"
  "here ''__NetBSD__'' = None" "here ''__FreeBSD__'' = None" "here ''__QNX__'' = None" "here ''__OpenBSD__'' = None"
  "here ''LWS_PLAT_OPTEE'' = None" "here ''OPTEE_TA'' = None" "here ''LWS_WITH_ESP32'' = None" "here ''__ANDROID__'' = None"
  by (simp_all add: here_lookup installed_config_macros_def gcc_linux_def)

lemma platform:
  "snd (run lws_platform (gcc_linux, [])) =
     map Included [''stdarg.h'', ''string.h'', ''stdlib.h'', ''lws_config.h'', ''stdint.h'', ''unistd.h'', ''poll.h'', ''netdb.h'']"
proof -
  have cpp: "gcc_linux ''__cplusplus'' = None" by (simp add: gcc_linux_def)
  show ?thesis
    unfolding lws_platform_def
    by (simp add: directive_simps cpp run_config here_macros is_def_def num_def flip: here_def)
qed

lemma descriptors:
  "snd (run lws_types (here, [])) =
     map Declared [''typedef int lws_sockfd_type;'', ''typedef int lws_filefd_type;'']"
  unfolding lws_types_def
  by (simp add: directive_simps here_macros is_def_def num_def)

lemma no_threads: "fst (run lws_threads (here, out)) ''lws_pthread_mutex'' = Some (Params ''(name)'' [])"
proof -
  have smp: "here ''LWS_MAX_SMP'' = Some (Num 1)" "here ''lws_container_of'' = None"
    by (simp_all add: here_lookup installed_config_macros_def gcc_linux_def)
  show ?thesis
    unfolding lws_threads_def
    by (simp add: directive_simps smp is_def_def num_def)
qed

lemma features_here: "features gcc_linux =
  [CHR 0x0A] @ feature True ''c_function_prototypes'' @ feature True ''c_restrict'' @
  feature True ''c_static_assert'' @ feature True ''c_variadic_macros''"
  by (simp add: features_def gcc_version_def std_at_least_def gcc_linux_def is_def_def num_def)

lemma token_count: "map_of (token_indexes e) ''WSI_TOKEN_COUNT'' = Some 95"
  by (simp add: token_indexes_def)

lemma http_status_distinct: "distinct (map snd http_status)"
  by (simp add: http_status_def)

end
