(* ===== verification/Lws_Misc.thy ===== *)
theory Lws_Misc
  imports Lws_Api
begin

text \<open>
  The code that the libwebsockets headers contain themselves: the macros of \<open>lws-misc.h\<close> that walk
  and change linked lists, with the accessors of the doubly linked ones; the logging macros of
  \<open>lws-logs.h\<close> that \<open>websocket.c\<close> uses; \<open>lws_write_ws_flags\<close> of \<open>lws-write.h\<close>; the calls through the
  table of file operations of \<open>lws-vfs.h\<close>; and the codes of \<open>lws-ws-close.h\<close> and
  \<open>lws-timeout-timer.h\<close>.
\<close>

section \<open>Walking a list\<close>

text \<open>
  A loop opened by \<open>lws_start_foreach_ll\<close> and closed by \<open>lws_end_foreach_ll\<close>.  \<open>nx s a\<close> reads the member
  \<open>nxt\<close> of the object at \<open>a\<close> and is \<open>None\<close> where there is no object; the body tells whether it left
  the loop with \<open>break\<close>.
\<close>

partial_function (option) foreach_ll ::
  "('s \<Rightarrow> addr \<Rightarrow> ptr option) \<Rightarrow> (addr \<Rightarrow> 's \<Rightarrow> (bool \<times> 's) option) \<Rightarrow> ptr \<Rightarrow> 's \<Rightarrow> 's option" where
  "foreach_ll nx body it s =
     (case it of
        None \<Rightarrow> Some s
      | Some a \<Rightarrow>
          do { (brk, s1) \<leftarrow> body a s;
               if brk then Some s1
               else do { n \<leftarrow> nx s1 a; foreach_ll nx body n s1 } })"

text \<open>The safe variant reads the next pointer before the body, which may free the object.\<close>

partial_function (option) foreach_ll_safe ::
  "('s \<Rightarrow> addr \<Rightarrow> ptr option) \<Rightarrow> (addr \<Rightarrow> 's \<Rightarrow> (bool \<times> 's) option) \<Rightarrow> ptr \<Rightarrow> 's \<Rightarrow> 's option" where
  "foreach_ll_safe nx body it s =
     (case it of
        None \<Rightarrow> Some s
      | Some a \<Rightarrow>
          do { n \<leftarrow> nx s a;
               (brk, s1) \<leftarrow> body a s;
               if brk then Some s1 else foreach_ll_safe nx body n s1 })"

text \<open>
  The \<open>llp\<close> variants walk over the places that hold the pointers: the head of the list or the
  member of an object.
\<close>

datatype place = Head | Next_of addr

record ll =
  ll_head :: ptr
  ll_next :: "addr \<Rightarrow> ptr option"

definition read_place :: "ll \<Rightarrow> place \<Rightarrow> ptr option" where
  "read_place s l = (case l of Head \<Rightarrow> Some (ll_head s) | Next_of a \<Rightarrow> ll_next s a)"

definition write_place :: "place \<Rightarrow> ptr \<Rightarrow> ll \<Rightarrow> ll option" where
  "write_place l p s =
     (case l of
        Head \<Rightarrow> Some (s\<lparr>ll_head := p\<rparr>)
      | Next_of a \<Rightarrow> if ll_next s a = None then None else Some (s\<lparr>ll_next := (ll_next s)(a \<mapsto> p)\<rparr>))"

partial_function (option) foreach_llp :: "(place \<Rightarrow> ll \<Rightarrow> (bool \<times> ll) option) \<Rightarrow> place \<Rightarrow> ll \<Rightarrow> ll option" where
  "foreach_llp body it s =
     do { p \<leftarrow> read_place s it;
          if p = None then Some s
          else
            do { (brk, s1) \<leftarrow> body it s;
                 if brk then Some s1
                 else do { q \<leftarrow> read_place s1 it; a \<leftarrow> q; foreach_llp body (Next_of a) s1 } } }"

partial_function (option) foreach_llp_safe :: "(place \<Rightarrow> ll \<Rightarrow> (bool \<times> ll) option) \<Rightarrow> place \<Rightarrow> ll \<Rightarrow> ll option" where
  "foreach_llp_safe body it s =
     do { p \<leftarrow> read_place s it;
          case p of
            None \<Rightarrow> Some s
          | Some a \<Rightarrow>
              do { (brk, s1) \<leftarrow> body it s;
                   if brk then Some s1 else foreach_llp_safe body (Next_of a) s1 } }"

definition lws_ll_fwd_insert :: "addr \<Rightarrow> ll \<Rightarrow> ll option" where
  "lws_ll_fwd_insert new s =
     do { s1 \<leftarrow> write_place (Next_of new) (ll_head s) s;
          write_place Head (Some new) s1 }"

definition lws_ll_fwd_remove :: "addr \<Rightarrow> ll \<Rightarrow> ll option" where
  "lws_ll_fwd_remove target =
     foreach_llp (\<lambda>pp s.
       do { p \<leftarrow> read_place s pp;
            if p = Some target then
              do { n \<leftarrow> read_place s (Next_of target);
                   s1 \<leftarrow> write_place pp n s;
                   Some (True, s1) }
            else Some (False, s) }) Head"

section \<open>What the list macros do\<close>

fun chain :: "(addr \<Rightarrow> ptr option) \<Rightarrow> ptr \<Rightarrow> addr list \<Rightarrow> bool" where
  "chain h p [] \<longleftrightarrow> p = None"
| "chain h p (a # as) \<longleftrightarrow> p = Some a \<and> (\<exists>q. h a = Some q \<and> chain h q as)"

lemma chain_cong: "chain h p xs \<Longrightarrow> \<forall>x\<in>set xs. h' x = h x \<Longrightarrow> chain h' p xs"
  by (induction xs arbitrary: p) auto

text \<open>The bodies of a loop, one after the other.\<close>

fun each :: "(addr \<Rightarrow> 's \<Rightarrow> (bool \<times> 's) option) \<Rightarrow> addr list \<Rightarrow> 's \<Rightarrow> 's option" where
  "each body [] s = Some s"
| "each body (a # as) s = do { (brk, s1) \<leftarrow> body a s; if brk then Some s1 else each body as s1 }"

text \<open>A body that leaves the list alone is run for each element in order.\<close>

lemma foreach_ll_each:
  assumes "\<And>a s brk s'. body a s = Some (brk, s') \<Longrightarrow> nx s' = nx s"
  shows "chain (nx s) p xs \<Longrightarrow> foreach_ll nx body p s = each body xs s"
proof (induction xs arbitrary: p s)
  case (Cons a as)
  then obtain q where q: "p = Some a" "nx s a = Some q" "chain (nx s) q as" by auto
  show ?case
  proof (cases "body a s")
    case (Some r)
    obtain brk s1 where r: "r = (brk, s1)" by force
    have "nx s1 = nx s" using assms Some r by blast
    then show ?thesis using Cons.IH [of s1 q] q Some r by (subst foreach_ll.simps) simp
  qed (use q in \<open>subst foreach_ll.simps, simp\<close>)
qed (simp add: foreach_ll.simps)

text \<open>In the safe variant it may also free the element it is run for.\<close>

lemma foreach_ll_safe_each:
  assumes "\<And>a s brk s' x. body a s = Some (brk, s') \<Longrightarrow> x \<noteq> a \<Longrightarrow> nx s' x = nx s x"
  shows "chain (nx s) p xs \<Longrightarrow> distinct xs \<Longrightarrow> foreach_ll_safe nx body p s = each body xs s"
proof (induction xs arbitrary: p s)
  case (Cons a as)
  then obtain q where q: "p = Some a" "nx s a = Some q" "chain (nx s) q as" by auto
  show ?case
  proof (cases "body a s")
    case (Some r)
    obtain brk s1 where r: "r = (brk, s1)" by force
    have "nx s1 x = nx s x" if "x \<in> set as" for x
      by (rule assms [of a s brk]) (use Some r Cons.prems(2) that in auto)
    then have "chain (nx s1) q as" by (intro chain_cong [OF q(3)]) blast
    then show ?thesis using Cons.IH [of s1 q] Cons.prems(2) q Some r by (subst foreach_ll_safe.simps) simp
  qed (use q in \<open>subst foreach_ll_safe.simps, simp\<close>)
qed (simp add: foreach_ll_safe.simps)

lemma lws_ll_fwd_insert_front:
  assumes "chain (ll_next s) (ll_head s) xs" "ll_next s a \<noteq> None" "a \<notin> set xs"
  shows "\<exists>s'. lws_ll_fwd_insert a s = Some s' \<and> chain (ll_next s') (ll_head s') (a # xs)"
  using assms chain_cong [OF assms(1), of "(ll_next s)(a \<mapsto> ll_head s)"]
  by (auto simp: lws_ll_fwd_insert_def write_place_def)

lemma foreach_llp_remove:
  assumes "read_place s l = Some p" "chain (ll_next s) p xs" "distinct xs" "\<forall>x\<in>set xs. l \<noteq> Next_of x"
    and body: "body = (\<lambda>pp s. do { p \<leftarrow> read_place s pp;
      if p = Some t then do { n \<leftarrow> read_place s (Next_of t); s1 \<leftarrow> write_place pp n s; Some (True, s1) }
      else Some (False, s) })"
  shows "\<exists>s' p'. foreach_llp body l s = Some s' \<and> read_place s' l = Some p' \<and> chain (ll_next s') p' (remove1 t xs) \<and>
    (\<forall>k. k \<noteq> l \<longrightarrow> k \<notin> Next_of ` set xs \<longrightarrow> read_place s' k = read_place s k)"
  using assms(1-4)
proof (induction xs arbitrary: l p)
  case Nil
  then show ?case by (subst foreach_llp.simps) simp
next
  case (Cons a as)
  obtain q where q: "p = Some a" "ll_next s a = Some q" "chain (ll_next s) q as" using Cons.prems(2) by auto
  have r: "read_place s l = Some (Some a)" using Cons.prems(1) q(1) by simp
  show ?case
  proof (cases "a = t")
    case True
    have "\<exists>s'. write_place l q s = Some s' \<and> read_place s' l = Some q \<and> (\<forall>k. k \<noteq> l \<longrightarrow> read_place s' k = read_place s k)"
      using r by (cases l) (auto simp: write_place_def read_place_def split: place.splits)
    then obtain s' where s': "write_place l q s = Some s'" "read_place s' l = Some q"
      "\<forall>k. k \<noteq> l \<longrightarrow> read_place s' k = read_place s k" by blast
    have "ll_next s' x = ll_next s x" if "x \<in> set as" for x
      using s'(3) [rule_format, of "Next_of x"] Cons.prems(4) that by (auto simp: read_place_def)
    then have "chain (ll_next s') q as" by (intro chain_cong [OF q(3)]) blast
    moreover have "foreach_llp body l s = Some s'"
      using r True q(2) s'(1) by (subst foreach_llp.simps) (simp add: body read_place_def [of s "Next_of t"])
    ultimately show ?thesis using s'(2,3) True by auto
  next
    case False
    have n: "read_place s (Next_of a) = Some q" using q(2) by (simp add: read_place_def)
    obtain s' p' where s': "foreach_llp body (Next_of a) s = Some s'" "read_place s' (Next_of a) = Some p'"
      "chain (ll_next s') p' (remove1 t as)"
      "\<forall>k. k \<noteq> Next_of a \<longrightarrow> k \<notin> Next_of ` set as \<longrightarrow> read_place s' k = read_place s k"
      using Cons.IH [OF n q(3)] Cons.prems(3) by auto
    have "read_place s' l = Some (Some a)" using s'(4) Cons.prems(4) r by auto
    moreover have "chain (ll_next s') (Some a) (remove1 t (a # as))"
      using False s'(2,3) by (simp add: read_place_def)
    moreover have "foreach_llp body l s = Some s'"
      using r False s'(1) by (subst foreach_llp.simps) (simp add: body)
    ultimately show ?thesis using s'(4) by auto
  qed
qed

lemma lws_ll_fwd_remove_first:
  assumes "chain (ll_next s) (ll_head s) xs" "distinct xs"
  shows "\<exists>s'. lws_ll_fwd_remove t s = Some s' \<and> chain (ll_next s') (ll_head s') (remove1 t xs)"
proof -
  have "read_place s Head = Some (ll_head s)" by (simp add: read_place_def)
  from foreach_llp_remove [OF this assms _ refl, of t] show ?thesis
    by (auto simp: lws_ll_fwd_remove_def read_place_def)
qed

section \<open>Doubly linked lists\<close>

record lws_dll =
  dll_prev :: ptr
  dll_next :: ptr

type_synonym dlls = "addr \<Rightarrow> lws_dll option"

definition lws_dll_get_head :: "ptr \<Rightarrow> dlls \<Rightarrow> ptr option" where
  "lws_dll_get_head phead h = do { a \<leftarrow> phead; d \<leftarrow> h a; Some (dll_next d) }"

definition lws_dll_get_tail :: "ptr \<Rightarrow> dlls \<Rightarrow> ptr option" where
  "lws_dll_get_tail phead h = do { a \<leftarrow> phead; d \<leftarrow> h a; Some (dll_prev d) }"

text \<open>The macro looks at the head only when both pointers of the element are null.\<close>

definition lws_dll_is_detached :: "addr \<Rightarrow> addr \<Rightarrow> dlls \<Rightarrow> bool option" where
  "lws_dll_is_detached dll phead h =
     do { d \<leftarrow> h dll;
          if dll_prev d \<noteq> None \<or> dll_next d \<noteq> None then Some False
          else do { p \<leftarrow> h phead; Some (dll_prev p \<noteq> Some dll) } }"

record lws_dll2 =
  dll2_prev :: ptr
  dll2_next :: ptr
  dll2_owner :: ptr

record lws_dll2_owner =
  owner_tail :: ptr
  owner_head :: ptr
  owner_count :: u32

definition lws_dll2_is_detached :: "lws_dll2 \<Rightarrow> bool" where
  "lws_dll2_is_detached d \<longleftrightarrow> dll2_owner d = None"

definition lws_dll2_owner_of :: "lws_dll2 \<Rightarrow> ptr" where
  "lws_dll2_owner_of d = dll2_owner d"

definition lws_dll2_get_head :: "lws_dll2_owner \<Rightarrow> ptr" where
  "lws_dll2_get_head own = owner_head own"

definition lws_dll2_get_tail :: "lws_dll2_owner \<Rightarrow> ptr" where
  "lws_dll2_get_tail own = owner_tail own"

text \<open>\<open>lws_start_foreach_dll\<close> and its safe variant, over the \<open>next\<close> members.\<close>

definition foreach_dll :: "(addr \<Rightarrow> dlls \<Rightarrow> (bool \<times> dlls) option) \<Rightarrow> ptr \<Rightarrow> dlls \<Rightarrow> dlls option" where
  "foreach_dll = foreach_ll (\<lambda>h a. map_option dll_next (h a))"

definition foreach_dll_safe :: "(addr \<Rightarrow> dlls \<Rightarrow> (bool \<times> dlls) option) \<Rightarrow> ptr \<Rightarrow> dlls \<Rightarrow> dlls option" where
  "foreach_dll_safe = foreach_ll_safe (\<lambda>h a. map_option dll_next (h a))"

text \<open>Freeing every element of a list in a safe loop frees them all and nothing else.\<close>

definition free_dll :: "addr \<Rightarrow> dlls \<Rightarrow> (bool \<times> dlls) option" where
  "free_dll a h = (if h a = None then None else Some (False, h(a := None)))"

lemma each_free_dll:
  "set xs \<subseteq> dom h \<Longrightarrow> distinct xs \<Longrightarrow> each free_dll xs h = Some (\<lambda>a. if a \<in> set xs then None else h a)"
proof (induction xs arbitrary: h)
  case (Cons a as)
  have "free_dll a h = Some (False, h(a := None))" using Cons.prems by (auto simp: free_dll_def)
  then have "each free_dll (a # as) h = each free_dll as (h(a := None))" by simp
  also have "\<dots> = Some (\<lambda>b. if b \<in> set as then None else (h(a := None)) b)"
    by (rule Cons.IH) (use Cons.prems in auto)
  also have "(\<lambda>b. if b \<in> set as then None else (h(a := None)) b) = (\<lambda>b. if b \<in> set (a # as) then None else h b)"
    by (simp add: fun_eq_iff)
  finally show ?case .
qed simp

lemma chain_dom: "chain (\<lambda>a. map_option f (h a)) p xs \<Longrightarrow> set xs \<subseteq> dom h"
  by (induction xs arbitrary: p) auto

lemma foreach_dll_safe_free:
  assumes "chain (\<lambda>a. map_option dll_next (h a)) p xs" "distinct xs"
  shows "foreach_dll_safe free_dll p h = Some (\<lambda>a. if a \<in> set xs then None else h a)"
proof -
  have "map_option dll_next (h' x) = map_option dll_next (u x)"
    if "free_dll a u = Some (brk, h')" "x \<noteq> a" for a u brk h' x
    using that by (auto simp: free_dll_def split: if_splits)
  then have "foreach_ll_safe (\<lambda>h a. map_option dll_next (h a)) free_dll p h = each free_dll xs h"
    by (rule foreach_ll_safe_each [where nx = "\<lambda>h a. map_option dll_next (h a)" and s = h, OF _ assms])
  then have "foreach_dll_safe free_dll p h = each free_dll xs h" by (simp add: foreach_dll_safe_def)
  then show ?thesis using each_free_dll [OF chain_dom [OF assms(1)] assms(2)] by simp
qed

section \<open>lws-logs.h\<close>

datatype log_macro =
  lwsl_err | lwsl_user | lwsl_warn | lwsl_notice | lwsl_info | lwsl_debug | lwsl_parser
  | lwsl_header | lwsl_ext | lwsl_client | lwsl_latency | lwsl_thread

text \<open>
  The definitions of the macros in the order of the file, depending on whether \<open>_DEBUG\<close> and
  \<open>LWS_WITH_NO_LOGS\<close> are defined: a call of \<open>_lws_log\<close> with a level, or nothing.
\<close>

definition log_macros :: "bool \<Rightarrow> bool \<Rightarrow> (log_macro \<times> lws_log_levels option) list" where
  "log_macros debug_build no_logs =
     [(lwsl_err, Some LLL_ERR), (lwsl_user, Some LLL_USER)] @
     (if \<not> no_logs then [(lwsl_warn, Some LLL_WARN), (lwsl_notice, Some LLL_NOTICE)] else []) @
     (if debug_build then
        (if no_logs then [(lwsl_warn, Some LLL_WARN), (lwsl_notice, Some LLL_NOTICE)] else []) @
        [(lwsl_info, Some LLL_INFO), (lwsl_debug, Some LLL_DEBUG), (lwsl_parser, Some LLL_PARSER),
         (lwsl_header, Some LLL_HEADER), (lwsl_ext, Some LLL_EXT), (lwsl_client, Some LLL_CLIENT),
         (lwsl_latency, Some LLL_LATENCY), (lwsl_thread, Some LLL_THREAD)]
      else
        (if no_logs then [(lwsl_warn, None), (lwsl_notice, None)] else []) @
        [(lwsl_info, None), (lwsl_debug, None), (lwsl_parser, None), (lwsl_header, None),
         (lwsl_ext, None), (lwsl_client, None), (lwsl_latency, None), (lwsl_thread, None)])"

text \<open>In every build each macro is defined exactly once, and errors are never compiled out.\<close>

lemma log_macros_once:
  "distinct (map fst (log_macros d n))" "m \<in> fst ` set (log_macros d n)"
proof -
  show "distinct (map fst (log_macros d n))" by (cases d; cases n; simp add: log_macros_def)
  show "m \<in> fst ` set (log_macros d n)" by (cases d; cases n; cases m; simp add: log_macros_def)
qed

lemma log_macros_notice:
  "map_of (log_macros d n) lwsl_err = Some (Some LLL_ERR)"
  "map_of (log_macros d n) lwsl_notice = Some (if n \<and> \<not> d then None else Some LLL_NOTICE)"
  by (simp_all add: log_macros_def)

datatype hexdump_macro =
  lwsl_hexdump_err | lwsl_hexdump_warn | lwsl_hexdump_notice | lwsl_hexdump_info | lwsl_hexdump_debug

primrec hexdump_level :: "hexdump_macro \<Rightarrow> lws_log_levels" where
  "hexdump_level lwsl_hexdump_err = LLL_ERR"
| "hexdump_level lwsl_hexdump_warn = LLL_WARN"
| "hexdump_level lwsl_hexdump_notice = LLL_NOTICE"
| "hexdump_level lwsl_hexdump_info = LLL_INFO"
| "hexdump_level lwsl_hexdump_debug = LLL_DEBUG"

text \<open>\<open>lws_is_be\<close> reads the first byte of an \<open>int\<close> with the bits of \<open>~0xff\<close>.\<close>

definition lws_is_be :: int where
  "lws_is_be = signed_char (le_bytes 4 (NOT 0xff :: u32) ! 0)"

lemma not_big_endian: "lws_is_be = 0"
  by code_simp

section \<open>lws-write.h: fragments of a message\<close>

definition lws_write_ws_flags :: "nat \<Rightarrow> int \<Rightarrow> int \<Rightarrow> nat" where
  "lws_write_ws_flags initial is_start is_end =
     (let r = (if is_start \<noteq> 0 then initial else write_code LWS_WRITE_CONTINUATION) in
      if is_end = 0 then r OR write_code LWS_WRITE_NO_FIN else r)"

text \<open>The flags of the fragments of a message that is cut into \<open>n + 1\<close> pieces.\<close>

definition fragment_flags :: "nat \<Rightarrow> nat \<Rightarrow> nat list" where
  "fragment_flags initial n = map (\<lambda>i. lws_write_ws_flags initial (of_bool (i = 0)) (of_bool (i = n))) [0..<Suc n]"

lemma no_fin_bit:
  assumes "\<not> bit initial 6"
  shows "bit (lws_write_ws_flags initial st en) 6 \<longleftrightarrow> en = 0"
proof -
  have "bit (write_code LWS_WRITE_NO_FIN) 6" "\<not> bit (write_code LWS_WRITE_CONTINUATION) 6"
    by (simp_all add: bit_iff_odd)
  then show ?thesis using assms by (auto simp: lws_write_ws_flags_def Let_def bit_or_iff simp del: write_code.simps)
qed

text \<open>Only the last fragment is final, and only the first carries the kind of the message.\<close>

lemma fragment_flags_final:
  assumes "\<not> bit initial 6" "i \<le> n"
  shows "bit (fragment_flags initial n ! i) 6 \<longleftrightarrow> i < n"
    "0 < i \<Longrightarrow> fragment_flags initial n ! i = write_code LWS_WRITE_CONTINUATION OR (if i = n then 0 else write_code LWS_WRITE_NO_FIN)"
proof -
  have "fragment_flags initial n ! i = lws_write_ws_flags initial (of_bool (i = 0)) (of_bool (i = n))"
    using assms(2) by (simp add: fragment_flags_def nth_append)
  then show "bit (fragment_flags initial n ! i) 6 \<longleftrightarrow> i < n"
    "0 < i \<Longrightarrow> fragment_flags initial n ! i = write_code LWS_WRITE_CONTINUATION OR (if i = n then 0 else write_code LWS_WRITE_NO_FIN)"
    using assms(2) no_fin_bit [OF assms(1), of "of_bool (i = 0)" "of_bool (i = n)"]
    by (auto simp: lws_write_ws_flags_def Let_def simp del: write_code.simps)
qed

section \<open>lws-ws-close.h\<close>

datatype lws_close_status =
  LWS_CLOSE_STATUS_NOSTATUS | LWS_CLOSE_STATUS_NORMAL | LWS_CLOSE_STATUS_GOINGAWAY
  | LWS_CLOSE_STATUS_PROTOCOL_ERR | LWS_CLOSE_STATUS_UNACCEPTABLE_OPCODE
  | LWS_CLOSE_STATUS_RESERVED | LWS_CLOSE_STATUS_NO_STATUS | LWS_CLOSE_STATUS_ABNORMAL_CLOSE
  | LWS_CLOSE_STATUS_INVALID_PAYLOAD | LWS_CLOSE_STATUS_POLICY_VIOLATION
  | LWS_CLOSE_STATUS_MESSAGE_TOO_LARGE | LWS_CLOSE_STATUS_EXTENSION_REQUIRED
  | LWS_CLOSE_STATUS_UNEXPECTED_CONDITION | LWS_CLOSE_STATUS_TLS_FAILURE
  | LWS_CLOSE_STATUS_CLIENT_TRANSACTION_DONE | LWS_CLOSE_STATUS_NOSTATUS_CONTEXT_DESTROY

primrec close_code :: "lws_close_status \<Rightarrow> nat" where
  "close_code LWS_CLOSE_STATUS_NOSTATUS = 0"
| "close_code LWS_CLOSE_STATUS_NORMAL = 1000"
| "close_code LWS_CLOSE_STATUS_GOINGAWAY = 1001"
| "close_code LWS_CLOSE_STATUS_PROTOCOL_ERR = 1002"
| "close_code LWS_CLOSE_STATUS_UNACCEPTABLE_OPCODE = 1003"
| "close_code LWS_CLOSE_STATUS_RESERVED = 1004"
| "close_code LWS_CLOSE_STATUS_NO_STATUS = 1005"
| "close_code LWS_CLOSE_STATUS_ABNORMAL_CLOSE = 1006"
| "close_code LWS_CLOSE_STATUS_INVALID_PAYLOAD = 1007"
| "close_code LWS_CLOSE_STATUS_POLICY_VIOLATION = 1008"
| "close_code LWS_CLOSE_STATUS_MESSAGE_TOO_LARGE = 1009"
| "close_code LWS_CLOSE_STATUS_EXTENSION_REQUIRED = 1010"
| "close_code LWS_CLOSE_STATUS_UNEXPECTED_CONDITION = 1011"
| "close_code LWS_CLOSE_STATUS_TLS_FAILURE = 1015"
| "close_code LWS_CLOSE_STATUS_CLIENT_TRANSACTION_DONE = 2000"
| "close_code LWS_CLOSE_STATUS_NOSTATUS_CONTEXT_DESTROY = 9999"

section \<open>lws-timeout-timer.h\<close>

datatype pending_timeout =
  NO_PENDING_TIMEOUT | PENDING_TIMEOUT_AWAITING_PROXY_RESPONSE
  | PENDING_TIMEOUT_AWAITING_CONNECT_RESPONSE | PENDING_TIMEOUT_ESTABLISH_WITH_SERVER
  | PENDING_TIMEOUT_AWAITING_SERVER_RESPONSE | PENDING_TIMEOUT_AWAITING_PING
  | PENDING_TIMEOUT_CLOSE_ACK | PENDING_TIMEOUT_UNUSED1 | PENDING_TIMEOUT_SENT_CLIENT_HANDSHAKE
  | PENDING_TIMEOUT_SSL_ACCEPT | PENDING_TIMEOUT_HTTP_CONTENT
  | PENDING_TIMEOUT_AWAITING_CLIENT_HS_SEND | PENDING_FLUSH_STORED_SEND_BEFORE_CLOSE
  | PENDING_TIMEOUT_SHUTDOWN_FLUSH | PENDING_TIMEOUT_CGI | PENDING_TIMEOUT_HTTP_KEEPALIVE_IDLE
  | PENDING_TIMEOUT_WS_PONG_CHECK_SEND_PING | PENDING_TIMEOUT_WS_PONG_CHECK_GET_PONG
  | PENDING_TIMEOUT_CLIENT_ISSUE_PAYLOAD | PENDING_TIMEOUT_AWAITING_SOCKS_GREETING_REPLY
  | PENDING_TIMEOUT_AWAITING_SOCKS_CONNECT_REPLY | PENDING_TIMEOUT_AWAITING_SOCKS_AUTH_REPLY
  | PENDING_TIMEOUT_KILLED_BY_SSL_INFO | PENDING_TIMEOUT_KILLED_BY_PARENT
  | PENDING_TIMEOUT_CLOSE_SEND | PENDING_TIMEOUT_HOLDING_AH | PENDING_TIMEOUT_UDP_IDLE
  | PENDING_TIMEOUT_CLIENT_CONN_IDLE | PENDING_TIMEOUT_LAGGING | PENDING_TIMEOUT_THREADPOOL
  | PENDING_TIMEOUT_THREADPOOL_TASK | PENDING_TIMEOUT_KILLED_BY_PROXY_CLIENT_CLOSE
  | PENDING_TIMEOUT_USER_REASON_BASE

primrec timeout_code :: "pending_timeout \<Rightarrow> nat" where
  "timeout_code NO_PENDING_TIMEOUT = 0"
| "timeout_code PENDING_TIMEOUT_AWAITING_PROXY_RESPONSE = 1"
| "timeout_code PENDING_TIMEOUT_AWAITING_CONNECT_RESPONSE = 2"
| "timeout_code PENDING_TIMEOUT_ESTABLISH_WITH_SERVER = 3"
| "timeout_code PENDING_TIMEOUT_AWAITING_SERVER_RESPONSE = 4"
| "timeout_code PENDING_TIMEOUT_AWAITING_PING = 5"
| "timeout_code PENDING_TIMEOUT_CLOSE_ACK = 6"
| "timeout_code PENDING_TIMEOUT_UNUSED1 = 7"
| "timeout_code PENDING_TIMEOUT_SENT_CLIENT_HANDSHAKE = 8"
| "timeout_code PENDING_TIMEOUT_SSL_ACCEPT = 9"
| "timeout_code PENDING_TIMEOUT_HTTP_CONTENT = 10"
| "timeout_code PENDING_TIMEOUT_AWAITING_CLIENT_HS_SEND = 11"
| "timeout_code PENDING_FLUSH_STORED_SEND_BEFORE_CLOSE = 12"
| "timeout_code PENDING_TIMEOUT_SHUTDOWN_FLUSH = 13"
| "timeout_code PENDING_TIMEOUT_CGI = 14"
| "timeout_code PENDING_TIMEOUT_HTTP_KEEPALIVE_IDLE = 15"
| "timeout_code PENDING_TIMEOUT_WS_PONG_CHECK_SEND_PING = 16"
| "timeout_code PENDING_TIMEOUT_WS_PONG_CHECK_GET_PONG = 17"
| "timeout_code PENDING_TIMEOUT_CLIENT_ISSUE_PAYLOAD = 18"
| "timeout_code PENDING_TIMEOUT_AWAITING_SOCKS_GREETING_REPLY = 19"
| "timeout_code PENDING_TIMEOUT_AWAITING_SOCKS_CONNECT_REPLY = 20"
| "timeout_code PENDING_TIMEOUT_AWAITING_SOCKS_AUTH_REPLY = 21"
| "timeout_code PENDING_TIMEOUT_KILLED_BY_SSL_INFO = 22"
| "timeout_code PENDING_TIMEOUT_KILLED_BY_PARENT = 23"
| "timeout_code PENDING_TIMEOUT_CLOSE_SEND = 24"
| "timeout_code PENDING_TIMEOUT_HOLDING_AH = 25"
| "timeout_code PENDING_TIMEOUT_UDP_IDLE = 26"
| "timeout_code PENDING_TIMEOUT_CLIENT_CONN_IDLE = 27"
| "timeout_code PENDING_TIMEOUT_LAGGING = 28"
| "timeout_code PENDING_TIMEOUT_THREADPOOL = 29"
| "timeout_code PENDING_TIMEOUT_THREADPOOL_TASK = 30"
| "timeout_code PENDING_TIMEOUT_KILLED_BY_PROXY_CLIENT_CLOSE = 31"
| "timeout_code PENDING_TIMEOUT_USER_REASON_BASE = 1000"

definition pending_timeouts :: "pending_timeout list" where
  "pending_timeouts =
     [NO_PENDING_TIMEOUT, PENDING_TIMEOUT_AWAITING_PROXY_RESPONSE,
      PENDING_TIMEOUT_AWAITING_CONNECT_RESPONSE, PENDING_TIMEOUT_ESTABLISH_WITH_SERVER,
      PENDING_TIMEOUT_AWAITING_SERVER_RESPONSE, PENDING_TIMEOUT_AWAITING_PING,
      PENDING_TIMEOUT_CLOSE_ACK, PENDING_TIMEOUT_UNUSED1, PENDING_TIMEOUT_SENT_CLIENT_HANDSHAKE,
      PENDING_TIMEOUT_SSL_ACCEPT, PENDING_TIMEOUT_HTTP_CONTENT,
      PENDING_TIMEOUT_AWAITING_CLIENT_HS_SEND, PENDING_FLUSH_STORED_SEND_BEFORE_CLOSE,
      PENDING_TIMEOUT_SHUTDOWN_FLUSH, PENDING_TIMEOUT_CGI, PENDING_TIMEOUT_HTTP_KEEPALIVE_IDLE,
      PENDING_TIMEOUT_WS_PONG_CHECK_SEND_PING, PENDING_TIMEOUT_WS_PONG_CHECK_GET_PONG,
      PENDING_TIMEOUT_CLIENT_ISSUE_PAYLOAD, PENDING_TIMEOUT_AWAITING_SOCKS_GREETING_REPLY,
      PENDING_TIMEOUT_AWAITING_SOCKS_CONNECT_REPLY, PENDING_TIMEOUT_AWAITING_SOCKS_AUTH_REPLY,
      PENDING_TIMEOUT_KILLED_BY_SSL_INFO, PENDING_TIMEOUT_KILLED_BY_PARENT,
      PENDING_TIMEOUT_CLOSE_SEND, PENDING_TIMEOUT_HOLDING_AH, PENDING_TIMEOUT_UDP_IDLE,
      PENDING_TIMEOUT_CLIENT_CONN_IDLE, PENDING_TIMEOUT_LAGGING, PENDING_TIMEOUT_THREADPOOL,
      PENDING_TIMEOUT_THREADPOOL_TASK, PENDING_TIMEOUT_KILLED_BY_PROXY_CLIENT_CLOSE,
      PENDING_TIMEOUT_USER_REASON_BASE]"

text \<open>The reasons of the library are numbered without a gap, below those of its users.\<close>

lemma timeouts_numbered: "map timeout_code pending_timeouts = [0..<32] @ [1000]"
  by (simp add: pending_timeouts_def upt_rec)

definition LWS_TO_KILL_ASYNC :: int where "LWS_TO_KILL_ASYNC = -1"
definition LWS_TO_KILL_SYNC :: int where "LWS_TO_KILL_SYNC = -2"
definition LWS_SET_TIMER_USEC_CANCEL :: int where "LWS_SET_TIMER_USEC_CANCEL = -1"
definition LWS_USEC_PER_SEC :: int where "LWS_USEC_PER_SEC = 1000000"

end
